(* ===== verification/Prelude.thy ===== *)
theory Prelude
  imports Main "HOL-Library.Word" "HOL-Library.Multiset"
begin

text \<open>
  Shared vocabulary of the development: the machine integer types the sources use, the ways a
  process can end, the boost error codes, and the generic facts on lists, words and counting that
  several components need. Nothing here models a component of its own.
\<close>

section \<open>Types the components share\<close>

text \<open>\<open>std::size_t\<close> and \<open>uint32_t\<close> at their widths; arithmetic on them wraps around.\<close>

type_synonym size_t = "64 word"
type_synonym u32 = "32 word"
type_synonym u64 = "64 word"

text \<open>
  A \<open>std::string\<close> and a byte buffer are lists of \<open>char\<close>, which in HOL is an 8-bit value.
\<close>

type_synonym bytes = "char list"

text \<open>
  \<open>boost::system::error_code\<close>: the sources test it for failure, compare it with \<open>eof\<close>, and
  print its message; every other value is identified by its number.
\<close>

datatype error_code = No_error | Eof | Operation_aborted | Other_error int

definition failed :: "error_code \<Rightarrow> bool" where
  "failed ec \<longleftrightarrow> ec \<noteq> No_error"

text \<open>
  How a process ends: \<open>Exit\<close> with the value \<open>main\<close> returns, \<open>Terminate\<close> when
  \<open>std::terminate\<close> or \<open>abort\<close> is reached, \<open>Hang\<close> when a blocking call never returns.
\<close>

datatype proc_outcome = Exit int | Terminate | Hang

section \<open>Collections of rules\<close>

text \<open>
  \<open>pool_simps\<close>: effects of the pool operations on each field; \<open>step_simps\<close>: one-step
  equations of the coroutine machines; \<open>wire_simps\<close>: the messages and their accessors.
\<close>

named_theorems pool_simps
named_theorems step_simps
named_theorems wire_simps

section \<open>Facts on words\<close>

lemma unat_inc_below:
  fixes i n :: "'a::len word"
  assumes "i < n"
  shows "unat (i + 1) = Suc (unat i)"
proof -
  have "unat i < unat n" using assms by (simp add: word_less_nat_alt)
  moreover have "unat n < 2 ^ LENGTH('a)" by (simp add: unsigned_less)
  ultimately have "Suc (unat i) < 2 ^ LENGTH('a)" by linarith
  then show ?thesis by (simp add: unat_word_ariths)
qed

lemma unat_inc_le: "i < (n :: 'a::len word) \<Longrightarrow> i + 1 \<le> n"
  by (simp add: word_le_nat_alt word_less_nat_alt unat_inc_below Suc_le_eq)

lemma word_less_of_nat_iff:
  "unat (n :: 'a::len word) = k \<Longrightarrow> i < n \<longleftrightarrow> unat i < k"
  by (simp add: word_less_nat_alt)

section \<open>Facts on lists\<close>

lemma take_append_drop_append [simp]: "take k xs @ drop k xs @ ys = xs @ ys"
  by (metis append.assoc append_take_drop_id)

lemma map_mod_rotate:
  "map (\<lambda>k. xs ! ((p + k) mod length xs)) [0..<length xs] = rotate p xs"
  by (rule nth_equalityI) (simp_all add: nth_rotate)

lemma mset_rotate1_eq [simp]: "mset (rotate1 xs) = mset xs"
  by (cases xs) simp_all

lemma mset_rotate_eq [simp]: "mset (rotate n xs) = mset xs"
  by (induction n) simp_all

text \<open>Sums over a list of which one element is replaced or removed.\<close>

lemma sum_list_map_update:
  fixes f :: "'a \<Rightarrow> 'm :: comm_monoid_add"
  assumes "k < length xs"
  shows "sum_list (map f (xs[k := x])) + f (xs ! k) = sum_list (map f xs) + f x"
proof -
  have "sum_list (map f xs) = sum_list (map f (take k xs)) + (f (xs ! k) + sum_list (map f (drop (Suc k) xs)))"
    by (subst id_take_nth_drop [OF assms]) (simp del: append_take_drop_id)
  then show ?thesis using assms by (simp add: upd_conv_take_nth_drop ac_simps)
qed

lemma sum_list_remove1:
  fixes f :: "'a \<Rightarrow> 'm :: comm_monoid_add"
  shows "x \<in> set xs \<Longrightarrow> sum_list (map f xs) = f x + sum_list (map f (remove1 x xs))"
  by (induction xs) (auto simp: ac_simps)

lemma length_remove1_Suc: "x \<in> set xs \<Longrightarrow> length xs = Suc (length (remove1 x xs))"
  by (induction xs) auto

text \<open>
  A whole turn round the list can be split off the front of a sequence of indices modulo the
  length.
\<close>

lemma map_mod_split:
  assumes "xs \<noteq> []"
  shows "map (\<lambda>k. xs ! ((p + k) mod length xs)) [0..<length xs + n] =
         rotate p xs @ map (\<lambda>k. xs ! ((p + k) mod length xs)) [0..<n]"
proof -
  let ?f = "\<lambda>k. xs ! ((p + k) mod length xs)"
  have "map ?f [length xs..<length xs + n] = map ?f (map (\<lambda>k. k + length xs) [0..<n])"
    by (simp only: map_add_upt add.commute)
  also have "\<dots> = map ?f [0..<n]"
  proof -
    have "(p + (k + length xs)) mod length xs = (p + k) mod length xs" for k
      by (simp flip: add.assoc)
    then show ?thesis by simp
  qed
  finally show ?thesis
    by (simp only: upt_add_eq_append [OF le0] map_append map_mod_rotate)
qed

end
