(* ===== verification/Round_Robin.thy ===== *)
theory Round_Robin
  imports Prelude
begin

text \<open>
  The contract of a round-robin selector: an object that hands out the elements of a fixed,
  non-empty list in turn. Two components of the repository implement it independently, the
  \<open>IoContextPool\<close> of \<open>include/io_context_pool.h\<close> (which resets its index after the
  increment) and the HTTP client selector of \<open>src/test_drogon.cpp\<close> and \<open>src/test.cpp\<close>
  (which resets it before the read). The laws below are all a client can rely on; what follows
  from them (which element the \<open>n\<close>-th call returns, fairness of every window, balance of the
  load) is proved once here.
\<close>

section \<open>Calling a selector repeatedly\<close>

text \<open>
  \<open>calls step n s\<close> makes \<open>n\<close> calls in sequence and collects what they return; \<open>None\<close>
  when one of them reads out of range.
\<close>

fun calls :: "('s \<Rightarrow> ('a \<times> 's) option) \<Rightarrow> nat \<Rightarrow> 's \<Rightarrow> ('a list \<times> 's) option" where
  "calls step 0 s = Some ([], s)"
| "calls step (Suc n) s =
     (case step s of
        None \<Rightarrow> None
      | Some (x, s') \<Rightarrow>
          (case calls step n s' of None \<Rightarrow> None | Some (xs, s'') \<Rightarrow> Some (x # xs, s'')))"

text \<open>What one call keeps, a sequence of calls keeps.\<close>

lemma calls_invariant:
  assumes keep: "\<And>s x s'. P s \<Longrightarrow> step s = Some (x, s') \<Longrightarrow> P s'"
    and "P s" and "calls step n s = Some (xs, s')"
  shows "P s'"
  using assms(2,3)
proof (induction n arbitrary: s xs)
  case 0
  then show ?case by simp
next
  case (Suc n)
  from Suc.prems(2) obtain x s1 ys where "step s = Some (x, s1)" and "calls step n s1 = Some (ys, s')"
    by (auto split: option.splits)
  with Suc.IH [OF keep] Suc.prems(1) show ?case by blast
qed

text \<open>
  The specification of such an object: a queue whose first element is handed out and goes to the
  end.
\<close>

definition rotating_next :: "'a list \<Rightarrow> ('a \<times> 'a list) option" where
  "rotating_next q = (case q of [] \<Rightarrow> None | x # xs \<Rightarrow> Some (x, xs @ [x]))"

lemma rotating_next_rotate:
  assumes "xs \<noteq> []"
  shows "rotating_next (rotate p xs) = Some (xs ! (p mod length xs), rotate (Suc p) xs)"
proof -
  have "rotate p xs \<noteq> []" using assms by simp
  then obtain y ys where y: "rotate p xs = y # ys" by (meson neq_Nil_conv)
  then have "y = xs ! (p mod length xs)" using assms by (metis hd_rotate_conv_nth list.sel(1))
  moreover have "rotate (Suc p) xs = ys @ [y]" by (simp add: rotate_def flip: y [unfolded rotate_def]) (simp add: y [unfolded rotate_def])
  ultimately show ?thesis by (simp add: rotating_next_def y)
qed

section \<open>The contract\<close>

locale round_robin =
  fixes items :: "'s \<Rightarrow> 'a list"
    and pos :: "'s \<Rightarrow> nat"
    and invar :: "'s \<Rightarrow> bool"
    and step :: "'s \<Rightarrow> ('a \<times> 's) option"
  assumes items_nonempty: "invar s \<Longrightarrow> items s \<noteq> []"
    and step_returns:
      "invar s \<Longrightarrow> \<exists>s'. step s = Some (items s ! (pos s mod length (items s)), s')"
    and step_invar: "invar s \<Longrightarrow> step s = Some (x, s') \<Longrightarrow> invar s'"
    and step_items: "invar s \<Longrightarrow> step s = Some (x, s') \<Longrightarrow> items s' = items s"
    and step_pos: "invar s \<Longrightarrow> step s = Some (x, s') \<Longrightarrow>
      pos s' mod length (items s) = Suc (pos s) mod length (items s)"
begin

text \<open>The \<open>k\<close>-th of \<open>n\<close> calls returns the element \<open>k\<close> places after the current one.\<close>

lemma calls_returns:
  "invar s \<Longrightarrow> \<exists>s'. calls step n s =
     Some (map (\<lambda>k. items s ! ((pos s + k) mod length (items s))) [0..<n], s')
     \<and> invar s' \<and> items s' = items s
     \<and> pos s' mod length (items s) = (pos s + n) mod length (items s)"
proof (induction n arbitrary: s)
  case 0
  then show ?case by simp
next
  case (Suc n)
  let ?L = "length (items s)"
  from Suc.prems obtain s1 where s1: "step s = Some (items s ! (pos s mod ?L), s1)"
    using step_returns by blast
  note facts = step_invar [OF Suc.prems s1] step_items [OF Suc.prems s1] step_pos [OF Suc.prems s1]
  from Suc.IH [OF facts(1)] obtain s2 where
    s2: "calls step n s1 = Some (map (\<lambda>k. items s ! ((pos s1 + k) mod ?L)) [0..<n], s2)"
      "invar s2" "items s2 = items s" "pos s2 mod ?L = (pos s1 + n) mod ?L"
    by (auto simp: facts(2))
  have shift: "(pos s1 + k) mod ?L = (pos s + Suc k) mod ?L" for k
    by (metis add_Suc_shift facts(3) mod_add_left_eq)
  have "map (\<lambda>k. items s ! ((pos s + k) mod ?L)) [0..<Suc n] =
      items s ! (pos s mod ?L) # map (\<lambda>k. items s ! ((pos s1 + k) mod ?L)) [0..<n]"
    by (simp add: upt_conv_Cons shift del: upt_Suc flip: map_Suc_upt)
  with s1 s2 shift show ?case by simp
qed

text \<open>No call of a run goes wrong.\<close>

lemma calls_total: "invar s \<Longrightarrow> \<exists>xs s'. calls step n s = Some (xs, s') \<and> length xs = n"
  using calls_returns [of s n] by force

lemma calls_nth:
  assumes "invar s" and "calls step n s = Some (xs, s')" and "k < n"
  shows "xs ! k = items s ! ((pos s + k) mod length (items s))"
  using calls_returns [OF assms(1), of n] assms(2,3) by force

text \<open>Every window of as many calls as there are elements hands out each element exactly once.\<close>

lemma window_permutation:
  assumes "invar s" and "calls step (length (items s)) s = Some (xs, s')"
  shows "mset xs = mset (items s)"
proof -
  have "xs = rotate (pos s) (items s)"
    using calls_returns [OF assms(1), of "length (items s)"] assms(2)
    by (auto simp: map_mod_rotate)
  then show ?thesis by simp
qed

text \<open>
  Load balance: after \<open>n\<close> calls an element of a duplicate-free list has been handed out
  \<open>n div length\<close> times, or once more.
\<close>

lemma balanced_map:
  assumes "distinct xs" and "x \<in> set xs"
  shows "n div length xs \<le> count_list (map (\<lambda>k. xs ! ((p + k) mod length xs)) [0..<n]) x
       \<and> count_list (map (\<lambda>k. xs ! ((p + k) mod length xs)) [0..<n]) x \<le> Suc (n div length xs)"
proof (induction n rule: less_induct)
  case (less n)
  let ?f = "\<lambda>k. xs ! ((p + k) mod length xs)"
  have ne: "xs \<noteq> []" using assms(2) by auto
  have one: "count_list (rotate p xs) x = 1"
    using assms by (simp add: distinct_count_atmost_1 flip: count_mset)
  show ?case
  proof (cases "n < length xs")
    case True
    have "map ?f [0..<length xs] = map ?f [0..<n] @ map ?f [n..<length xs]"
      using upt_add_eq_append [of 0 n "length xs - n"] True by simp
    then have "count_list (map ?f [0..<n]) x \<le> count_list (rotate p xs) x"
      by (metis count_list_append le_add1 map_mod_rotate)
    with one True show ?thesis by simp
  next
    case False
    then obtain m where m: "n = length xs + m" by (metis le_Suc_ex not_less)
    with ne have "m < n" by simp
    with less.IH [of m] show ?thesis
      using ne by (simp add: m map_mod_split one div_add_self1)
  qed
qed

lemma balanced:
  assumes "invar s" and "distinct (items s)" and "x \<in> set (items s)"
    and "calls step n s = Some (xs, s')"
  shows "n div length (items s) \<le> count_list xs x
       \<and> count_list xs x \<le> Suc (n div length (items s))"
  using calls_returns [OF assms(1), of n] assms(4) balanced_map [OF assms(2,3)]
  by auto

text \<open>A selector is a refinement of the queue, call by call and for any number of calls.\<close>

lemma step_refines:
  assumes "invar s"
  shows "map_option (map_prod id (\<lambda>s. rotate (pos s) (items s))) (step s) = rotating_next (rotate (pos s) (items s))"
proof -
  obtain s' where s': "step s = Some (items s ! (pos s mod length (items s)), s')"
    using step_returns [OF assms] by blast
  have "rotate (pos s') (items s') = rotate (Suc (pos s)) (items s)"
    using step_pos [OF assms s'] step_items [OF assms s'] by (metis rotate_conv_mod)
  then show ?thesis by (simp add: s' rotating_next_rotate items_nonempty [OF assms])
qed

lemma calls_refine:
  "invar s \<Longrightarrow> map_option (map_prod id (\<lambda>s. rotate (pos s) (items s))) (calls step n s)
     = calls rotating_next n (rotate (pos s) (items s))"
proof (induction n arbitrary: s)
  case (Suc n)
  obtain x s' where s': "step s = Some (x, s')" using step_returns [OF Suc.prems] by blast
  with step_refines [OF Suc.prems] have "rotating_next (rotate (pos s) (items s)) = Some (x, rotate (pos s') (items s'))"
    by simp
  with Suc.IH [OF step_invar [OF Suc.prems s'], symmetric] s' show ?case
    by (cases "calls step n s'") auto
qed simp

end

end
