(* ===== verification/Io_Context_Pool.thy ===== *)
theory Io_Context_Pool
  imports Round_Robin
begin

text \<open>
  \<open>class IoContextPool\<close> of \<open>include/io_context_pool.h\<close>: a vector of \<open>io_context\<close> objects,
  one executor per context that keeps \<open>run()\<close> from returning, the index of the next context to
  hand out, and the threads that run the contexts. Contexts are objects on the heap, addressed by
  numbers. What boost documents about \<open>io_context::run\<close> is a parameter, the predicate
  \<open>returns\<close>, with the hypothesis \<open>run_contract\<close>.
\<close>

section \<open>Contexts, threads and the pool\<close>

record io_context =
  ctx_stopped :: bool
  ctx_work :: nat

type_synonym ctx_ptr = nat

text \<open>The heap of contexts and the address the next \<open>make_shared\<close> returns.\<close>

record world =
  ctxs :: "ctx_ptr \<Rightarrow> io_context option"
  next_addr :: ctx_ptr

record pool_thread =
  runs :: ctx_ptr
  joinable :: bool

record io_context_pool =
  m_io_contexts :: "ctx_ptr list"
  m_work :: "ctx_ptr list"
  m_next_io_context :: size_t
  m_threads :: "pool_thread list"

datatype pool_error = Runtime_error string

section \<open>Constructor\<close>

text \<open>
  One round of the constructor's loop: a new context is put at the end of the vector, and an
  executor that tracks work for it at the end of the list.
\<close>

definition make_shared_context :: "world \<Rightarrow> ctx_ptr \<times> world" where
  "make_shared_context w =
     (next_addr w,
      w\<lparr>ctxs := (ctxs w)(next_addr w \<mapsto> \<lparr>ctx_stopped = False, ctx_work = 0\<rparr>),
        next_addr := Suc (next_addr w)\<rparr>)"

definition require_tracked :: "ctx_ptr \<Rightarrow> world \<Rightarrow> world" where
  "require_tracked c w =
     w\<lparr>ctxs := (ctxs w)(c := map_option (\<lambda>x. x\<lparr>ctx_work := Suc (ctx_work x)\<rparr>) (ctxs w c))\<rparr>"

function ctor_loop ::
  "size_t \<Rightarrow> size_t \<Rightarrow> world \<Rightarrow> io_context_pool \<Rightarrow> world \<times> io_context_pool" where
  "ctor_loop i pool_size w p =
     (if i < pool_size then
        (let (c, w1) = make_shared_context w;
             p1 = p\<lparr>m_io_contexts := m_io_contexts p @ [c]\<rparr>;
             w2 = require_tracked c w1;
             p2 = p1\<lparr>m_work := m_work p1 @ [c]\<rparr>
         in ctor_loop (i + 1) pool_size w2 p2)
      else (w, p))"
  by pat_completeness auto
termination
  by (relation "measure (\<lambda>(i, n, w, p). unat n - unat i)")
    (auto simp: unat_inc_below word_less_nat_alt)

declare ctor_loop.simps [simp del]

definition IoContextPool ::
  "size_t \<Rightarrow> world \<Rightarrow> pool_error + (world \<times> io_context_pool)" where
  "IoContextPool pool_size w =
     (let p = \<lparr>m_io_contexts = [], m_work = [], m_next_io_context = 0, m_threads = []\<rparr>
      in if pool_size = 0 then Inl (Runtime_error ''IoContextPool size is 0'')
         else Inr (ctor_loop 0 pool_size w p))"

section \<open>Operations\<close>

text \<open>
  \<open>start\<close> appends one joinable thread per context; the loop is over the vector.
\<close>

fun start_loop :: "ctx_ptr list \<Rightarrow> io_context_pool \<Rightarrow> io_context_pool" where
  "start_loop [] p = p"
| "start_loop (c # cs) p =
     start_loop cs (p\<lparr>m_threads := m_threads p @ [\<lparr>runs = c, joinable = True\<rparr>]\<rparr>)"

definition start :: "io_context_pool \<Rightarrow> io_context_pool" where
  "start p = start_loop (m_io_contexts p) p"

text \<open>\<open>context_ptr->stop()\<close>, for every context in order.\<close>

definition stop_context :: "ctx_ptr \<Rightarrow> world \<Rightarrow> world" where
  "stop_context c w =
     w\<lparr>ctxs := (ctxs w)(c := map_option (\<lambda>x. x\<lparr>ctx_stopped := True\<rparr>) (ctxs w c))\<rparr>"

fun stop_contexts :: "ctx_ptr list \<Rightarrow> world \<Rightarrow> world" where
  "stop_contexts [] w = w"
| "stop_contexts (c # cs) w = stop_contexts cs (stop_context c w)"

text \<open>
  \<open>if (th.joinable()) th.join()\<close> over the threads. The thread runs \<open>context->run()\<close>, so
  \<open>join\<close> returns only when that call returns on the context's present state; otherwise the
  loop blocks (\<open>None\<close>).
\<close>

fun join_threads ::
  "(io_context \<Rightarrow> bool) \<Rightarrow> world \<Rightarrow> pool_thread list \<Rightarrow> pool_thread list option" where
  "join_threads returns w [] = Some []"
| "join_threads returns w (t # ts) =
     (if joinable t then
        (case ctxs w (runs t) of
           None \<Rightarrow> None
         | Some c \<Rightarrow>
             if returns c then map_option (\<lambda>ts'. t\<lparr>joinable := False\<rparr> # ts') (join_threads returns w ts)
             else None)
      else map_option (\<lambda>ts'. t # ts') (join_threads returns w ts))"

definition stop ::
  "(io_context \<Rightarrow> bool) \<Rightarrow> world \<Rightarrow> io_context_pool \<Rightarrow> (world \<times> io_context_pool) option" where
  "stop returns w p =
     (let w' = stop_contexts (m_io_contexts p) w
      in map_option (\<lambda>ts. (w', p\<lparr>m_threads := ts\<rparr>)) (join_threads returns w' (m_threads p)))"

text \<open>
  \<open>getIoContext\<close>: the index is used first, then incremented (at the width of \<open>size_t\<close>) and
  reset when it equals the vector's size. Reading the vector out of range is \<open>None\<close>.
\<close>

definition getIoContext :: "io_context_pool \<Rightarrow> (ctx_ptr \<times> io_context_pool) option" where
  "getIoContext p =
     (if unat (m_next_io_context p) < length (m_io_contexts p) then
        let io_context = m_io_contexts p ! unat (m_next_io_context p);
            p1 = p\<lparr>m_next_io_context := m_next_io_context p + 1\<rparr>;
            p2 = (if m_next_io_context p1 = of_nat (length (m_io_contexts p1))
                  then p1\<lparr>m_next_io_context := 0\<rparr> else p1)
        in Some (io_context, p2)
      else None)"

text \<open>
  Destruction of the members: a \<open>std::thread\<close> destroyed while joinable ends the process.
\<close>

definition destroy_pool :: "io_context_pool \<Rightarrow> proc_outcome option" where
  "destroy_pool p = (if list_ex joinable (m_threads p) then Some Terminate else None)"

section \<open>What boost documents of \<open>run\<close>\<close>

text \<open>
  \<open>run()\<close> blocks while there is outstanding work and the context has not been stopped.
\<close>

definition run_contract :: "(io_context \<Rightarrow> bool) \<Rightarrow> bool" where
  "run_contract returns \<longleftrightarrow> (\<forall>c. returns c = (ctx_stopped c \<or> ctx_work c = 0))"

section \<open>Invariant\<close>

definition pool_inv :: "io_context_pool \<Rightarrow> bool" where
  "pool_inv p \<longleftrightarrow> m_io_contexts p \<noteq> [] \<and> distinct (m_io_contexts p)
     \<and> length (m_io_contexts p) < 2 ^ 64 \<and> m_work p = m_io_contexts p
     \<and> unat (m_next_io_context p) < length (m_io_contexts p)"

text \<open>The pool's contexts live on the heap, and every one has tracked work.\<close>

definition pool_on_heap :: "world \<Rightarrow> io_context_pool \<Rightarrow> bool" where
  "pool_on_heap w p \<longleftrightarrow>
     (\<forall>c\<in>set (m_io_contexts p). \<exists>x. ctxs w c = Some x \<and> 0 < ctx_work x)"

section \<open>The constructor\<close>

text \<open>What the loop has built when it stops: contexts at consecutive fresh addresses.\<close>

lemma ctor_loop_stop: "\<not> i < n \<Longrightarrow> ctor_loop i n w p = (w, p)"
  by (simp add: ctor_loop.simps)

lemma ctor_loop_step:
  "i < n \<Longrightarrow> ctor_loop i n w p =
     ctor_loop (i + 1) n
       (w\<lparr>ctxs := (ctxs w)(next_addr w \<mapsto> \<lparr>ctx_stopped = False, ctx_work = 1\<rparr>),
          next_addr := Suc (next_addr w)\<rparr>)
       (p\<lparr>m_io_contexts := m_io_contexts p @ [next_addr w], m_work := m_work p @ [next_addr w]\<rparr>)"
  by (subst ctor_loop.simps, cases w, cases p)
    (simp add: make_shared_context_def require_tracked_def Let_def)

lemma ctor_loop_result:
  "ctor_loop i n w p = (w', p') \<Longrightarrow> unat n - unat i = k \<Longrightarrow>
     m_io_contexts p' = m_io_contexts p @ [next_addr w..<next_addr w + k]
   \<and> m_work p' = m_work p @ [next_addr w..<next_addr w + k]
   \<and> m_next_io_context p' = m_next_io_context p \<and> m_threads p' = m_threads p
   \<and> next_addr w' = next_addr w + k
   \<and> (\<forall>c. ctxs w' c =
        (if next_addr w \<le> c \<and> c < next_addr w + k
         then Some \<lparr>ctx_stopped = False, ctx_work = 1\<rparr> else ctxs w c))"
proof (induction k arbitrary: i w p)
  case 0
  then have "\<not> i < n" by (simp add: word_less_nat_alt)
  with "0.prems" show ?case by (auto simp: ctor_loop_stop)
next
  case (Suc k)
  then have lt: "i < n" by (simp add: word_less_nat_alt)
  then have "unat n - unat (i + 1) = k"
    using Suc.prems(2) by (simp add: unat_inc_below)
  from Suc.IH [OF Suc.prems(1) [unfolded ctor_loop_step [OF lt]] this] show ?case
    by (auto simp: upt_conv_Cons)
qed

text \<open>The pool and heap a successful construction yields.\<close>

lemma IoContextPool_result:
  assumes "n \<noteq> 0"
  shows "\<exists>w' p. IoContextPool n w = Inr (w', p)
     \<and> m_io_contexts p = [next_addr w..<next_addr w + unat n]
     \<and> m_work p = m_io_contexts p \<and> m_next_io_context p = 0 \<and> m_threads p = []
     \<and> (\<forall>c. ctxs w' c =
          (if c \<in> set (m_io_contexts p) then Some \<lparr>ctx_stopped = False, ctx_work = 1\<rparr>
           else ctxs w c))"
proof -
  let ?p0 = "\<lparr>m_io_contexts = [], m_work = [], m_next_io_context = 0, m_threads = []\<rparr>"
  obtain w' p where loop: "ctor_loop 0 n w ?p0 = (w', p)" by fastforce
  with assms have "IoContextPool n w = Inr (w', p)" by (simp add: IoContextPool_def)
  with ctor_loop_result [OF loop] show ?thesis by (auto simp: Let_def)
qed

lemma IoContextPool_inv:
  assumes "IoContextPool n w = Inr (w', p)"
  shows "pool_inv p" and "pool_on_heap w' p" and "length (m_io_contexts p) = unat n"
    and "m_threads p = []" and "m_next_io_context p = 0"
proof -
  have n: "n \<noteq> 0" using assms by (auto simp: IoContextPool_def)
  then have pos: "0 < unat n" by (simp add: unat_gt_0)
  have lt: "unat n < 2 ^ 64" using unsigned_less [of n] by simp
  note result = IoContextPool_result [OF n, of w]
  then show "pool_inv p" "pool_on_heap w' p" "length (m_io_contexts p) = unat n"
    "m_threads p = []" "m_next_io_context p = 0"
    using assms pos lt by (auto simp: pool_inv_def pool_on_heap_def)
qed

section \<open>Handing out contexts\<close>

lemma getIoContext_result:
  assumes "pool_inv p"
  shows "getIoContext p =
     Some (m_io_contexts p ! unat (m_next_io_context p),
           p\<lparr>m_next_io_context :=
              (if Suc (unat (m_next_io_context p)) = length (m_io_contexts p) then 0
               else m_next_io_context p + 1)\<rparr>)"
proof -
  let ?n = "m_next_io_context p" and ?L = "length (m_io_contexts p)"
  have lt: "unat ?n < ?L" "?L < 2 ^ 64" using assms by (auto simp: pool_inv_def)
  have inc: "unat (?n + 1) = Suc (unat ?n)"
    using lt by (simp add: unat_word_ariths)
  have "?n + 1 = of_nat ?L \<longleftrightarrow> Suc (unat ?n) = ?L"
    using lt by (simp add: word_unat_eq_iff inc unat_of_nat take_bit_nat_eq_self)
  then show ?thesis
    using lt by (simp add: getIoContext_def Let_def)
qed

lemma getIoContext_preserves:
  assumes "pool_inv p" and "getIoContext p = Some (c, p')"
  shows "pool_inv p'" and "m_io_contexts p' = m_io_contexts p" and "m_threads p' = m_threads p"
    and "c \<in> set (m_io_contexts p)"
    and "unat (m_next_io_context p') mod length (m_io_contexts p) =
         Suc (unat (m_next_io_context p)) mod length (m_io_contexts p)"
proof -
  let ?n = "m_next_io_context p" and ?L = "length (m_io_contexts p)"
  have lt: "unat ?n < ?L" "?L < 2 ^ 64" using assms(1) by (auto simp: pool_inv_def)
  then have inc: "Suc (unat ?n) \<noteq> ?L \<Longrightarrow> unat (?n + 1) = Suc (unat ?n) \<and> Suc (unat ?n) < ?L"
    by (simp add: unat_word_ariths)
  show "pool_inv p'" "m_io_contexts p' = m_io_contexts p" "m_threads p' = m_threads p"
    "c \<in> set (m_io_contexts p)"
    "unat (m_next_io_context p') mod ?L = Suc (unat ?n) mod ?L"
    using assms inc lt getIoContext_result [OF assms(1)]
    by (auto simp: pool_inv_def split: if_splits)
qed

text \<open>The pool keeps the round-robin contract: the selector is \<open>getIoContext\<close> itself.\<close>

interpretation pool_rr: round_robin m_io_contexts "\<lambda>p. unat (m_next_io_context p)" pool_inv getIoContext
proof unfold_locales
  fix p :: io_context_pool
  assume p: "pool_inv p"
  then show "m_io_contexts p \<noteq> []" by (simp add: pool_inv_def)
  show "\<exists>p'. getIoContext p = Some (m_io_contexts p !
      (unat (m_next_io_context p) mod length (m_io_contexts p)), p')"
    using p by (simp add: getIoContext_result [OF p] pool_inv_def)
  fix c p'
  assume "getIoContext p = Some (c, p')"
  then show "pool_inv p'" "m_io_contexts p' = m_io_contexts p"
    "unat (m_next_io_context p') mod length (m_io_contexts p) =
     Suc (unat (m_next_io_context p)) mod length (m_io_contexts p)"
    by (rule getIoContext_preserves [OF p])+
qed

text \<open>A heap with no context, for closed instances.\<close>

definition empty_world :: world where
  "empty_world = \<lparr>ctxs = Map.empty, next_addr = 0\<rparr>"

text \<open>
  A pool constructed with a non-zero size hands out its contexts in turn: the \<open>k\<close>-th of
  \<open>n\<close> calls of \<open>getIoContext\<close> returns context number \<open>k mod pool_size\<close>, no call reads
  the vector out of range, and the vector is left as it was.
\<close>

lemma getIoContext_round_robin:
  assumes "IoContextPool pool_size w = Inr (w', p)"
  shows "\<exists>p'. calls getIoContext n p =
           Some (map (\<lambda>k. m_io_contexts p ! (k mod unat pool_size)) [0..<n], p')
         \<and> m_io_contexts p' = m_io_contexts p"
  using pool_rr.calls_returns [of p n] IoContextPool_inv [OF assms] by auto

text \<open>
  The load is balanced: after \<open>n\<close> calls on a newly constructed pool every context has been
  handed out \<open>n div pool_size\<close> times or once more.
\<close>

lemma getIoContext_balanced:
  assumes "IoContextPool pool_size w = Inr (w', p)" and "c \<in> set (m_io_contexts p)"
    and "calls getIoContext n p = Some (cs, p')"
  shows "count_list cs c \<in> {n div unat pool_size, Suc (n div unat pool_size)}"
  using pool_rr.balanced [OF IoContextPool_inv(1) [OF assms(1)] _ assms(2,3)]
    IoContextPool_inv [OF assms(1)]
  by (auto simp: pool_inv_def)

text \<open>
  C11. The pool refines a rotating queue: seen through the abstraction that rotates its vector to
  the next context, any number of calls on a newly built pool does and returns what the queue of
  its contexts does, whose head goes to its end.
\<close>

theorem getIoContext_refines_queue:
  assumes "IoContextPool pool_size w = Inr (w', p)"
  shows "map_option (map_prod id (\<lambda>p. rotate (unat (m_next_io_context p)) (m_io_contexts p))) (calls getIoContext n p)
     = calls rotating_next n (m_io_contexts p)"
  using pool_rr.calls_refine [OF IoContextPool_inv(1) [OF assms], of n] IoContextPool_inv(5) [OF assms] by simp

theorem getIoContext_refines_queue_witness:
  "\<exists>w' p q. IoContextPool 3 empty_world = Inr (w', p)
     \<and> map_option (map_prod id q) (calls getIoContext 4 p) = Some ([0, 1, 2, 0], [1, 2, 0 :: ctx_ptr])"
proof -
  obtain w' p where p: "IoContextPool 3 empty_world = Inr (w', p)" and cs: "m_io_contexts p = [0, 1, 2]"
    using IoContextPool_result [of 3 empty_world] by (auto simp: empty_world_def upt_rec)
  have "calls rotating_next 4 [0, 1, 2] = Some ([0, 1, 2, 0], [1, 2, 0 :: ctx_ptr])"
    by (simp add: eval_nat_numeral rotating_next_def)
  then have "map_option (map_prod id (\<lambda>p. rotate (unat (m_next_io_context p)) (m_io_contexts p))) (calls getIoContext 4 p)
      = Some ([0, 1, 2, 0], [1, 2, 0 :: ctx_ptr])"
    by (simp only: getIoContext_refines_queue [OF p, of 4] cs)
  with p show ?thesis by blast
qed

section \<open>Starting, stopping and destroying the pool\<close>

lemma start_loop_eq:
  "start_loop cs p =
     p\<lparr>m_threads := m_threads p @ map (\<lambda>c. \<lparr>runs = c, joinable = True\<rparr>) cs\<rparr>"
  by (induction cs arbitrary: p) simp_all

lemma start_threads [pool_simps]:
  "m_threads (start p) =
     m_threads p @ map (\<lambda>c. \<lparr>runs = c, joinable = True\<rparr>) (m_io_contexts p)"
  "m_io_contexts (start p) = m_io_contexts p"
  "m_next_io_context (start p) = m_next_io_context p"
  "m_work (start p) = m_work p"
  by (simp_all add: start_def start_loop_eq)

lemma stop_contexts_eq [pool_simps]:
  "ctxs (stop_contexts cs w) c =
     (if c \<in> set cs then map_option (\<lambda>x. x\<lparr>ctx_stopped := True\<rparr>) (ctxs w c) else ctxs w c)"
  by (induction cs arbitrary: w)
    (auto simp: stop_context_def option.map_comp comp_def split: option.splits)

lemma join_threads_stopped:
  assumes "run_contract returns"
    and "\<forall>t\<in>set ts. \<exists>c. ctxs w (runs t) = Some c \<and> ctx_stopped c"
  shows "join_threads returns w ts = Some (map (\<lambda>t. t\<lparr>joinable := False\<rparr>) ts)"
  using assms(2)
proof (induction ts)
  case Nil
  then show ?case by simp
next
  case (Cons t ts)
  have "\<not> joinable t \<Longrightarrow> t\<lparr>joinable := False\<rparr> = t" by (cases t) simp
  moreover have "ctx_stopped c \<Longrightarrow> returns c" for c
    using assms(1) by (simp add: run_contract_def)
  ultimately show ?case using Cons by auto
qed

lemma join_threads_working:
  assumes "run_contract returns" and "t \<in> set ts" and "joinable t"
    and "ctxs w (runs t) = Some c" and "\<not> ctx_stopped c" and "0 < ctx_work c"
  shows "join_threads returns w ts = None"
  using assms(2)
proof (induction ts)
  case Nil
  then show ?case by simp
next
  case (Cons u us)
  with assms(1,3-6) show ?case
    by (cases "u = t") (auto simp: run_contract_def split: option.splits)
qed

lemma start_inv: "pool_inv (start p) = pool_inv p"
  by (simp add: pool_inv_def pool_simps)

text \<open>No number of calls of \<open>getIoContext\<close> touches the threads or the vector.\<close>

lemma calls_frame:
  assumes "pool_inv p" and "calls getIoContext n p = Some (cs, p')"
  shows "m_threads p' = m_threads p \<and> m_io_contexts p' = m_io_contexts p \<and> pool_inv p'"
proof (rule calls_invariant [OF _ _ assms(2)])
  fix q c q'
  assume "m_threads q = m_threads p \<and> m_io_contexts q = m_io_contexts p \<and> pool_inv q"
    and "getIoContext q = Some (c, q')"
  then show "m_threads q' = m_threads p \<and> m_io_contexts q' = m_io_contexts p \<and> pool_inv q'"
    by (metis getIoContext_preserves(1-3))
qed (simp add: assms(1))

lemma pool_stops:
  assumes "run_contract returns" and "IoContextPool pool_size w = Inr (w', p)"
    and "calls getIoContext n (start p) = Some (cs, p1)"
  shows "\<exists>w2 p2. stop returns w' p1 = Some (w2, p2)
     \<and> (\<forall>c\<in>set (m_io_contexts p2). \<exists>x. ctxs w2 c = Some x \<and> ctx_stopped x)
     \<and> length (m_threads p2) = unat pool_size \<and> destroy_pool p2 = None"
proof -
  note new = IoContextPool_inv [OF assms(2)]
  have p1: "m_io_contexts p1 = m_io_contexts p"
    "m_threads p1 = map (\<lambda>c. \<lparr>runs = c, joinable = True\<rparr>) (m_io_contexts p)"
    using calls_frame [OF _ assms(3)] new(1,4) by (auto simp: start_inv pool_simps)
  let ?w2 = "stop_contexts (m_io_contexts p) w'"
  have stopped: "\<forall>c\<in>set (m_io_contexts p). \<exists>x. ctxs ?w2 c = Some x \<and> ctx_stopped x"
    using new(2) by (auto simp: pool_on_heap_def pool_simps)
  then have "join_threads returns ?w2 (m_threads p1) =
      Some (map (\<lambda>t. t\<lparr>joinable := False\<rparr>) (m_threads p1))"
    by (intro join_threads_stopped [OF assms(1)]) (auto simp: p1)
  with stopped new(3) show ?thesis
    by (simp add: stop_def p1 destroy_pool_def list_ex_iff)
qed

text \<open>
  C12. Shutdown: for a pool that was constructed and started (any number of calls of
  \<open>getIoContext\<close> in between), \<open>stop\<close> returns. It leaves every context of the pool stopped
  and no thread joinable, so the destruction of the pool does not end the process.
\<close>

theorem stop_returns:
  assumes "run_contract returns" and "IoContextPool pool_size w = Inr (w', p)"
    and "calls getIoContext n (start p) = Some (cs, p1)"
  shows "\<exists>w2 p2. stop returns w' p1 = Some (w2, p2)
     \<and> (\<forall>c\<in>set (m_io_contexts p2). \<exists>x. ctxs w2 c = Some x \<and> ctx_stopped x)
     \<and> length (m_threads p2) = unat pool_size \<and> destroy_pool p2 = None"
  using pool_stops [OF assms] .

theorem stop_returns_witness:
  "\<exists>w' p cs p1 w2 p2. IoContextPool 3 empty_world = Inr (w', p)
     \<and> calls getIoContext 2 (start p) = Some (cs, p1)
     \<and> stop (\<lambda>c. ctx_stopped c \<or> ctx_work c = 0) w' p1 = Some (w2, p2)
     \<and> length (m_threads p2) = 3 \<and> destroy_pool p2 = None"
proof -
  obtain w' p where p: "IoContextPool 3 empty_world = Inr (w', p)"
    using IoContextPool_result [of 3 empty_world] by auto
  then have "pool_inv (start p)" by (simp add: start_inv IoContextPool_inv)
  then obtain xs p1 where xs: "calls getIoContext 2 (start p) = Some (xs, p1)"
    using pool_rr.calls_total by blast
  have "run_contract (\<lambda>c. ctx_stopped c \<or> ctx_work c = 0)"
    by (simp add: run_contract_def)
  from stop_returns [OF this p xs] p xs show ?thesis by auto
qed

text \<open>
  The order in \<open>stop\<close> matters: on a started pool whose contexts have not been stopped,
  joining the threads blocks for ever (each context still has the work its executor tracks), and
  destroying the pool without \<open>stop\<close> ends the process.
\<close>

lemma unstopped_pool_hangs:
  assumes "run_contract returns" and "IoContextPool pool_size w = Inr (w', p)"
  shows "join_threads returns w' (m_threads (start p)) = None
       \<and> destroy_pool (start p) = Some Terminate"
proof -
  note new = IoContextPool_inv [OF assms(2)]
  have "pool_size \<noteq> 0" using assms(2) by (auto simp: IoContextPool_def)
  from IoContextPool_result [OF this, of w] assms(2)
  have heap: "\<forall>c\<in>set (m_io_contexts p). ctxs w' c = Some \<lparr>ctx_stopped = False, ctx_work = 1\<rparr>"
    by auto
  obtain c cs where c: "m_io_contexts p = c # cs"
    using new(1) by (auto simp: pool_inv_def neq_Nil_conv)
  have "join_threads returns w' (m_threads (start p)) = None"
    by (rule join_threads_working [OF assms(1), where t = "\<lparr>runs = c, joinable = True\<rparr>"])
      (use heap c in \<open>auto simp: pool_simps\<close>)
  then show ?thesis by (simp add: destroy_pool_def pool_simps c)
qed

end
