(* ===== verification/Simulation.thy ===== *)
theory Simulation
  imports Main
begin

text \<open>
  Refinement between step relations, stated once: a concrete system keeps an invariant, and each
  of its steps is a step of the abstract system under an abstraction function or is invisible
  there. What follows (runs map to runs, reachable states to reachable states) is proved in the
  locales and used through their interpretations.
\<close>

section \<open>Forward simulation\<close>

locale forward_refinement =
  fixes cstep :: "'c \<Rightarrow> 'c \<Rightarrow> bool"
    and astep :: "'a \<Rightarrow> 'a \<Rightarrow> bool"
    and related :: "'c \<Rightarrow> 'a \<Rightarrow> bool"
  assumes simulates: "related c a \<Longrightarrow> cstep c c' \<Longrightarrow> \<exists>a'. astep\<^sup>*\<^sup>* a a' \<and> related c' a'"
begin

lemma simulates_run:
  assumes "cstep\<^sup>*\<^sup>* c c'" and "related c a"
  shows "\<exists>a'. astep\<^sup>*\<^sup>* a a' \<and> related c' a'"
  using assms
proof (induction rule: rtranclp_induct)
  case base
  then show ?case by blast
next
  case (step c1 c2)
  then obtain a1 where "astep\<^sup>*\<^sup>* a a1" "related c1 a1" by blast
  moreover obtain a2 where "astep\<^sup>*\<^sup>* a1 a2" "related c2 a2"
    using simulates \<open>related c1 a1\<close> step.hyps(2) by blast
  ultimately show ?case by (meson rtranclp_trans)
qed

text \<open>An abstract invariant holds of whatever is related.\<close>

lemma transfers_invariant:
  assumes "cstep\<^sup>*\<^sup>* c c'" and "related c a" and "I a" and "\<And>x y. I x \<Longrightarrow> astep x y \<Longrightarrow> I y"
  shows "\<exists>a'. related c' a' \<and> I a'"
proof -
  obtain a' where a': "astep\<^sup>*\<^sup>* a a'" "related c' a'" using simulates_run [OF assms(1,2)] by blast
  from a'(1) have "I a'" by (induction rule: rtranclp_induct) (auto intro: assms(3,4))
  with a'(2) show ?thesis by blast
qed

end

section \<open>Abstraction functions\<close>

locale abstraction =
  fixes cstep :: "'c \<Rightarrow> 'c \<Rightarrow> bool"
    and inv :: "'c \<Rightarrow> bool"
    and astep :: "'a \<Rightarrow> 'a \<Rightarrow> bool"
    and abs :: "'c \<Rightarrow> 'a"
  assumes inv_step: "inv c \<Longrightarrow> cstep c c' \<Longrightarrow> inv c'"
    and abs_step: "inv c \<Longrightarrow> cstep c c' \<Longrightarrow> abs c' = abs c \<or> astep (abs c) (abs c')"

sublocale abstraction \<subseteq> forward_refinement cstep astep "\<lambda>c a. inv c \<and> a = abs c"
proof
  fix c a c'
  assume "inv c \<and> a = abs c" and "cstep c c'"
  then show "\<exists>a'. astep\<^sup>*\<^sup>* a a' \<and> (inv c' \<and> a' = abs c')"
    using inv_step abs_step by (metis r_into_rtranclp rtranclp.rtrancl_refl)
qed

context abstraction
begin

lemma abs_run: "cstep\<^sup>*\<^sup>* c c' \<Longrightarrow> inv c \<Longrightarrow> astep\<^sup>*\<^sup>* (abs c) (abs c') \<and> inv c'"
  using simulates_run by blast

end

section \<open>Coming to rest\<close>

text \<open>
  A weight that every step lowers bounds the runs. Where, besides, every state that is not at rest
  has a step, a run can only end at rest, and rest can always be reached.
\<close>

locale weighted =
  fixes step :: "'s \<Rightarrow> 's \<Rightarrow> bool"
    and inv :: "'s \<Rightarrow> bool"
    and weight :: "'s \<Rightarrow> nat"
  assumes inv_kept: "inv s \<Longrightarrow> step s s' \<Longrightarrow> inv s'"
    and weight_less: "inv s \<Longrightarrow> step s s' \<Longrightarrow> weight s' < weight s"
begin

lemma inv_along: "step\<^sup>*\<^sup>* s s' \<Longrightarrow> inv s \<Longrightarrow> inv s'"
  by (induction rule: rtranclp_induct) (auto intro: inv_kept)

lemma run_bound: "(step ^^ n) s s' \<Longrightarrow> inv s \<Longrightarrow> n + weight s' \<le> weight s"
proof (induction n arbitrary: s')
  case (Suc n)
  then obtain s1 where s1: "(step ^^ n) s s1" "step s1 s'" by auto
  have "inv s1" using inv_along relpowp_imp_rtranclp [OF s1(1)] Suc.prems(2) by blast
  from weight_less [OF this s1(2)] Suc.IH [OF s1(1) Suc.prems(2)] show ?case by simp
qed simp

end

locale quiescing = weighted step inv weight
  for step :: "'s \<Rightarrow> 's \<Rightarrow> bool" and inv and weight +
  fixes rest :: "'s \<Rightarrow> bool"
  assumes goes_on: "inv s \<Longrightarrow> rest s \<or> (\<exists>s'. step s s')"
begin

lemma rest_reached: "inv s \<Longrightarrow> \<exists>s'. step\<^sup>*\<^sup>* s s' \<and> inv s' \<and> rest s'"
proof (induction "weight s" arbitrary: s rule: less_induct)
  case less
  show ?case
  proof (cases "rest s")
    case False
    then obtain s1 where "step s s1" using goes_on less.prems by blast
    with less weight_less inv_kept show ?thesis by (meson converse_rtranclp_into_rtranclp)
  qed (use less.prems in blast)
qed

end

end
