(* ===== verification/Http_Clients.thy ===== *)
theory Http_Clients
  imports Round_Robin Simulation
begin

text \<open>
  The HTTP client selector \<open>get_http_client\<close> of \<open>src/test_drogon.cpp\<close> (the same lambda
  stands in \<open>src/test.cpp\<close>): a vector with one client per hardware thread and a static
  \<open>uint32_t\<close> counter behind a static mutex. First the sequential call, which keeps the contract
  of \<open>Round_Robin\<close>; then the call cut into its steps, run by any number of threads in any
  interleaving, where the mutex is what keeps the counter in range.
  \<open>hardware_concurrency()\<close> is a parameter \<open>hc\<close>, constant during a run, and so is the
  event loop the \<open>i\<close>-th call of \<open>getNextLoop\<close> returns.
\<close>

section \<open>The clients and the selector\<close>

record 'l http_client =
  host_string :: string
  client_loop :: 'l

record 'l client_ring =
  http_clients :: "'l http_client list"
  ring_count :: u32

text \<open>
  \<open>for (uint32_t i = 0; i < hardware_concurrency(); i++) http_clients.emplace_back(...)\<close>; the
  loops come from \<open>getNextLoop\<close>, whose \<open>k\<close>-th result is \<open>next_loop k\<close>.
\<close>

function build_clients ::
  "(nat \<Rightarrow> 'l) \<Rightarrow> string \<Rightarrow> u32 \<Rightarrow> u32 \<Rightarrow> 'l http_client list \<Rightarrow> 'l http_client list" where
  "build_clients next_loop host hc i cs =
     (if i < hc then
        build_clients next_loop host hc (i + 1)
          (cs @ [\<lparr>host_string = host, client_loop = next_loop (unat i)\<rparr>])
      else cs)"
  by pat_completeness auto
termination
  by (relation "measure (\<lambda>(f, h, n, i, cs). unat n - unat i)")
    (auto simp: unat_inc_below word_less_nat_alt)

declare build_clients.simps [simp del]

definition new_ring :: "(nat \<Rightarrow> 'l) \<Rightarrow> string \<Rightarrow> u32 \<Rightarrow> 'l client_ring" where
  "new_ring next_loop host hc =
     \<lparr>http_clients = build_clients next_loop host hc 0 [], ring_count = 0\<rparr>"

text \<open>
  The two statements under the lock: the reset, then \<open>http_clients[count++]\<close>, which is
  \<open>None\<close> when the index is out of range.
\<close>

definition ring_check :: "u32 \<Rightarrow> 'l client_ring \<Rightarrow> 'l client_ring" where
  "ring_check hc r = (if ring_count r = hc then r\<lparr>ring_count := 0\<rparr> else r)"

definition ring_fetch :: "'l client_ring \<Rightarrow> ('l http_client \<times> 'l client_ring) option" where
  "ring_fetch r =
     (if unat (ring_count r) < length (http_clients r)
      then Some (http_clients r ! unat (ring_count r), r\<lparr>ring_count := ring_count r + 1\<rparr>)
      else None)"

definition get_http_client ::
  "u32 \<Rightarrow> 'l client_ring \<Rightarrow> ('l http_client \<times> 'l client_ring) option" where
  "get_http_client hc r = ring_fetch (ring_check hc r)"

section \<open>The sequential selector keeps the round-robin contract\<close>

definition ring_inv :: "u32 \<Rightarrow> 'l client_ring \<Rightarrow> bool" where
  "ring_inv hc r \<longleftrightarrow> hc \<noteq> 0 \<and> length (http_clients r) = unat hc \<and> ring_count r \<le> hc"

lemma build_clients_eq:
  "unat hc - unat i = k \<Longrightarrow> build_clients next_loop host hc i cs =
     cs @ map (\<lambda>j. \<lparr>host_string = host, client_loop = next_loop (unat i + j)\<rparr>) [0..<k]"
proof (induction k arbitrary: i cs)
  case 0
  then have "\<not> i < hc" by (simp add: word_less_nat_alt)
  then show ?case by (simp add: build_clients.simps)
next
  case (Suc k)
  then have lt: "i < hc" by (simp add: word_less_nat_alt)
  then have "unat hc - unat (i + 1) = k" and inc: "unat (i + 1) = Suc (unat i)"
    using Suc.prems by (simp_all add: unat_inc_below)
  from Suc.IH [OF this(1)] lt show ?case
    by (subst build_clients.simps) (simp add: inc upt_conv_Cons del: upt_Suc flip: map_Suc_upt)
qed

lemma new_ring_clients:
  "http_clients (new_ring next_loop host hc) =
     map (\<lambda>j. \<lparr>host_string = host, client_loop = next_loop j\<rparr>) [0..<unat hc]"
  by (simp add: new_ring_def build_clients_eq)

lemma new_ring_inv: "hc \<noteq> 0 \<Longrightarrow> ring_inv hc (new_ring next_loop host hc)"
  by (simp add: ring_inv_def new_ring_clients) (simp add: new_ring_def)

lemma ring_check_below:
  assumes "ring_inv hc r"
  shows "ring_count (ring_check hc r) < hc" and "ring_inv hc (ring_check hc r)"
    and "http_clients (ring_check hc r) = http_clients r"
    and "unat (ring_count (ring_check hc r)) = unat (ring_count r) mod unat hc"
proof -
  have "ring_count r \<noteq> hc \<Longrightarrow> ring_count r < hc"
    using assms by (auto simp: ring_inv_def intro: order_le_neq_trans)
  then have "ring_count r \<noteq> hc \<Longrightarrow> unat (ring_count r) < unat hc"
    by (simp add: word_less_nat_alt)
  then show "ring_count (ring_check hc r) < hc" "ring_inv hc (ring_check hc r)"
    "http_clients (ring_check hc r) = http_clients r"
    "unat (ring_count (ring_check hc r)) = unat (ring_count r) mod unat hc"
    using assms by (auto simp: ring_check_def ring_inv_def word_less_nat_alt unat_gt_0)
qed

lemma ring_fetch_result:
  assumes "ring_inv hc r" and "ring_count r < hc"
  shows "ring_fetch r = Some (http_clients r ! unat (ring_count r), r\<lparr>ring_count := ring_count r + 1\<rparr>)"
    and "ring_inv hc (r\<lparr>ring_count := ring_count r + 1\<rparr>)"
    and "unat (ring_count r + 1) = Suc (unat (ring_count r))"
  using assms by (simp_all add: ring_fetch_def ring_inv_def word_less_nat_alt unat_inc_below
      unat_inc_le [unfolded word_less_nat_alt])

lemma get_http_client_result:
  assumes "ring_inv hc r"
  shows "\<exists>r'. get_http_client hc r =
           Some (http_clients r ! (unat (ring_count r) mod unat hc), r')
         \<and> ring_inv hc r' \<and> http_clients r' = http_clients r
         \<and> unat (ring_count r') = Suc (unat (ring_count r) mod unat hc)"
  using ring_check_below [OF assms] ring_fetch_result [OF ring_check_below(2) [OF assms] ring_check_below(1) [OF assms]]
  by (auto simp: get_http_client_def)

interpretation http_rr: round_robin http_clients "\<lambda>r. unat (ring_count r)" "ring_inv hc" "get_http_client hc"
  for hc
proof unfold_locales
  fix r :: "'b client_ring"
  assume r: "ring_inv hc r"
  then have len: "length (http_clients r) = unat hc" by (simp add: ring_inv_def)
  show "http_clients r \<noteq> []" using r by (auto simp: ring_inv_def unat_eq_0)
  show "\<exists>r'. get_http_client hc r =
      Some (http_clients r ! (unat (ring_count r) mod length (http_clients r)), r')"
    using get_http_client_result [OF r] by (auto simp: len)
  fix c r'
  assume "get_http_client hc r = Some (c, r')"
  then show "ring_inv hc r'" "http_clients r' = http_clients r"
    "unat (ring_count r') mod length (http_clients r) =
     Suc (unat (ring_count r)) mod length (http_clients r)"
    using get_http_client_result [OF r] by (auto simp: len mod_Suc_eq)
qed


text \<open>
  With at least one hardware thread, the \<open>k\<close>-th of any sequence of calls returns the
  client bound to event loop number \<open>k mod hc\<close>: the counter, checked before the read, never
  leaves the vector and never wraps.
\<close>

lemma get_http_client_round_robin:
  assumes "hc \<noteq> 0"
  shows "\<exists>r'. calls (get_http_client hc) n (new_ring next_loop host hc) =
           Some (map (\<lambda>k. \<lparr>host_string = host, client_loop = next_loop (k mod unat hc)\<rparr>) [0..<n], r')"
proof -
  have "k mod unat hc < unat hc" for k using assms by (simp add: unat_gt_0)
  then show ?thesis
    using http_rr.calls_returns [OF new_ring_inv [OF assms, of next_loop host], of n]
    by (auto simp: new_ring_clients) (auto simp: new_ring_def)
qed

text \<open>
  The HTTP selector, which resets its counter before the read instead of after the increment,
  refines the same rotating queue, here of the clients in the order they were built.
\<close>

lemma get_http_client_refines_queue:
  assumes "hc \<noteq> 0"
  shows "map_option (map_prod id (\<lambda>r. rotate (unat (ring_count r)) (http_clients r)))
       (calls (get_http_client hc) n (new_ring next_loop host hc))
     = calls rotating_next n (map (\<lambda>j. \<lparr>host_string = host, client_loop = next_loop j\<rparr>) [0..<unat hc])"
  using http_rr.calls_refine [OF new_ring_inv [OF assms, of next_loop host], of n]
  by (simp add: new_ring_clients) (simp add: new_ring_def)

text \<open>
  \<open>hardware_concurrency()\<close> may return 0 when the number of threads cannot be computed; then
  the vector is empty and the very first call reads element 0 of it, out of range.
\<close>

lemma get_http_client_no_threads:
  "get_http_client 0 (new_ring next_loop host 0) = None"
  by (simp add: get_http_client_def ring_check_def ring_fetch_def new_ring_clients)

section \<open>Any number of threads, any interleaving\<close>

text \<open>
  One thread's call is four steps: take the mutex, the check, the fetch, release the mutex (the
  \<open>lock_guard\<close> goes out of scope). Steps of different threads interleave freely; a thread can
  take the mutex only when nobody holds it. \<open>returned\<close> lists what the calls have returned, in
  the order of their fetches.
\<close>

datatype ring_pc = Outside | Locked | Checked | Fetched

record 'l ring_sys =
  ring :: "'l client_ring"
  tx :: "nat option"
  pcs :: "nat \<Rightarrow> ring_pc"
  returned :: "'l http_client list"

inductive ring_step :: "u32 \<Rightarrow> 'l ring_sys \<Rightarrow> 'l ring_sys \<Rightarrow> bool" for hc where
  lock: "pcs s t = Outside \<Longrightarrow> tx s = None \<Longrightarrow>
    ring_step hc s (s\<lparr>tx := Some t, pcs := (pcs s)(t := Locked)\<rparr>)"
| check: "pcs s t = Locked \<Longrightarrow>
    ring_step hc s (s\<lparr>ring := ring_check hc (ring s), pcs := (pcs s)(t := Checked)\<rparr>)"
| fetch: "pcs s t = Checked \<Longrightarrow> ring_fetch (ring s) = Some (c, r') \<Longrightarrow>
    ring_step hc s (s\<lparr>ring := r', returned := returned s @ [c], pcs := (pcs s)(t := Fetched)\<rparr>)"
| unlock: "pcs s t = Fetched \<Longrightarrow>
    ring_step hc s (s\<lparr>tx := None, pcs := (pcs s)(t := Outside)\<rparr>)"

inductive ring_reachable :: "u32 \<Rightarrow> 'l client_ring \<Rightarrow> 'l ring_sys \<Rightarrow> bool" for hc r0 where
  init: "ring_reachable hc r0 \<lparr>ring = r0, tx = None, pcs = (\<lambda>_. Outside), returned = []\<rparr>"
| step: "ring_reachable hc r0 s \<Longrightarrow> ring_step hc s s' \<Longrightarrow> ring_reachable hc r0 s'"

text \<open>A thread is about to index the vector out of range.\<close>

definition out_of_range :: "'l ring_sys \<Rightarrow> bool" where
  "out_of_range s \<longleftrightarrow> (\<exists>t. pcs s t = Checked \<and> ring_fetch (ring s) = None)"

text \<open>
  The invariant: a thread is inside the critical section exactly when it holds the mutex; the
  counter is in step with the number of results; and after the check it is a valid index.
\<close>

definition ring_sys_inv :: "u32 \<Rightarrow> 'l client_ring \<Rightarrow> 'l ring_sys \<Rightarrow> bool" where
  "ring_sys_inv hc r0 s \<longleftrightarrow>
     ring_inv hc (ring s) \<and> http_clients (ring s) = http_clients r0
     \<and> (\<forall>t. (pcs s t \<noteq> Outside) = (tx s = Some t))
     \<and> (\<forall>t. pcs s t = Checked \<longrightarrow> ring_count (ring s) < hc)
     \<and> unat (ring_count (ring s)) mod unat hc = length (returned s) mod unat hc
     \<and> (\<forall>k<length (returned s). returned s ! k = http_clients r0 ! (k mod unat hc))"

lemma ring_fetch_inv:
  assumes fetch: "pcs s t = Checked" "ring_fetch (ring s) = Some (c, r')" "ring_sys_inv hc r0 s"
  shows "ring_sys_inv hc r0 (s\<lparr>ring := r', returned := returned s @ [c], pcs := (pcs s)(t := Fetched)\<rparr>)"
proof -
  have r: "ring_inv hc (ring s)" "ring_count (ring s) < hc" using fetch(1,3) by (auto simp: ring_sys_inv_def)
  have below: "unat (ring_count (ring s)) mod unat hc = unat (ring_count (ring s))"
    using r(2) by (simp add: word_less_nat_alt)
  note result = ring_fetch_result [OF r]
  then have r': "r' = (ring s)\<lparr>ring_count := ring_count (ring s) + 1\<rparr>"
    and c: "c = http_clients r0 ! (length (returned s) mod unat hc)"
    using fetch(2,3) below by (auto simp: ring_sys_inv_def)
  let ?s' = "s\<lparr>ring := r', returned := returned s @ [c], pcs := (pcs s)(t := Fetched)\<rparr>"
  have "unat (ring_count (ring s)) mod unat hc = length (returned s) mod unat hc"
    using fetch(3) by (simp add: ring_sys_inv_def)
  from arg_cong [OF this, of "\<lambda>x. Suc x mod unat hc"]
  have mods: "Suc (unat (ring_count (ring s))) mod unat hc = Suc (length (returned s)) mod unat hc"
    by (simp only: mod_Suc_eq)
  have alone: "\<forall>u. pcs s u \<noteq> Outside \<longrightarrow> u = t"
    using fetch(1,3) by (auto simp: ring_sys_inv_def)
  have "(pcs ?s' u \<noteq> Outside) = (tx ?s' = Some u)" for u
    using fetch(1,3) by (auto simp: ring_sys_inv_def)
  moreover have "pcs ?s' u \<noteq> Checked" for u
    using alone by auto
  moreover have "returned ?s' ! k = http_clients r0 ! (k mod unat hc)"
    if "k < length (returned ?s')" for k
    using that fetch(3) c by (auto simp: ring_sys_inv_def nth_append less_Suc_eq)
  moreover have "ring_inv hc (ring ?s')" and "http_clients (ring ?s') = http_clients r0"
    and "unat (ring_count (ring ?s')) mod unat hc = length (returned ?s') mod unat hc"
    using result mods fetch(3) by (simp_all add: r' ring_sys_inv_def)
  ultimately show ?thesis unfolding ring_sys_inv_def by blast
qed

lemma ring_step_inv:
  assumes "ring_step hc s s'" and "ring_sys_inv hc r0 s"
  shows "ring_sys_inv hc r0 s'"
  using assms
proof (induction rule: ring_step.induct)
  case (lock s t)
  then show ?case by (auto simp: ring_sys_inv_def)
next
  case (check s t)
  then have r: "ring_inv hc (ring s)" by (simp add: ring_sys_inv_def)
  from check ring_check_below [OF r] show ?case
    by (auto simp: ring_sys_inv_def)
next
  case (fetch s t c r')
  then show ?case by (rule ring_fetch_inv)
next
  case (unlock s t)
  then have "\<forall>u. (pcs s u \<noteq> Outside) = (tx s = Some u)" by (simp add: ring_sys_inv_def)
  moreover from this have "tx s = Some t" using unlock(1) by force
  ultimately have "\<forall>u. u \<noteq> t \<longrightarrow> pcs s u = Outside" by fastforce
  with unlock show ?case by (auto simp: ring_sys_inv_def)
qed

lemma ring_reachable_inv:
  assumes "ring_reachable hc r0 s" and "ring_inv hc r0" and "ring_count r0 = 0"
  shows "ring_sys_inv hc r0 s"
  using assms
proof (induction rule: ring_reachable.induct)
  case init
  then show ?case by (simp add: ring_sys_inv_def)
next
  case (step s s')
  then show ?case by (blast intro: ring_step_inv)
qed

text \<open>
  C10. Where \<open>hardware_concurrency()\<close> is not 0, so that there is a client: however the calls of any
  number of threads interleave, no thread indexes the vector out of range, no two threads are in the
  critical section together, and the results, in the order of the fetches, are the clients in turn.
  (Where it is 0 the first call reads out of range: \<open>get_http_client_no_threads\<close>.)
\<close>

theorem get_http_client_thread_safe:
  assumes "hc \<noteq> 0" and "ring_reachable hc (new_ring next_loop host hc) s"
  shows "\<not> out_of_range s
    \<and> (\<forall>t u. pcs s t \<noteq> Outside \<and> pcs s u \<noteq> Outside \<longrightarrow> t = u)
    \<and> returned s = map (\<lambda>k. http_clients (new_ring next_loop host hc) ! (k mod unat hc))
                      [0..<length (returned s)]"
proof -
  let ?r0 = "new_ring next_loop host hc"
  have inv: "ring_sys_inv hc ?r0 s"
    by (rule ring_reachable_inv [OF assms(2) new_ring_inv [OF assms(1)]]) (simp add: new_ring_def)
  have "\<not> out_of_range s"
    using inv ring_fetch_result(1) by (force simp: out_of_range_def ring_sys_inv_def)
  moreover have "\<forall>t u. pcs s t \<noteq> Outside \<and> pcs s u \<noteq> Outside \<longrightarrow> t = u"
    using inv by (auto simp: ring_sys_inv_def)
  moreover have "returned s = map (\<lambda>k. http_clients ?r0 ! (k mod unat hc)) [0..<length (returned s)]"
    using inv by (intro nth_equalityI) (simp_all add: ring_sys_inv_def)
  ultimately show ?thesis by blast
qed

text \<open>
  A closed run: thread 0 is inside its call (it holds the mutex and has done the check) while
  thread 1 waits.
\<close>

theorem get_http_client_thread_safe_witness:
  "\<exists>s. ring_reachable 2 (new_ring (\<lambda>i. i) ''h'' 2) s \<and> pcs s 0 = Checked \<and> \<not> out_of_range s"
proof -
  let ?s0 = "\<lparr>ring = new_ring (\<lambda>i. i) ''h'' 2, tx = None, pcs = (\<lambda>_. Outside), returned = []\<rparr>"
  let ?s1 = "?s0\<lparr>tx := Some 0, pcs := (pcs ?s0)(0 := Locked)\<rparr>"
  let ?s2 = "?s1\<lparr>ring := ring_check 2 (ring ?s1), pcs := (pcs ?s1)(0 := Checked)\<rparr>"
  have "ring_reachable 2 (new_ring (\<lambda>i. i) ''h'' 2) ?s1"
    by (rule ring_reachable.step [OF ring_reachable.init ring_step.lock]) simp_all
  then have r: "ring_reachable 2 (new_ring (\<lambda>i. i) ''h'' 2) ?s2"
    by (rule ring_reachable.step [OF _ ring_step.check]) simp
  from get_http_client_thread_safe [OF _ this] have "\<not> out_of_range ?s2" by simp
  with r show ?thesis by (intro exI [of _ ?s2]) simp
qed

section \<open>The threads together are the rotating queue\<close>

text \<open>A queue of clients and what it has handed out; one step hands out the next.\<close>

inductive handing_out :: "'c list \<times> 'c list \<Rightarrow> 'c list \<times> 'c list \<Rightarrow> bool" where
  hand_out: "rotating_next q = Some (x, q') \<Longrightarrow> handing_out (q, out) (q', out @ [x])"

definition abs_ring :: "'l client_ring \<Rightarrow> 'l ring_sys \<Rightarrow> 'l http_client list \<times> 'l http_client list" where
  "abs_ring r0 s = (rotate (length (returned s)) (http_clients r0), returned s)"

text \<open>Only the fetch is visible: it is where a call takes effect.\<close>

lemma ring_step_refines:
  assumes "ring_sys_inv hc r0 s" and "ring_step hc s s'"
  shows "abs_ring r0 s' = abs_ring r0 s \<or> handing_out (abs_ring r0 s) (abs_ring r0 s')"
  using assms(2)
proof cases
  case (fetch t c r')
  have inv': "ring_sys_inv hc r0 s'" by (rule ring_step_inv [OF assms(2,1)])
  have "ring_inv hc (ring s)" "http_clients (ring s) = http_clients r0" using assms(1) by (simp_all add: ring_sys_inv_def)
  then have len: "length (http_clients r0) = unat hc" "http_clients r0 \<noteq> []" by (auto simp: ring_inv_def unat_eq_0)
  have "returned s' = returned s @ [c]" by (simp add: fetch(1))
  moreover have "\<forall>k<length (returned s'). returned s' ! k = http_clients r0 ! (k mod unat hc)"
    using inv' by (simp add: ring_sys_inv_def)
  ultimately have "c = http_clients r0 ! (length (returned s) mod unat hc)" by (metis length_append_singleton lessI nth_append_length)
  then have "c = http_clients r0 ! (length (returned s) mod length (http_clients r0))" by (simp add: len(1))
  then show ?thesis
    using handing_out.hand_out [OF rotating_next_rotate [OF len(2), of "length (returned s)"], of "returned s"]
    by (simp add: abs_ring_def fetch(1))
qed (simp_all add: abs_ring_def)

interpretation ring_threads: abstraction "ring_step hc" "ring_sys_inv hc r0" handing_out "abs_ring r0" for hc r0
  by unfold_locales (use ring_step_inv ring_step_refines in blast)+

text \<open>
  The selector is linearizable: whatever threads call it and however their steps interleave, the
  calls are, in the order of their fetches, a run of the rotating queue of the clients, and the
  system never comes to rest: some thread can always go on.
\<close>

lemma get_http_client_linearizable:
  assumes "hc \<noteq> 0" and "(ring_step hc)\<^sup>*\<^sup>* \<lparr>ring = new_ring next_loop host hc, tx = None, pcs = (\<lambda>_. Outside), returned = []\<rparr> s"
  shows "handing_out\<^sup>*\<^sup>* (http_clients (new_ring next_loop host hc), [])
       (rotate (length (returned s)) (http_clients (new_ring next_loop host hc)), returned s)
     \<and> (\<exists>s'. ring_step hc s s')"
proof -
  let ?r0 = "new_ring next_loop host hc"
  have "ring_sys_inv hc ?r0 \<lparr>ring = ?r0, tx = None, pcs = (\<lambda>_. Outside), returned = []\<rparr>"
    using new_ring_inv [OF assms(1)] by (simp add: ring_sys_inv_def) (simp add: new_ring_def)
  from ring_threads.abs_run [OF assms(2) this]
  have run: "handing_out\<^sup>*\<^sup>* (http_clients ?r0, []) (abs_ring ?r0 s)" and inv: "ring_sys_inv hc ?r0 s"
    by (simp_all add: abs_ring_def)
  have "\<exists>s'. ring_step hc s s'"
  proof (cases "tx s")
    case None
    then have "pcs s 0 = Outside" using inv by (auto simp: ring_sys_inv_def)
    then show ?thesis using ring_step.lock None by blast
  next
    case (Some t)
    then have "pcs s t \<noteq> Outside" using inv by (auto simp: ring_sys_inv_def)
    then show ?thesis
    proof (cases "pcs s t")
      case Checked
      then have "ring_inv hc (ring s)" "ring_count (ring s) < hc" using inv by (auto simp: ring_sys_inv_def)
      from ring_fetch_result(1) [OF this] show ?thesis using ring_step.fetch [OF Checked] by blast
    qed (use ring_step.check ring_step.unlock in blast)+
  qed
  with run show ?thesis by (simp add: abs_ring_def)
qed

end
