(* ===== verification/Asio_Util.thy ===== *)
theory Asio_Util
  imports Prelude
begin

text \<open>
  The coroutine awaiters of \<open>include/asio_util.hpp\<close>. Each class wraps one asynchronous asio
  operation: \<open>await_ready\<close> says no, \<open>await_suspend\<close> starts the operation with a callback that
  stores the completion in the awaiter and resumes the coroutine, and \<open>await_resume\<close> returns
  what was stored. The protocol (\<open>co_await\<close>) is one definition; the contract every awaiter
  keeps (suspend, then hand over exactly the completion) is a locale, interpreted on each class.
  What the operations deliver is decided by asio: a completion is an argument.
\<close>

section \<open>The await protocol\<close>

text \<open>
  The value of a \<open>co_await\<close> expression so far: a result, suspended on an operation that has been
  started, or left by an exception that starting the operation raised.
\<close>

datatype ('o, 'r) awaited = Ready 'r | Suspended_on 'o | Threw string

text \<open>
  \<open>co_await\<close> on an awaiter \<open>a\<close>: without a completion the coroutine stays suspended (unless the
  awaiter is ready at once); a completion \<open>c\<close> runs the callback on the awaiter, and the resumed
  coroutine takes the result.
\<close>

definition co_await ::
  "('a \<Rightarrow> bool) \<Rightarrow> ('a \<Rightarrow> string + 'o) \<Rightarrow> ('c \<Rightarrow> 'a \<Rightarrow> 'a) \<Rightarrow> ('a \<Rightarrow> 'r) \<Rightarrow> 'a \<Rightarrow> 'c option
    \<Rightarrow> ('o, 'r) awaited" where
  "co_await await_ready await_suspend callback await_resume a c =
     (if await_ready a then Ready (await_resume a)
      else case await_suspend a of
             Inl e \<Rightarrow> Threw e
           | Inr op \<Rightarrow> (case c of None \<Rightarrow> Suspended_on op
                         | Some r \<Rightarrow> Ready (await_resume (callback r a))))"

section \<open>The contract of an awaiter\<close>

locale awaiter =
  fixes await_ready :: "'a \<Rightarrow> bool"
    and await_suspend :: "'a \<Rightarrow> string + 'o"
    and callback :: "'c \<Rightarrow> 'a \<Rightarrow> 'a"
    and await_resume :: "'a \<Rightarrow> 'r"
    and delivered :: "'c \<Rightarrow> 'r"
  assumes never_ready: "\<not> await_ready a"
    and hands_over: "await_resume (callback c a) = delivered c"
begin

lemma suspends:
  "await_suspend a = Inr op \<Longrightarrow>
   co_await await_ready await_suspend callback await_resume a None = Suspended_on op"
  by (simp add: co_await_def never_ready)

lemma delivers:
  "await_suspend a = Inr op \<Longrightarrow>
   co_await await_ready await_suspend callback await_resume a (Some c) = Ready (delivered c)"
  by (simp add: co_await_def never_ready hands_over)

text \<open>A result is only ever the hand-over of a completion: nothing is invented.\<close>

lemma ready_only_completed:
  "co_await await_ready await_suspend callback await_resume a c = Ready r \<Longrightarrow>
   \<exists>x. c = Some x \<and> r = delivered x"
  by (auto simp: co_await_def never_ready hands_over split: sum.splits option.splits)

lemma throws_at_start:
  "co_await await_ready await_suspend callback await_resume a c = Threw e \<longleftrightarrow> await_suspend a = Inl e"
  by (auto simp: co_await_def never_ready split: sum.splits option.splits)

end

section \<open>The operations asio is asked for\<close>

datatype asio_op =
    Op_accept
  | Op_read_some nat
  | Op_read nat
  | Op_read_until string
  | Op_write bytes
  | Op_connect "string list"
  | Op_wait

section \<open>\<open>Executor\<close>\<close>

text \<open>
  The folly executor over a context: \<open>add\<close> posts the function to the context it refers to. The
  functions posted so far, each with its context, are the state.
\<close>

record 'c executor =
  m_io_context :: 'c

definition Executor :: "'c \<Rightarrow> 'c executor" where
  "Executor io_context = \<lparr>m_io_context = io_context\<rparr>"

definition executor_add :: "'c executor \<Rightarrow> 'f \<Rightarrow> ('c \<times> 'f) list \<Rightarrow> ('c \<times> 'f) list" where
  "executor_add ex func posted = posted @ [(m_io_context ex, func)]"

section \<open>\<open>AcceptorAwaiter\<close>\<close>

record acceptor_awaiter =
  acc_ec :: error_code

definition AcceptorAwaiter :: acceptor_awaiter where
  "AcceptorAwaiter = \<lparr>acc_ec = No_error\<rparr>"

definition acceptor_ready :: "acceptor_awaiter \<Rightarrow> bool" where
  "acceptor_ready a \<longleftrightarrow> False"

definition acceptor_suspend :: "acceptor_awaiter \<Rightarrow> string + asio_op" where
  "acceptor_suspend a = Inr Op_accept"

definition acceptor_callback :: "error_code \<Rightarrow> acceptor_awaiter \<Rightarrow> acceptor_awaiter" where
  "acceptor_callback ec a = a\<lparr>acc_ec := ec\<rparr>"

definition acceptor_resume :: "acceptor_awaiter \<Rightarrow> error_code" where
  "acceptor_resume a = acc_ec a"

definition async_accept :: "error_code option \<Rightarrow> (asio_op, error_code) awaited" where
  "async_accept c =
     co_await acceptor_ready acceptor_suspend acceptor_callback acceptor_resume AcceptorAwaiter c"

interpretation accept_aw: awaiter acceptor_ready acceptor_suspend acceptor_callback acceptor_resume "\<lambda>c. c"
  by unfold_locales (simp_all add: acceptor_ready_def acceptor_callback_def acceptor_resume_def)

section \<open>\<open>ReadSomeAwaiter\<close>\<close>

text \<open>The buffer is known by its capacity; a completion is an error code and a byte count.\<close>

record read_some_awaiter =
  rs_buffer :: nat
  rs_ec :: error_code
  rs_size :: nat

definition ReadSomeAwaiter :: "nat \<Rightarrow> read_some_awaiter" where
  "ReadSomeAwaiter buffer = \<lparr>rs_buffer = buffer, rs_ec = No_error, rs_size = 0\<rparr>"

definition read_some_ready :: "read_some_awaiter \<Rightarrow> bool" where
  "read_some_ready a \<longleftrightarrow> False"

definition read_some_resume :: "read_some_awaiter \<Rightarrow> error_code \<times> nat" where
  "read_some_resume a = (rs_ec a, rs_size a)"

definition read_some_suspend :: "read_some_awaiter \<Rightarrow> string + asio_op" where
  "read_some_suspend a = Inr (Op_read_some (rs_buffer a))"

definition read_some_callback :: "error_code \<times> nat \<Rightarrow> read_some_awaiter \<Rightarrow> read_some_awaiter" where
  "read_some_callback c a = (let (ec, size) = c in a\<lparr>rs_ec := ec, rs_size := size\<rparr>)"

definition async_read_some ::
  "nat \<Rightarrow> (error_code \<times> nat) option \<Rightarrow> (asio_op, error_code \<times> nat) awaited" where
  "async_read_some buffer c =
     co_await read_some_ready read_some_suspend read_some_callback read_some_resume
       (ReadSomeAwaiter buffer) c"

interpretation read_some_aw: awaiter read_some_ready read_some_suspend read_some_callback read_some_resume "\<lambda>c. c"
  by unfold_locales
    (auto simp: read_some_ready_def read_some_callback_def read_some_resume_def split: prod.splits)

section \<open>\<open>ReadAwaiter\<close>\<close>

record read_awaiter =
  rd_buffer :: nat
  rd_ec :: error_code
  rd_size :: nat

definition ReadAwaiter :: "nat \<Rightarrow> read_awaiter" where
  "ReadAwaiter buffer = \<lparr>rd_buffer = buffer, rd_ec = No_error, rd_size = 0\<rparr>"

definition read_ready :: "read_awaiter \<Rightarrow> bool" where
  "read_ready a \<longleftrightarrow> False"

definition read_resume :: "read_awaiter \<Rightarrow> error_code \<times> nat" where
  "read_resume a = (rd_ec a, rd_size a)"

definition read_suspend :: "read_awaiter \<Rightarrow> string + asio_op" where
  "read_suspend a = Inr (Op_read (rd_buffer a))"

definition read_callback :: "error_code \<times> nat \<Rightarrow> read_awaiter \<Rightarrow> read_awaiter" where
  "read_callback c a = (let (ec, size) = c in a\<lparr>rd_ec := ec, rd_size := size\<rparr>)"

definition async_read ::
  "nat \<Rightarrow> (error_code \<times> nat) option \<Rightarrow> (asio_op, error_code \<times> nat) awaited" where
  "async_read buffer c =
     co_await read_ready read_suspend read_callback read_resume (ReadAwaiter buffer) c"

interpretation read_aw: awaiter read_ready read_suspend read_callback read_resume "\<lambda>c. c"
  by unfold_locales (auto simp: read_ready_def read_callback_def read_resume_def split: prod.splits)

section \<open>\<open>ReadUntilAwaiter\<close>\<close>

record read_until_awaiter =
  ru_delim :: string
  ru_ec :: error_code
  ru_size :: nat

definition ReadUntilAwaiter :: "string \<Rightarrow> read_until_awaiter" where
  "ReadUntilAwaiter delim = \<lparr>ru_delim = delim, ru_ec = No_error, ru_size = 0\<rparr>"

definition read_until_ready :: "read_until_awaiter \<Rightarrow> bool" where
  "read_until_ready a \<longleftrightarrow> False"

definition read_until_resume :: "read_until_awaiter \<Rightarrow> error_code \<times> nat" where
  "read_until_resume a = (ru_ec a, ru_size a)"

definition read_until_suspend :: "read_until_awaiter \<Rightarrow> string + asio_op" where
  "read_until_suspend a = Inr (Op_read_until (ru_delim a))"

definition read_until_callback ::
  "error_code \<times> nat \<Rightarrow> read_until_awaiter \<Rightarrow> read_until_awaiter" where
  "read_until_callback c a = (let (ec, size) = c in a\<lparr>ru_ec := ec, ru_size := size\<rparr>)"

definition async_read_until ::
  "string \<Rightarrow> (error_code \<times> nat) option \<Rightarrow> (asio_op, error_code \<times> nat) awaited" where
  "async_read_until delim c =
     co_await read_until_ready read_until_suspend read_until_callback read_until_resume
       (ReadUntilAwaiter delim) c"

interpretation read_until_aw: awaiter read_until_ready read_until_suspend read_until_callback read_until_resume "\<lambda>c. c"
  by unfold_locales
    (auto simp: read_until_ready_def read_until_callback_def read_until_resume_def split: prod.splits)

section \<open>\<open>WriteAwaiter\<close>\<close>

record write_awaiter =
  wr_buffer :: bytes
  wr_ec :: error_code
  wr_size :: nat

definition WriteAwaiter :: "bytes \<Rightarrow> write_awaiter" where
  "WriteAwaiter buffer = \<lparr>wr_buffer = buffer, wr_ec = No_error, wr_size = 0\<rparr>"

definition write_ready :: "write_awaiter \<Rightarrow> bool" where
  "write_ready a \<longleftrightarrow> False"

definition write_resume :: "write_awaiter \<Rightarrow> error_code \<times> nat" where
  "write_resume a = (wr_ec a, wr_size a)"

definition write_suspend :: "write_awaiter \<Rightarrow> string + asio_op" where
  "write_suspend a = Inr (Op_write (wr_buffer a))"

definition write_callback :: "error_code \<times> nat \<Rightarrow> write_awaiter \<Rightarrow> write_awaiter" where
  "write_callback c a = (let (ec, size) = c in a\<lparr>wr_ec := ec, wr_size := size\<rparr>)"

definition async_write ::
  "bytes \<Rightarrow> (error_code \<times> nat) option \<Rightarrow> (asio_op, error_code \<times> nat) awaited" where
  "async_write buffer c =
     co_await write_ready write_suspend write_callback write_resume (WriteAwaiter buffer) c"

interpretation write_aw: awaiter write_ready write_suspend write_callback write_resume "\<lambda>c. c"
  by unfold_locales (auto simp: write_ready_def write_callback_def write_resume_def split: prod.splits)

section \<open>\<open>ConnectAwaiter\<close>\<close>

text \<open>
  \<open>await_suspend\<close> resolves the host synchronously, and that call throws when it fails; the
  resolver is the argument \<open>resolve\<close>. The endpoint a connection completes with is dropped.
\<close>

record connect_awaiter =
  cn_host :: string
  cn_port :: string
  cn_ec :: error_code

definition ConnectAwaiter :: "string \<Rightarrow> string \<Rightarrow> connect_awaiter" where
  "ConnectAwaiter host port = \<lparr>cn_host = host, cn_port = port, cn_ec = No_error\<rparr>"

definition connect_ready :: "connect_awaiter \<Rightarrow> bool" where
  "connect_ready a \<longleftrightarrow> False"

definition connect_suspend ::
  "(string \<Rightarrow> string \<Rightarrow> string + string list) \<Rightarrow> connect_awaiter \<Rightarrow> string + asio_op" where
  "connect_suspend resolve a =
     (case resolve (cn_host a) (cn_port a) of
        Inl e \<Rightarrow> Inl e
      | Inr endpoints \<Rightarrow> Inr (Op_connect endpoints))"

definition connect_callback :: "error_code \<times> string \<Rightarrow> connect_awaiter \<Rightarrow> connect_awaiter" where
  "connect_callback c a = a\<lparr>cn_ec := fst c\<rparr>"

definition connect_resume :: "connect_awaiter \<Rightarrow> error_code" where
  "connect_resume a = cn_ec a"

definition async_connect ::
  "(string \<Rightarrow> string \<Rightarrow> string + string list) \<Rightarrow> string \<Rightarrow> string \<Rightarrow> (error_code \<times> string) option
    \<Rightarrow> (asio_op, error_code) awaited" where
  "async_connect resolve host port c =
     co_await connect_ready (connect_suspend resolve) connect_callback connect_resume
       (ConnectAwaiter host port) c"

interpretation connect_aw: awaiter connect_ready "connect_suspend resolve" connect_callback connect_resume fst
  for resolve
  by unfold_locales (simp_all add: connect_ready_def connect_callback_def connect_resume_def)

section \<open>\<open>TimerAwaiter\<close>\<close>

record timer_awaiter =
  tm_ec :: error_code

definition TimerAwaiter :: timer_awaiter where
  "TimerAwaiter = \<lparr>tm_ec = No_error\<rparr>"

definition timer_ready :: "timer_awaiter \<Rightarrow> bool" where
  "timer_ready a \<longleftrightarrow> False"

definition timer_suspend :: "timer_awaiter \<Rightarrow> string + asio_op" where
  "timer_suspend a = Inr Op_wait"

definition timer_callback :: "error_code \<Rightarrow> timer_awaiter \<Rightarrow> timer_awaiter" where
  "timer_callback ec a = a\<lparr>tm_ec := ec\<rparr>"

definition timer_resume :: "timer_awaiter \<Rightarrow> error_code" where
  "timer_resume a = tm_ec a"

definition timeout :: "error_code option \<Rightarrow> (asio_op, error_code) awaited" where
  "timeout c = co_await timer_ready timer_suspend timer_callback timer_resume TimerAwaiter c"

interpretation timer_aw: awaiter timer_ready timer_suspend timer_callback timer_resume "\<lambda>c. c"
  by unfold_locales (simp_all add: timer_ready_def timer_callback_def timer_resume_def)

section \<open>The coroutines, before and after their completion\<close>

lemma async_accept_await [step_simps]:
  "async_accept None = Suspended_on Op_accept"
  "async_accept (Some ec) = Ready ec"
  by (simp_all add: async_accept_def acceptor_suspend_def accept_aw.suspends accept_aw.delivers)

lemma async_read_some_await [step_simps]:
  "async_read_some n None = Suspended_on (Op_read_some n)"
  "async_read_some n (Some r) = Ready r"
  by (simp_all add: async_read_some_def read_some_suspend_def ReadSomeAwaiter_def
      read_some_aw.suspends read_some_aw.delivers)

lemma async_read_await [step_simps]:
  "async_read n None = Suspended_on (Op_read n)"
  "async_read n (Some r) = Ready r"
  by (simp_all add: async_read_def read_suspend_def ReadAwaiter_def read_aw.suspends read_aw.delivers)

lemma async_read_until_await [step_simps]:
  "async_read_until d None = Suspended_on (Op_read_until d)"
  "async_read_until d (Some r) = Ready r"
  by (simp_all add: async_read_until_def read_until_suspend_def ReadUntilAwaiter_def
      read_until_aw.suspends read_until_aw.delivers)

lemma async_write_await [step_simps]:
  "async_write bs None = Suspended_on (Op_write bs)"
  "async_write bs (Some r) = Ready r"
  by (simp_all add: async_write_def write_suspend_def WriteAwaiter_def write_aw.suspends write_aw.delivers)

lemma timeout_await [step_simps]:
  "timeout None = Suspended_on Op_wait"
  "timeout (Some ec) = Ready ec"
  by (simp_all add: timeout_def timer_suspend_def timer_aw.suspends timer_aw.delivers)

lemma async_connect_await [step_simps]:
  "resolve h p = Inr eps \<Longrightarrow> async_connect resolve h p None = Suspended_on (Op_connect eps)"
  "resolve h p = Inr eps \<Longrightarrow> async_connect resolve h p (Some (ec, ep)) = Ready ec"
  "resolve h p = Inl e \<Longrightarrow> async_connect resolve h p c = Threw e"
  by (simp_all add: async_connect_def connect_suspend_def ConnectAwaiter_def
      connect_aw.suspends connect_aw.delivers connect_aw.throws_at_start)

end
