(* ===== verification/Tcp_Server.thy ===== *)
theory Tcp_Server
  imports Asio_Util Io_Context_Pool
begin

text \<open>
  \<open>src/test_tcp_server.cpp\<close>: the echo session of one connection, the accept loop, and \<open>main\<close>.
  A coroutine is a machine whose states are its \<open>co_await\<close> points; a step takes the completion of
  the pending operation, runs the code up to the next \<open>co_await\<close>, and lists what that code did.
  A completion is only ever delivered for the operation that is pending: an event that belongs to
  no pending operation has no callback and changes nothing.
\<close>

section \<open>\<open>TcpServer::session\<close>\<close>

definition max_length :: nat where
  "max_length = 1024"

datatype session_pc = S_Timer | S_Read | S_Write | S_Done

record session =
  session_pc :: session_pc
  session_data :: bytes

text \<open>
  Completions: the timer's error code; the error code of a read with the bytes it has put into
  the buffer; the error code and byte count of a write.
\<close>

datatype session_event =
    Timer_done error_code
  | Read_done error_code bytes
  | Write_done error_code nat

datatype session_action =
    Log_info string
  | Log_error error_code
  | Expires_after nat
  | Started asio_op
  | Shutdown_both
  | Close

text \<open>The beginning of a loop round: a zeroed buffer, and a read into it.\<close>

definition session_read :: "session \<Rightarrow> session \<times> session_action list" where
  "session_read s =
     (let data = replicate max_length (CHR 0x00) in
      (case async_read_some max_length None of
         Suspended_on op \<Rightarrow> (s\<lparr>session_pc := S_Read, session_data := data\<rparr>, [Started op])
       | _ \<Rightarrow> (s, [])))"

text \<open>What a read leaves in the buffer: the bytes delivered, then what was there before.\<close>

definition fill :: "bytes \<Rightarrow> bytes \<Rightarrow> bytes" where
  "fill delivered data = delivered @ drop (length delivered) data"

text \<open>From the call to the first \<open>co_await\<close>.\<close>

definition session_begin :: "session \<times> session_action list" where
  "session_begin =
     (let s = \<lparr>session_pc = S_Timer, session_data = []\<rparr> in
      (case timeout None of
         Suspended_on op \<Rightarrow> (s, [Log_info ''start test timeout'', Expires_after 2, Started op])
       | _ \<Rightarrow> (s, [])))"

fun session_step :: "session \<Rightarrow> session_event \<Rightarrow> session \<times> session_action list" where
  "session_step s (Timer_done ec) =
     (if session_pc s = S_Timer then
        (case timeout (Some ec) of
           Ready ec_ \<Rightarrow> (let (s', as) = session_read s in (s', Log_info ''end test timeout'' # as))
         | _ \<Rightarrow> (s, []))
      else (s, []))"
| "session_step s (Read_done ec delivered) =
     (if session_pc s = S_Read then
        (case async_read_some max_length (Some (ec, length delivered)) of
           Ready (error, len) \<Rightarrow>
             (if failed error then
                (s\<lparr>session_pc := S_Done\<rparr>, [Log_error error, Shutdown_both, Close])
              else
                (let data = fill delivered (session_data s) in
                 (case async_write (take len data) None of
                    Suspended_on op \<Rightarrow>
                      (s\<lparr>session_pc := S_Write, session_data := data\<rparr>, [Started op])
                  | _ \<Rightarrow> (s, []))))
         | _ \<Rightarrow> (s, []))
      else (s, []))"
| "session_step s (Write_done ec n) =
     (if session_pc s = S_Write then
        (case async_write [] (Some (ec, n)) of
           Ready discarded \<Rightarrow> session_read s
         | _ \<Rightarrow> (s, []))
      else (s, []))"

fun session_run :: "session \<Rightarrow> session_event list \<Rightarrow> session \<times> session_action list" where
  "session_run s [] = (s, [])"
| "session_run s (e # es) =
     (let (s1, as) = session_step s e; (s2, bs) = session_run s1 es in (s2, as @ bs))"

subsection \<open>Observations\<close>

fun written :: "session_action list \<Rightarrow> bytes" where
  "written [] = []"
| "written (Started (Op_write bs) # as) = bs @ written as"
| "written (_ # as) = written as"

text \<open>The bytes the pending reads have delivered without an error, along a run.\<close>

definition received_step :: "session \<Rightarrow> session_event \<Rightarrow> bytes" where
  "received_step s e =
     (case e of
        Read_done ec bs \<Rightarrow> (if session_pc s = S_Read \<and> \<not> failed ec then bs else [])
      | _ \<Rightarrow> [])"

fun received :: "session \<Rightarrow> session_event list \<Rightarrow> bytes" where
  "received s [] = []"
| "received s (e # es) = received_step s e @ received (fst (session_step s e)) es"

text \<open>
  asio never delivers more bytes than the pending read has asked for: \<open>n\<close> is the size that the last
  read among the actions asked for.
\<close>

primrec read_asked :: "nat \<Rightarrow> session_action list \<Rightarrow> nat" where
  "read_asked n [] = n"
| "read_asked n (a # as) = read_asked (case a of Started (Op_read_some k) \<Rightarrow> k | _ \<Rightarrow> n) as"

primrec deliveries_ok :: "nat \<Rightarrow> session \<Rightarrow> session_event list \<Rightarrow> bool" where
  "deliveries_ok n s [] \<longleftrightarrow> True"
| "deliveries_ok n s (e # es) \<longleftrightarrow>
     (case e of Read_done ec bs \<Rightarrow> session_pc s = S_Read \<longrightarrow> length bs \<le> n | _ \<Rightarrow> True)
     \<and> deliveries_ok (read_asked n (snd (session_step s e))) (fst (session_step s e)) es"

subsection \<open>One step\<close>

lemma written_append [simp]: "written (as @ bs) = written as @ written bs"
  by (induction as rule: written.induct) simp_all

lemma take_fill: "length bs = n \<Longrightarrow> take n (fill bs data) = bs"
  by (simp add: fill_def)

lemma session_read_eq [step_simps]:
  "session_read s =
     (s\<lparr>session_pc := S_Read, session_data := replicate max_length (CHR 0x00)\<rparr>,
      [Started (Op_read_some max_length)])"
  by (simp add: session_read_def step_simps)

lemma session_begin_eq [step_simps]:
  "session_begin = (\<lparr>session_pc = S_Timer, session_data = []\<rparr>,
     [Log_info ''start test timeout'', Expires_after 2, Started Op_wait])"
  by (simp add: session_begin_def step_simps)

lemma session_step_eq [step_simps]:
  "session_pc s = S_Timer \<Longrightarrow> session_step s (Timer_done ec) =
     (s\<lparr>session_pc := S_Read, session_data := replicate max_length (CHR 0x00)\<rparr>,
      [Log_info ''end test timeout'', Started (Op_read_some max_length)])"
  "session_pc s = S_Read \<Longrightarrow> failed ec \<Longrightarrow> session_step s (Read_done ec bs) =
     (s\<lparr>session_pc := S_Done\<rparr>, [Log_error ec, Shutdown_both, Close])"
  "session_pc s = S_Read \<Longrightarrow> \<not> failed ec \<Longrightarrow> session_step s (Read_done ec bs) =
     (s\<lparr>session_pc := S_Write, session_data := fill bs (session_data s)\<rparr>, [Started (Op_write bs)])"
  "session_pc s = S_Write \<Longrightarrow> session_step s (Write_done ec n) =
     (s\<lparr>session_pc := S_Read, session_data := replicate max_length (CHR 0x00)\<rparr>,
      [Started (Op_read_some max_length)])"
  by (simp_all add: step_simps take_fill)

lemma written_step: "written (snd (session_step s e)) = received_step s e"
  by (cases e) (auto simp: received_step_def step_simps take_fill Let_def)

lemma written_run: "written (snd (session_run s es)) = received s es"
  by (induction es arbitrary: s) (simp_all add: case_prod_unfold Let_def written_step)

text \<open>
  Echo: whatever completions arrive, in whatever sizes, the bytes the session writes are
  exactly the bytes its reads have delivered, in order; nothing of the zeroed rest of the buffer
  or of an earlier round is sent, and a failed read adds nothing.
\<close>

lemma session_echo:
  "written (snd session_begin @ snd (session_run (fst session_begin) es)) =
   received (fst session_begin) es"
  by (simp add: written_run) (simp add: step_simps)

subsection \<open>The end of a session\<close>

text \<open>
  The shape of what has been done so far: closing actions are absent while the session lives; when
  it is done they stand once, at the end, after the error that caused them.
\<close>

definition open_actions :: "session_action list \<Rightarrow> bool" where
  "open_actions as \<longleftrightarrow> Shutdown_both \<notin> set as \<and> Close \<notin> set as"

lemma session_step_done: "session_pc s = S_Done \<Longrightarrow> session_step s e = (s, [])"
  by (cases e) simp_all

lemma session_run_done: "session_pc s = S_Done \<Longrightarrow> session_run s es = (s, [])"
  by (induction es) (simp_all add: session_step_done)

lemma session_step_closing:
  assumes "session_step s e = (s', as)" and "session_pc s \<noteq> S_Done"
  shows "if session_pc s' = S_Done
         then \<exists>ec. failed ec \<and> as = [Log_error ec, Shutdown_both, Close]
         else open_actions as"
  using assms
  by (cases e) (auto simp: step_simps open_actions_def Let_def split: if_splits)

lemma session_run_closing:
  assumes "session_run s es = (s', as)" and "session_pc s \<noteq> S_Done"
  shows "if session_pc s' = S_Done
         then \<exists>bs ec. failed ec \<and> open_actions bs \<and> as = bs @ [Log_error ec, Shutdown_both, Close]
         else open_actions as"
  using assms
proof (induction es arbitrary: s as)
  case Nil
  then show ?case by (simp add: open_actions_def)
next
  case (Cons e es)
  obtain s1 as1 where step: "session_step s e = (s1, as1)" by fastforce
  obtain s2 as2 where run: "session_run s1 es = (s2, as2)" by fastforce
  have eq: "s2 = s'" "as = as1 @ as2" using Cons.prems(1) step run by simp_all
  note first = session_step_closing [OF step Cons.prems(2)]
  show ?case
  proof (cases "session_pc s1 = S_Done")
    case True
    with run eq(1) have "s' = s1" "as2 = []" by (simp_all add: session_run_done)
    with first True show ?thesis
      by (auto simp: eq open_actions_def intro!: exI [of _ "[]"])
  next
    case False
    note rest = Cons.IH [OF run [unfolded eq(1)] False]
    have open1: "open_actions as1" using first False by simp
    show ?thesis
    proof (cases "session_pc s' = S_Done")
      case True
      with rest obtain bs ec where "failed ec" "open_actions bs"
        "as2 = bs @ [Log_error ec, Shutdown_both, Close]" by auto
      with open1 True show ?thesis
        by (auto simp: eq open_actions_def intro!: exI [of _ "as1 @ bs"])
    next
      case False
      with rest open1 show ?thesis by (auto simp: eq open_actions_def)
    qed
  qed
qed

text \<open>
  C25. Closing: in any run the socket is shut down and closed only after a failed read, exactly
  once, as the last thing the session does; before that neither has happened.
\<close>

theorem session_closes_once:
  "if session_pc (fst (session_run (fst session_begin) es)) = S_Done
   then \<exists>bs ec. failed ec \<and> open_actions bs
      \<and> snd (session_run (fst session_begin) es) = bs @ [Log_error ec, Shutdown_both, Close]
   else open_actions (snd (session_run (fst session_begin) es))"
  by (rule session_run_closing [OF prod.collapse [symmetric]]) (simp add: session_begin_eq)

subsection \<open>Bounds and progress\<close>

definition session_inv :: "session \<Rightarrow> bool" where
  "session_inv s \<longleftrightarrow> (session_pc s \<noteq> S_Timer \<longrightarrow> length (session_data s) = max_length)"

text \<open>While a read is pending it has asked for no more than the buffer holds.\<close>

lemma session_step_bounds:
  assumes "session_inv s" and "session_pc s = S_Read \<Longrightarrow> n \<le> max_length" and "deliveries_ok n s [e]"
  shows "session_inv (fst (session_step s e))"
    and "session_pc (fst (session_step s e)) = S_Read \<Longrightarrow> read_asked n (snd (session_step s e)) \<le> max_length"
    and "Started (Op_write bs) \<in> set (snd (session_step s e)) \<Longrightarrow> length bs \<le> max_length"
    and "Started (Op_read_some k) \<in> set (snd (session_step s e)) \<Longrightarrow> k \<le> max_length"
  using assms by (cases e; auto simp: session_inv_def step_simps fill_def take_fill Let_def split: if_splits)+

lemma session_run_bounds:
  assumes "session_inv s" and "session_pc s = S_Read \<Longrightarrow> n \<le> max_length" and "deliveries_ok n s es"
  shows "session_inv (fst (session_run s es))
     \<and> (\<forall>bs. Started (Op_write bs) \<in> set (snd (session_run s es)) \<longrightarrow> length bs \<le> max_length)
     \<and> (\<forall>k. Started (Op_read_some k) \<in> set (snd (session_run s es)) \<longrightarrow> k \<le> max_length)"
  using assms
proof (induction es arbitrary: s n)
  case (Cons e es)
  have "deliveries_ok n s [e]" using Cons.prems(3) by simp
  note one = session_step_bounds [OF Cons.prems(1,2) this]
  have "deliveries_ok (read_asked n (snd (session_step s e))) (fst (session_step s e)) es" using Cons.prems(3) by simp
  note rest = Cons.IH [OF one(1,2) this]
  show ?case using one(3,4) rest by (auto simp: case_prod_unfold Let_def)
qed simp

text \<open>
  C33. Memory: as long as no read delivers more than it was asked for, the buffer of the session, once
  there, keeps its 1024 bytes, no read asks for more than it holds and no write is longer than it. A
  read with a larger size could deliver past the end of the array.
\<close>

theorem session_buffer_bounds:
  assumes "deliveries_ok (read_asked 0 (snd session_begin)) (fst session_begin) es"
  shows "(session_pc (fst (session_run (fst session_begin) es)) \<noteq> S_Timer \<longrightarrow>
           length (session_data (fst (session_run (fst session_begin) es))) = 1024)
     \<and> (\<forall>bs. Started (Op_write bs) \<in> set (snd (session_run (fst session_begin) es)) \<longrightarrow> length bs \<le> 1024)
     \<and> (\<forall>k. Started (Op_read_some k) \<in> set (snd (session_run (fst session_begin) es)) \<longrightarrow> k \<le> 1024)"
  using session_run_bounds [OF _ _ assms] by (simp add: max_length_def session_inv_def step_simps)

theorem session_buffer_bounds_witness:
  "length (session_data (fst (session_run (fst session_begin)
     [Timer_done No_error, Read_done No_error ''hello'', Write_done No_error 5]))) = 1024"
proof -
  let ?es = "[Timer_done No_error, Read_done No_error ''hello'', Write_done No_error 5]"
  have "deliveries_ok (read_asked 0 (snd session_begin)) (fst session_begin) ?es" by (simp add: step_simps max_length_def)
  moreover have "session_pc (fst (session_run (fst session_begin) ?es)) \<noteq> S_Timer" by (simp add: step_simps Let_def)
  ultimately show ?thesis using session_buffer_bounds by blast
qed


section \<open>\<open>TcpServer::start\<close>\<close>

text \<open>
  The server holds the pool and a map from contexts to executors. The accept loop never leaves
  its loop by itself: each round takes the next context, makes sure it has an executor, accepts a
  connection on a socket of that context and, unless that failed, starts a session on the
  context's executor.
\<close>

record tcp_server =
  m_pool :: io_context_pool
  m_executor_map :: "ctx_ptr \<Rightarrow> ctx_ptr executor option"

definition TcpServer :: "io_context_pool \<Rightarrow> tcp_server" where
  "TcpServer pool = \<lparr>m_pool = pool, m_executor_map = Map.empty\<rparr>"

datatype accept_action =
    Acceptor_on ctx_ptr
  | Socket_on ctx_ptr
  | Accept_started asio_op
  | Log_accept_failed error_code
  | Session_scheduled ctx_ptr "ctx_ptr executor"

text \<open>What can go wrong in the loop: the pool's vector read out of range, \<open>at\<close> on a missing key.\<close>

datatype server_error = Pool_out_of_range | Out_of_range_at

text \<open>From the top of the loop to its \<open>co_await\<close>.\<close>

definition accept_begin ::
  "tcp_server \<Rightarrow> server_error + (tcp_server \<times> ctx_ptr \<times> accept_action list)" where
  "accept_begin srv =
     (case getIoContext (m_pool srv) of
        None \<Rightarrow> Inl Pool_out_of_range
      | Some (context, pool') \<Rightarrow>
          (let srv1 = srv\<lparr>m_pool := pool'\<rparr>;
               srv2 = (if m_executor_map srv1 context = None
                       then srv1\<lparr>m_executor_map := (m_executor_map srv1)(context \<mapsto> Executor context)\<rparr>
                       else srv1)
           in (case async_accept None of
                 Suspended_on op \<Rightarrow> Inr (srv2, context, [Socket_on context, Accept_started op])
               | _ \<Rightarrow> Inr (srv2, context, []))))"

text \<open>From the completion of the accept to the end of the round.\<close>

definition accept_end ::
  "tcp_server \<Rightarrow> ctx_ptr \<Rightarrow> error_code \<Rightarrow> server_error + accept_action list" where
  "accept_end srv context ec =
     (case async_accept (Some ec) of
        Ready error \<Rightarrow>
          (if failed error then Inr [Log_accept_failed error]
           else (case m_executor_map srv context of
                   None \<Rightarrow> Inl Out_of_range_at
                 | Some ex \<Rightarrow> Inr [Session_scheduled context ex]))
      | _ \<Rightarrow> Inr [])"

text \<open>The loop over the completions that have arrived; after the last it waits for the next one.\<close>

fun accept_loop ::
  "tcp_server \<Rightarrow> error_code list \<Rightarrow> server_error + (tcp_server \<times> ctx_ptr \<times> accept_action list)" where
  "accept_loop srv [] = accept_begin srv"
| "accept_loop srv (ec # ecs) =
     (case accept_begin srv of
        Inl e \<Rightarrow> Inl e
      | Inr (srv1, context, as) \<Rightarrow>
          (case accept_end srv1 context ec of
             Inl e \<Rightarrow> Inl e
           | Inr bs \<Rightarrow>
               (case accept_loop srv1 ecs of
                  Inl e \<Rightarrow> Inl e
                | Inr (srv2, pending, cs) \<Rightarrow> Inr (srv2, pending, as @ bs @ cs))))"

text \<open>
  \<open>start\<close>: the acceptor takes a context of the pool too. Opening, binding and listening may throw;
  what they do is the argument \<open>listen\<close>, an exception or success.
\<close>

definition TcpServer_start ::
  "string option \<Rightarrow> tcp_server \<Rightarrow> error_code list
    \<Rightarrow> (string + server_error) + (tcp_server \<times> ctx_ptr \<times> accept_action list)" where
  "TcpServer_start listen srv ecs =
     (case getIoContext (m_pool srv) of
        None \<Rightarrow> Inl (Inr Pool_out_of_range)
      | Some (context, pool') \<Rightarrow>
          (case listen of
             Some e \<Rightarrow> Inl (Inl e)
           | None \<Rightarrow>
               (case accept_loop (srv\<lparr>m_pool := pool'\<rparr>) ecs of
                  Inl e \<Rightarrow> Inl (Inr e)
                | Inr (srv', pending, as) \<Rightarrow> Inr (srv', pending, Acceptor_on context # as))))"

section \<open>\<open>main\<close>\<close>

text \<open>
  The \<open>try\<close> block declares the pool, then the thread \<open>thd\<close> that calls \<open>pool.start()\<close>, then the
  server. \<open>server.start()\<close> does not return, so \<open>stop\<close> and \<open>join\<close> are only reached if it
  does; when it throws, unwinding destroys \<open>thd\<close>, which nobody has joined, before the handler
  can run. A pool that cannot be built is the only exception the handler sees.
\<close>

definition unwind_with_thread :: "bool \<Rightarrow> proc_outcome" where
  "unwind_with_thread thread_joinable = (if thread_joinable then Terminate else Exit 0)"

definition server_main ::
  "size_t \<Rightarrow> world \<Rightarrow> string option \<Rightarrow> error_code list \<Rightarrow> proc_outcome" where
  "server_main pool_size w listen ecs =
     (case IoContextPool pool_size w of
        Inl e \<Rightarrow> Exit 0
      | Inr (w', pool) \<Rightarrow>
          (case TcpServer_start listen (TcpServer pool) ecs of
             Inl e \<Rightarrow> unwind_with_thread True
           | Inr r \<Rightarrow> Hang))"

section \<open>The accept loop never fails and spreads the sessions\<close>

text \<open>Every executor in the map is the executor of its own context.\<close>

definition server_inv :: "tcp_server \<Rightarrow> bool" where
  "server_inv srv \<longleftrightarrow> pool_inv (m_pool srv)
     \<and> (\<forall>c ex. m_executor_map srv c = Some ex \<longrightarrow>
          c \<in> set (m_io_contexts (m_pool srv)) \<and> m_io_context ex = c)"

text \<open>What one round does, written out: the reference the loop is compared with.\<close>

definition round_actions :: "ctx_ptr \<Rightarrow> error_code \<Rightarrow> accept_action list" where
  "round_actions c ec =
     [Socket_on c, Accept_started Op_accept,
      if failed ec then Log_accept_failed ec else Session_scheduled c \<lparr>m_io_context = c\<rparr>]"

lemma accept_begin_result:
  assumes "server_inv srv"
  shows "\<exists>srv'. accept_begin srv =
           Inr (srv', m_io_contexts (m_pool srv) ! unat (m_next_io_context (m_pool srv)),
             [Socket_on (m_io_contexts (m_pool srv) ! unat (m_next_io_context (m_pool srv))),
              Accept_started Op_accept])
         \<and> server_inv srv'
         \<and> getIoContext (m_pool srv) =
             Some (m_io_contexts (m_pool srv) ! unat (m_next_io_context (m_pool srv)), m_pool srv')
         \<and> m_executor_map srv' (m_io_contexts (m_pool srv) ! unat (m_next_io_context (m_pool srv))) =
             Some \<lparr>m_io_context = m_io_contexts (m_pool srv) ! unat (m_next_io_context (m_pool srv))\<rparr>"
proof -
  have p: "pool_inv (m_pool srv)" using assms by (simp add: server_inv_def)
  obtain c pool' where get: "getIoContext (m_pool srv) = Some (c, pool')"
    and c: "c = m_io_contexts (m_pool srv) ! unat (m_next_io_context (m_pool srv))"
    using getIoContext_result [OF p] by blast
  note facts = getIoContext_preserves [OF p get]
  show ?thesis
    unfolding c [symmetric]
    using assms facts
    by (cases "m_executor_map srv c")
      (auto simp: accept_begin_def get step_simps Let_def server_inv_def Executor_def)
qed


lemma accept_end_result:
  "m_executor_map srv c = Some \<lparr>m_io_context = c\<rparr> \<Longrightarrow>
   accept_end srv c ec =
     Inr [if failed ec then Log_accept_failed ec else Session_scheduled c \<lparr>m_io_context = c\<rparr>]"
  by (simp add: accept_end_def step_simps)

lemma accept_loop_result:
  "server_inv srv \<Longrightarrow>
   let cs = m_io_contexts (m_pool srv);
       ctx = (\<lambda>k. cs ! ((unat (m_next_io_context (m_pool srv)) + k) mod length cs))
   in \<exists>srv'. accept_loop srv ecs =
        Inr (srv', ctx (length ecs),
          concat (map (\<lambda>k. round_actions (ctx k) (ecs ! k)) [0..<length ecs])
            @ [Socket_on (ctx (length ecs)), Accept_started Op_accept])
      \<and> server_inv srv'"
proof (induction ecs arbitrary: srv)
  case Nil
  then have "unat (m_next_io_context (m_pool srv)) < length (m_io_contexts (m_pool srv))"
    by (simp add: server_inv_def pool_inv_def)
  with accept_begin_result [OF Nil] show ?case by (auto simp: Let_def)
next
  case (Cons ec ecs)
  let ?cs = "m_io_contexts (m_pool srv)" and ?i = "unat (m_next_io_context (m_pool srv))"
  let ?ctx = "\<lambda>k. ?cs ! ((?i + k) mod length ?cs)"
  have p: "pool_inv (m_pool srv)" using Cons.prems by (simp add: server_inv_def)
  then have i: "?cs ! ?i = ?ctx 0" by (simp add: pool_inv_def)
  obtain srv1 where b: "accept_begin srv = Inr (srv1, ?ctx 0, [Socket_on (?ctx 0), Accept_started Op_accept])"
    and inv1: "server_inv srv1" and get: "getIoContext (m_pool srv) = Some (?ctx 0, m_pool srv1)"
    and ex: "m_executor_map srv1 (?ctx 0) = Some \<lparr>m_io_context = ?ctx 0\<rparr>"
    using accept_begin_result [OF Cons.prems] unfolding i by blast
  note next1 = getIoContext_preserves [OF p get]
  have shift: "(unat (m_next_io_context (m_pool srv1)) + k) mod length ?cs = (?i + Suc k) mod length ?cs" for k
    by (metis add_Suc_shift mod_add_left_eq next1(5))
  from Cons.IH [OF inv1] obtain srv2 where
    loop: "accept_loop srv1 ecs = Inr (srv2, ?ctx (Suc (length ecs)),
        concat (map (\<lambda>k. round_actions (?ctx (Suc k)) (ecs ! k)) [0..<length ecs])
          @ [Socket_on (?ctx (Suc (length ecs))), Accept_started Op_accept])"
    and inv2: "server_inv srv2"
    by (auto simp: Let_def next1(2) shift)
  have split: "concat (map (\<lambda>k. round_actions (?ctx k) ((ec # ecs) ! k)) [0..<Suc (length ecs)]) =
      round_actions (?ctx 0) ec
        @ concat (map (\<lambda>k. round_actions (?ctx (Suc k)) (ecs ! k)) [0..<length ecs])"
    by (simp add: upt_conv_Cons del: upt_Suc flip: map_Suc_upt) (simp add: comp_def)
  then show ?case
    using inv2 split b loop accept_end_result [OF ex, of ec] round_actions_def [of "?ctx 0" ec]
    by (simp add: Let_def del: upt_Suc)
qed

lemma accept_rounds:
  assumes "IoContextPool pool_size w = Inr (w', pool)"
  shows "let ctx = (\<lambda>k. m_io_contexts pool ! (k mod unat pool_size)) in
    \<exists>srv'. TcpServer_start None (TcpServer pool) ecs =
      Inr (srv', ctx (Suc (length ecs)),
        Acceptor_on (ctx 0)
          # concat (map (\<lambda>k. round_actions (ctx (Suc k)) (ecs ! k)) [0..<length ecs])
          @ [Socket_on (ctx (Suc (length ecs))), Accept_started Op_accept])"
proof -
  note new = IoContextPool_inv [OF assms]
  let ?cs = "m_io_contexts pool"
  obtain p' where get: "getIoContext pool = Some (?cs ! 0, p')"
    using getIoContext_result [OF new(1)] by (simp add: new(5))
  note after = getIoContext_preserves [OF new(1) get]
  have inv: "server_inv ((TcpServer pool)\<lparr>m_pool := p'\<rparr>)"
    using after(1) by (simp add: server_inv_def TcpServer_def)
  have "unat (m_next_io_context p') mod unat pool_size = 1 mod unat pool_size"
    using after(5) by (simp add: new(3,5))
  then have shift: "(unat (m_next_io_context p') + k) mod unat pool_size = Suc k mod unat pool_size" for k
    using mod_add_cong [of "unat (m_next_io_context p')" "unat pool_size" 1 k k] by simp
  show ?thesis
    using accept_loop_result [OF inv, of ecs]
    by (auto simp: TcpServer_start_def TcpServer_def get Let_def after(2) new(3) shift)
qed

text \<open>
  C20. The accept loop, against its reference: on a newly built pool \<open>start\<close> never fails once
  listening has succeeded. The acceptor lives on context 0; round \<open>k\<close> uses context
  \<open>(k + 1) mod pool_size\<close> for its socket and, if the accept succeeded, schedules the session on
  the executor of that same context; a failed accept is logged and uses up its turn.
\<close>

theorem TcpServer_start_rounds:
  assumes "IoContextPool pool_size w = Inr (w', pool)"
  shows "let ctx = (\<lambda>k. m_io_contexts pool ! (k mod unat pool_size)) in
    \<exists>srv'. TcpServer_start None (TcpServer pool) ecs =
      Inr (srv', ctx (Suc (length ecs)),
        Acceptor_on (ctx 0)
          # concat (map (\<lambda>k. round_actions (ctx (Suc k)) (ecs ! k)) [0..<length ecs])
          @ [Socket_on (ctx (Suc (length ecs))), Accept_started Op_accept])"
  by (rule accept_rounds [OF assms])

theorem TcpServer_start_rounds_witness:
  "\<exists>w' pool srv'. IoContextPool 2 empty_world = Inr (w', pool)
     \<and> TcpServer_start None (TcpServer pool) [No_error, Other_error 24] =
         Inr (srv', 1,
           [Acceptor_on 0,
            Socket_on 1, Accept_started Op_accept, Session_scheduled 1 \<lparr>m_io_context = 1\<rparr>,
            Socket_on 0, Accept_started Op_accept, Log_accept_failed (Other_error 24),
            Socket_on 1, Accept_started Op_accept])"
proof -
  obtain w' pool where p: "IoContextPool 2 empty_world = Inr (w', pool)"
    and cs: "m_io_contexts pool = [0, 1]"
    using IoContextPool_result [of 2 empty_world] by (auto simp: empty_world_def upt_rec)
  show ?thesis
    using p TcpServer_start_rounds [OF p, of "[No_error, Other_error 24]"]
    by (auto simp: cs upt_rec Let_def round_actions_def failed_def)
qed

text \<open>
  C35. \<open>main\<close>: with the ten contexts it asks for, the process serves for ever when listening
  succeeds. When listening throws (the port is in use), the handler is never reached: the thread
  \<open>thd\<close> is destroyed unjoined and the process is terminated.
\<close>

theorem server_main_outcome:
  "server_main 10 w listen ecs = (case listen of None \<Rightarrow> Hang | Some e \<Rightarrow> Terminate)"
proof -
  obtain w' pool where p: "IoContextPool 10 w = Inr (w', pool)"
    using IoContextPool_result [of 10 w] by auto
  note new = IoContextPool_inv [OF p]
  show ?thesis
  proof (cases listen)
    case None
    then show ?thesis
      using accept_rounds [OF p, of ecs] by (auto simp: server_main_def p Let_def)
  next
    case (Some e)
    then show ?thesis
      using getIoContext_result [OF new(1)]
      by (simp add: server_main_def p TcpServer_start_def TcpServer_def unwind_with_thread_def)
  qed
qed

end
