(* ===== verification/Tcp_Client.thy ===== *)
theory Tcp_Client
  imports Asio_Util Io_Context_Pool
begin

text \<open>
  \<open>src/test_tcp_client.cpp\<close>: the coroutine \<open>start\<close>, which connects, sends a block of 1024
  bytes and reads an answer a hundred times, and stops the context; and \<open>main\<close>, whose thread
  runs the context until it is stopped. As in the server, the coroutine is a machine whose states
  are its \<open>co_await\<close> points.
\<close>

section \<open>\<open>start\<close>\<close>

definition client_max_length :: nat where
  "client_max_length = 1024"

definition client_count :: nat where
  "client_count = 100"

text \<open>\<open>char write_buf[max_length] = {"hello"}\<close>: the rest of the array is zero.\<close>

definition write_buf :: bytes where
  "write_buf = ''hello'' @ replicate (client_max_length - length ''hello'') (CHR 0x00)"

datatype client_pc = C_Connect | C_Write nat | C_Read nat | C_Done

datatype client_event =
    Connect_done error_code
  | Write_completed error_code nat
  | Read_completed error_code nat

datatype client_action =
    Client_log string
  | Client_error error_code
  | Client_started asio_op
  | Client_shutdown
  | Io_context_stop

text \<open>After the loop: the message, the shutdown, and \<open>io_context.stop()\<close>.\<close>

definition client_finish :: "client_pc \<times> client_action list" where
  "client_finish = (C_Done, [Client_log ''Finished send and recieve'', Client_shutdown, Io_context_stop])"

text \<open>The head of the loop with counter \<open>i\<close>.\<close>

definition client_loop :: "nat \<Rightarrow> client_pc \<times> client_action list" where
  "client_loop i =
     (if i < client_count then
        (case async_write (take client_max_length write_buf) None of
           Suspended_on op \<Rightarrow> (C_Write i, [Client_started op])
         | _ \<Rightarrow> (C_Write i, []))
      else client_finish)"

text \<open>From the call to the first \<open>co_await\<close>; a resolver that throws ends the coroutine.\<close>

definition client_begin ::
  "(string \<Rightarrow> string \<Rightarrow> string + string list) \<Rightarrow> string \<Rightarrow> string
    \<Rightarrow> string + (client_pc \<times> client_action list)" where
  "client_begin resolve host port =
     (case async_connect resolve host port None of
        Threw e \<Rightarrow> Inl e
      | Suspended_on op \<Rightarrow> Inr (C_Connect, [Client_started op])
      | Ready ec \<Rightarrow> Inr (C_Connect, []))"

fun client_step :: "client_pc \<Rightarrow> client_event \<Rightarrow> client_pc \<times> client_action list" where
  "client_step C_Connect (Connect_done ec) =
     (if failed ec then (C_Done, [Client_error ec])
      else (let (pc, as) = client_loop 0 in (pc, Client_log ''Connect successfully'' # as)))"
| "client_step (C_Write i) (Write_completed ec n) =
     (case async_write write_buf (Some (ec, n)) of
        Ready discarded \<Rightarrow>
          (case async_read_some client_max_length None of
             Suspended_on op \<Rightarrow> (C_Read i, [Client_started op])
           | _ \<Rightarrow> (C_Read i, []))
      | _ \<Rightarrow> (C_Write i, []))"
| "client_step (C_Read i) (Read_completed ec n) =
     (case async_read_some client_max_length (Some (ec, n)) of
        Ready (error, reply_length) \<Rightarrow>
          (if error = Eof then
             (let (pc, as) = client_finish in (pc, Client_log ''server close'' # as))
           else if failed error then
             (let (pc, as) = client_finish in (pc, Client_error error # as))
           else client_loop (i + 1))
      | _ \<Rightarrow> (C_Read i, []))"
| "client_step pc e = (pc, [])"

fun client_run :: "client_pc \<Rightarrow> client_event list \<Rightarrow> client_pc \<times> client_action list" where
  "client_run pc [] = (pc, [])"
| "client_run pc (e # es) =
     (let (pc1, as) = client_step pc e; (pc2, bs) = client_run pc1 es in (pc2, as @ bs))"

section \<open>\<open>main\<close>\<close>

text \<open>
  \<open>thd\<close> runs the context with a work guard; \<open>blockingWait\<close> waits for the coroutine, then
  \<open>thd.join()\<close> waits for \<open>run\<close>, which returns as the predicate \<open>returns\<close> says. An exception
  of the coroutine leaves the block with \<open>thd\<close> unjoined.
\<close>

definition context_after :: "client_action list \<Rightarrow> io_context" where
  "context_after as = \<lparr>ctx_stopped = Io_context_stop \<in> set as, ctx_work = 1\<rparr>"

definition client_main ::
  "(io_context \<Rightarrow> bool) \<Rightarrow> (string \<Rightarrow> string \<Rightarrow> string + string list) \<Rightarrow> client_event list
    \<Rightarrow> proc_outcome" where
  "client_main returns resolve es =
     (case client_begin resolve ''127.0.0.1'' ''8848'' of
        Inl e \<Rightarrow> Terminate
      | Inr (pc, as) \<Rightarrow>
          (let (pc', bs) = client_run pc es
           in if pc' \<noteq> C_Done then Hang
              else if returns (context_after (as @ bs)) then Exit 0 else Hang))"

section \<open>Steps\<close>

lemma write_buf_length [simp]: "length write_buf = client_max_length"
  by (simp add: write_buf_def client_max_length_def)

lemma client_loop_eq [step_simps]:
  "client_loop i =
     (if i < client_count then (C_Write i, [Client_started (Op_write write_buf)]) else client_finish)"
  by (simp add: client_loop_def step_simps)

lemma client_begin_eq [step_simps]:
  "resolve host port = Inr eps \<Longrightarrow>
     client_begin resolve host port = Inr (C_Connect, [Client_started (Op_connect eps)])"
  "resolve host port = Inl e \<Longrightarrow> client_begin resolve host port = Inl e"
  by (simp_all add: client_begin_def step_simps)

lemma client_step_eq [step_simps]:
  "client_step (C_Write i) (Write_completed ec n) =
     (C_Read i, [Client_started (Op_read_some client_max_length)])"
  "client_step (C_Read i) (Read_completed ec n) =
     (if failed ec
      then (C_Done, (if ec = Eof then Client_log ''server close'' else Client_error ec) # snd client_finish)
      else client_loop (Suc i))"
  by (simp_all add: step_simps client_finish_def failed_def)

lemma client_step_done: "client_step C_Done e = (C_Done, [])"
  by (cases e) simp_all

lemma client_run_done: "client_run C_Done es = (C_Done, [])"
  by (induction es) (simp_all add: client_step_done)

fun client_writes :: "client_action list \<Rightarrow> bytes list" where
  "client_writes [] = []"
| "client_writes (Client_started (Op_write bs) # as) = bs # client_writes as"
| "client_writes (_ # as) = client_writes as"

lemma client_writes_append [simp]: "client_writes (as @ bs) = client_writes as @ client_writes bs"
  by (induction as rule: client_writes.induct) simp_all

text \<open>How many blocks a state has still to send.\<close>

fun blocks_left :: "client_pc \<Rightarrow> nat" where
  "blocks_left C_Connect = client_count"
| "blocks_left (C_Write i) = client_count - Suc i"
| "blocks_left (C_Read i) = client_count - Suc i"
| "blocks_left C_Done = 0"

lemma client_step_writes:
  "client_step pc e = (pc', as) \<Longrightarrow>
     set (client_writes as) \<subseteq> {write_buf} \<and> length (client_writes as) + blocks_left pc' \<le> blocks_left pc"
  by (cases "(pc, e)" rule: client_step.cases)
    (auto simp: step_simps client_finish_def split: if_splits)

lemma client_run_writes:
  "client_run pc es = (pc', as) \<Longrightarrow>
     set (client_writes as) \<subseteq> {write_buf} \<and> length (client_writes as) + blocks_left pc' \<le> blocks_left pc"
proof (induction es arbitrary: pc as)
  case Nil
  then show ?case by simp
next
  case (Cons e es)
  obtain pc1 as1 where step: "client_step pc e = (pc1, as1)" by fastforce
  obtain pc2 as2 where run: "client_run pc1 es = (pc2, as2)" by fastforce
  have "pc2 = pc'" "as = as1 @ as2" using Cons.prems step run by simp_all
  with client_step_writes [OF step] Cons.IH [of pc1 as2] run show ?case by auto
qed

text \<open>
  The client sends at most 100 blocks, whatever the server answers, and every block is the
  same 1024 bytes: the greeting followed by zeros.
\<close>

lemma client_sends_at_most_100:
  "length (client_writes (snd (client_run C_Connect es))) \<le> 100
   \<and> set (client_writes (snd (client_run C_Connect es))) \<subseteq> {''hello'' @ replicate 1019 (CHR 0x00)}"
proof -
  have "write_buf = ''hello'' @ replicate 1019 (CHR 0x00)"
    by (simp add: write_buf_def client_max_length_def)
  then show ?thesis
    using client_run_writes [OF prod.collapse [symmetric], of C_Connect es]
    by (auto simp: client_count_def)
qed

section \<open>How the process ends\<close>

text \<open>Once connected, the coroutine only ends through the code that stops the context.\<close>

lemma client_step_stops:
  "client_step pc e = (C_Done, as) \<Longrightarrow> pc \<noteq> C_Connect \<Longrightarrow> pc \<noteq> C_Done \<Longrightarrow> Io_context_stop \<in> set as"
  by (cases "(pc, e)" rule: client_step.cases)
    (auto simp: step_simps client_finish_def split: if_splits)

lemma client_step_connected:
  "client_step pc e = (pc', as) \<Longrightarrow> pc \<noteq> C_Connect \<Longrightarrow> pc' \<noteq> C_Connect"
  by (cases "(pc, e)" rule: client_step.cases)
    (auto simp: step_simps client_finish_def split: if_splits)

lemma client_run_stops:
  "client_run pc es = (C_Done, as) \<Longrightarrow> pc \<noteq> C_Connect \<Longrightarrow> pc \<noteq> C_Done \<Longrightarrow> Io_context_stop \<in> set as"
proof (induction es arbitrary: pc as)
  case Nil
  then show ?case by simp
next
  case (Cons e es)
  obtain pc1 as1 where step: "client_step pc e = (pc1, as1)" by fastforce
  obtain pc2 as2 where run: "client_run pc1 es = (pc2, as2)" by fastforce
  have eqs: "pc2 = C_Done" "as = as1 @ as2" using Cons.prems(1) step run by simp_all
  show ?case
  proof (cases "pc1 = C_Done")
    case True
    with client_step_stops step Cons.prems(2,3) show ?thesis by (simp add: eqs)
  next
    case False
    with Cons.IH [of pc1 as2] run client_step_connected [OF step] Cons.prems(2)
    show ?thesis by (simp add: eqs)
  qed
qed

text \<open>
  \<open>main\<close> after a successful connect: the process exits with 0 exactly when the coroutine
  comes to its end (all rounds done, or a read failed), and waits as long as it does not.
\<close>

lemma client_main_connected:
  assumes "run_contract returns" and "resolve ''127.0.0.1'' ''8848'' = Inr eps"
  shows "client_main returns resolve (Connect_done No_error # es) =
    (if fst (client_run (C_Write 0) es) = C_Done then Exit 0 else Hang)"
proof -
  have connect: "client_step C_Connect (Connect_done No_error) =
      (C_Write 0, [Client_log ''Connect successfully'', Client_started (Op_write write_buf)])"
    by (simp add: step_simps failed_def client_count_def)
  obtain pc as where run: "client_run (C_Write 0) es = (pc, as)" by fastforce
  have "pc = C_Done \<Longrightarrow> Io_context_stop \<in> set as"
    using client_run_stops run by force
  then show ?thesis
    using assms connect
    by (simp add: client_main_def client_begin_eq run context_after_def run_contract_def
        del: client_step.simps)
qed

text \<open>
  C26. A refused connection: the coroutine returns before it stops the context, so the thread's
  \<open>run\<close> never returns and \<open>thd.join()\<close> waits for ever, whatever happens afterwards.
\<close>

theorem client_main_connect_error_hangs:
  assumes "run_contract returns" and "resolve ''127.0.0.1'' ''8848'' = Inr eps" and "failed ec"
  shows "client_main returns resolve (Connect_done ec # es) = Hang"
  using assms
  by (simp add: client_main_def step_simps client_run_done context_after_def run_contract_def)

theorem client_main_connect_error_hangs_witness:
  "client_main (\<lambda>c. ctx_stopped c \<or> ctx_work c = 0) (\<lambda>h p. Inr [h]) [Connect_done (Other_error 111)] = Hang"
  using client_main_connect_error_hangs [of "\<lambda>c. ctx_stopped c \<or> ctx_work c = 0" "\<lambda>h p. Inr [h]"
      "[''127.0.0.1'']" "Other_error 111" "[]"]
  by (simp add: run_contract_def failed_def)

text \<open>
  A resolver that throws does not reach the handler of \<open>main\<close>: the thread is destroyed
  unjoined and the process is terminated.
\<close>

lemma client_main_resolve_error:
  assumes "resolve ''127.0.0.1'' ''8848'' = Inl e"
  shows "client_main returns resolve es = Terminate"
  using assms by (simp add: client_main_def step_simps)

end
