(* ===== verification/Tcp_Echo.thy ===== *)
theory Tcp_Echo
  imports Simulation Tcp_Server Tcp_Client
begin

text \<open>
  The two TCP programs together: the client machine of \<open>Tcp_Client\<close> and one session of
  \<open>Tcp_Server\<close> over a connection. The connection is two byte streams that deliver in order and
  lose nothing; a read takes any number of the bytes that have arrived, at least one and at most
  the buffer's size. Which side moves next, and how the bytes are cut, is not determined.
\<close>

declare session_step.simps [simp del] and client_step.simps [simp del]

section \<open>The composed system\<close>

record echo_sys =
  cl :: client_pc
  sv :: session
  to_server :: bytes
  sending :: bytes
  to_client :: bytes
  cl_sent :: bytes
  cl_got :: bytes

text \<open>Just after the connection is established: the client's first write is pending.\<close>

definition echo_init :: echo_sys where
  "echo_init = \<lparr>cl = C_Write 0, sv = fst session_begin, to_server = [], sending = [],
     to_client = [], cl_sent = [], cl_got = []\<rparr>"

inductive echo_step :: "echo_sys \<Rightarrow> echo_sys \<Rightarrow> bool" where
  server_timer: "session_pc (sv s) = S_Timer \<Longrightarrow> session_step (sv s) (Timer_done ec) = (sv', as) \<Longrightarrow>
    echo_step s (s\<lparr>sv := sv'\<rparr>)"
| client_write: "cl s = C_Write i \<Longrightarrow> client_step (cl s) (Write_completed No_error n) = (cl', as) \<Longrightarrow>
    echo_step s (s\<lparr>cl := cl', to_server := to_server s @ write_buf, cl_sent := cl_sent s @ write_buf\<rparr>)"
| server_read: "session_pc (sv s) = S_Read \<Longrightarrow> 0 < k \<Longrightarrow> k \<le> max_length \<Longrightarrow> k \<le> length (to_server s) \<Longrightarrow>
    session_step (sv s) (Read_done No_error (take k (to_server s))) = (sv', as) \<Longrightarrow>
    echo_step s (s\<lparr>sv := sv', to_server := drop k (to_server s), sending := written as\<rparr>)"
| server_write: "session_pc (sv s) = S_Write \<Longrightarrow>
    session_step (sv s) (Write_done No_error n) = (sv', as) \<Longrightarrow>
    echo_step s (s\<lparr>sv := sv', to_client := to_client s @ sending s, sending := written as\<rparr>)"
| client_read: "cl s = C_Read i \<Longrightarrow> 0 < k \<Longrightarrow> k \<le> client_max_length \<Longrightarrow> k \<le> length (to_client s) \<Longrightarrow>
    client_step (cl s) (Read_completed No_error k) = (cl', as) \<Longrightarrow>
    echo_step s (s\<lparr>cl := cl', to_client := drop k (to_client s),
                   cl_got := cl_got s @ take k (to_client s)\<rparr>)"
| server_fail: "session_pc (sv s) = S_Read \<Longrightarrow> failed ec \<Longrightarrow>
    session_step (sv s) (Read_done ec []) = (sv', as) \<Longrightarrow>
    echo_step s (s\<lparr>sv := sv', sending := written as\<rparr>)"
| client_fail: "cl s = C_Read i \<Longrightarrow> failed ec \<Longrightarrow>
    client_step (cl s) (Read_completed ec 0) = (cl', as) \<Longrightarrow>
    echo_step s (s\<lparr>cl := cl'\<rparr>)"

inductive echo_reachable :: "echo_sys \<Rightarrow> bool" where
  init: "echo_reachable echo_init"
| step: "echo_reachable s \<Longrightarrow> echo_step s s' \<Longrightarrow> echo_reachable s'"

section \<open>Invariant\<close>

text \<open>
  No byte is lost or reordered; bytes in flight at the server belong to a pending write; and the
  client, which reads at most one block per block it has sent, is never ahead.
\<close>

fun blocks_sent :: "client_pc \<Rightarrow> nat \<Rightarrow> bool" where
  "blocks_sent (C_Write i) n \<longleftrightarrow> n = client_max_length * i"
| "blocks_sent (C_Read i) n \<longleftrightarrow> n = client_max_length * Suc i"
| "blocks_sent _ n \<longleftrightarrow> True"

fun blocks_got :: "client_pc \<Rightarrow> nat \<Rightarrow> bool" where
  "blocks_got (C_Write i) n \<longleftrightarrow> n \<le> client_max_length * i"
| "blocks_got (C_Read i) n \<longleftrightarrow> n \<le> client_max_length * i"
| "blocks_got _ n \<longleftrightarrow> True"

definition echo_inv :: "echo_sys \<Rightarrow> bool" where
  "echo_inv s \<longleftrightarrow>
     cl_got s @ to_client s @ sending s @ to_server s = cl_sent s
     \<and> (session_pc (sv s) \<noteq> S_Write \<longrightarrow> sending s = [])
     \<and> cl s \<noteq> C_Connect
     \<and> blocks_sent (cl s) (length (cl_sent s)) \<and> blocks_got (cl s) (length (cl_got s))"

lemma echo_init_inv: "echo_inv echo_init"
  by (simp add: echo_inv_def echo_init_def)

lemma echo_step_inv:
  assumes "echo_step s s'" and "echo_inv s"
  shows "echo_inv s'"
  using assms
proof (induction rule: echo_step.induct)
  case (server_timer s ec sv' as)
  then show ?case by (auto simp: echo_inv_def step_simps)
next
  case (client_write s i n cl' as)
  then show ?case by (auto simp: echo_inv_def step_simps)
next
  case (server_read s k sv' as)
  then show ?case by (auto simp: echo_inv_def step_simps failed_def)
next
  case (server_write s n sv' as)
  then show ?case by (auto simp: echo_inv_def step_simps)
next
  case (client_read s i k cl' as)
  then show ?case
    by (auto simp: echo_inv_def step_simps failed_def client_finish_def split: if_splits)
next
  case (server_fail s ec sv' as)
  then show ?case by (auto simp: echo_inv_def step_simps)
next
  case (client_fail s i ec cl' as)
  then show ?case by (auto simp: echo_inv_def step_simps)
qed

lemma echo_reachable_inv: "echo_reachable s \<Longrightarrow> echo_inv s"
  by (induction rule: echo_reachable.induct) (auto intro: echo_init_inv echo_step_inv)

text \<open>
  C1. End to end, in every reachable state: what the client has got back, followed by what is on
  its way to it, in the server, and on its way to the server, is exactly what it has sent, byte
  for byte and in order.
\<close>

theorem echo_end_to_end:
  assumes "echo_reachable s"
  shows "cl_got s @ to_client s @ sending s @ to_server s = cl_sent s"
  using echo_reachable_inv [OF assms] by (simp add: echo_inv_def)

text \<open>A run in which the server has just read the first block's greeting.\<close>

lemma echo_first_read:
  "echo_reachable \<lparr>cl = C_Read 0,
     sv = \<lparr>session_pc = S_Write, session_data = ''hello'' @ replicate 1019 (CHR 0x00)\<rparr>,
     to_server = drop 5 write_buf, sending = ''hello'', to_client = [], cl_sent = write_buf, cl_got = []\<rparr>"
proof -
  let ?s1 = "\<lparr>cl = C_Read 0, sv = \<lparr>session_pc = S_Timer, session_data = []\<rparr>,
    to_server = write_buf, sending = [], to_client = [], cl_sent = write_buf, cl_got = []\<rparr>"
  let ?s2 = "?s1\<lparr>sv := \<lparr>session_pc = S_Read, session_data = replicate max_length (CHR 0x00)\<rparr>\<rparr>"
  have wb: "take 5 write_buf = ''hello''" "5 \<le> length write_buf"
    by (simp_all add: write_buf_def client_max_length_def)
  have "echo_step echo_init ?s1"
    using echo_step.client_write [of echo_init 0 1024]
    by (simp add: echo_init_def step_simps)
  then have r1: "echo_reachable ?s1"
    by (rule echo_reachable.step [OF echo_reachable.init])
  have "echo_step ?s1 ?s2"
    using echo_step.server_timer [of ?s1 No_error]
    by (simp add: step_simps)
  with r1 have r2: "echo_reachable ?s2"
    by (rule echo_reachable.step)
  have "echo_step ?s2 (?s2\<lparr>sv := \<lparr>session_pc = S_Write,
      session_data = fill ''hello'' (replicate max_length (CHR 0x00))\<rparr>,
      to_server := drop 5 write_buf, sending := ''hello''\<rparr>)"
    using echo_step.server_read [of ?s2 5] wb
    by (simp add: step_simps failed_def max_length_def)
  with r2 have "echo_reachable (?s2\<lparr>sv := \<lparr>session_pc = S_Write,
      session_data = fill ''hello'' (replicate max_length (CHR 0x00))\<rparr>,
      to_server := drop 5 write_buf, sending := ''hello''\<rparr>)"
    by (rule echo_reachable.step)
  then show ?thesis by (simp add: fill_def max_length_def)
qed

theorem echo_end_to_end_witness:
  "\<exists>s. echo_reachable s \<and> sending s = ''hello'' \<and> ''hello'' @ to_server s = cl_sent s"
proof -
  obtain s where s: "echo_reachable s" "sending s = ''hello''" "cl_got s = []" "to_client s = []"
    using echo_first_read by fastforce
  with echo_end_to_end [OF s(1)] show ?thesis by auto
qed


section \<open>Progress\<close>

text \<open>While the client waits for an answer, some byte of what it has sent is still on its way.\<close>

lemma waiting_client_outstanding:
  assumes "echo_inv s" and "cl s = C_Read i"
  shows "to_client s \<noteq> [] \<or> sending s \<noteq> [] \<or> to_server s \<noteq> []"
proof -
  have "length (cl_got s) < length (cl_sent s)"
    using assms by (simp add: echo_inv_def client_max_length_def)
  then show ?thesis
    using assms(1) by (auto simp: echo_inv_def)
qed

lemma reading_progress:
  assumes inv: "echo_inv s" and at_read: "session_pc (sv s) = S_Read" and "cl s \<noteq> C_Done"
  shows "\<exists>s'. echo_step s s' \<and> session_pc (sv s') \<noteq> S_Done"
proof (cases "cl s")
  case C_Connect
  then show ?thesis using inv by (simp add: echo_inv_def)
next
  case (C_Write i)
  obtain cl' as where "client_step (cl s) (Write_completed No_error 0) = (cl', as)" by fastforce
  from echo_step.client_write [OF C_Write this] at_read show ?thesis by fastforce
next
  case (C_Read i)
  have "sending s = []" using inv at_read by (simp add: echo_inv_def)
  then consider (to_cl) "to_client s \<noteq> []" | (to_sv) "to_server s \<noteq> []"
    using waiting_client_outstanding [OF inv C_Read] by blast
  then show ?thesis
  proof cases
    case to_cl
    obtain cl' as where "client_step (cl s) (Read_completed No_error 1) = (cl', as)" by fastforce
    with to_cl at_read show ?thesis
      using echo_step.client_read [OF C_Read, of 1] by (force simp: client_max_length_def Suc_le_eq)
  next
    case to_sv
    with at_read show ?thesis
      using echo_step.server_read [of s 1] by (force simp: step_simps failed_def max_length_def Suc_le_eq)
  qed
qed (use assms(3) in simp)

lemma progress_step:
  assumes "echo_reachable s" and "cl s \<noteq> C_Done" and "session_pc (sv s) \<noteq> S_Done"
  shows "\<exists>s'. echo_step s s' \<and> (session_pc (sv s') \<noteq> S_Done)"
proof (cases "session_pc (sv s)")
  case S_Timer
  then show ?thesis using echo_step.server_timer [of s No_error] by (force simp: step_simps)
next
  case S_Read
  then show ?thesis using reading_progress echo_reachable_inv assms(1,2) by blast
next
  case S_Write
  then show ?thesis using echo_step.server_write [of s 0] by (force simp: step_simps)
qed (use assms(3) in simp)

text \<open>
  No deadlock: as long as neither the client's coroutine nor the session has finished, a step
  other than a failure is possible. The pair never waits for each other.
\<close>

lemma echo_progress:
  assumes "echo_reachable s" and "cl s \<noteq> C_Done" and "session_pc (sv s) \<noteq> S_Done"
  shows "\<exists>s'. echo_step s s' \<and> (session_pc (sv s') \<noteq> S_Done)"
  by (rule progress_step [OF assms])

section \<open>Termination\<close>

text \<open>
  What is still to be done: rounds of the client, each worth more than the bytes it can put on the
  way; bytes the session has still to read; and where the session stands.
\<close>

fun client_weight :: "client_pc \<Rightarrow> nat" where
  "client_weight C_Connect = 2 * client_count + 3"
| "client_weight (C_Write i) = 2 * (client_count - i) + 2"
| "client_weight (C_Read i) = 2 * (client_count - i) + 1"
| "client_weight C_Done = 0"

fun session_weight :: "session_pc \<Rightarrow> nat" where
  "session_weight S_Timer = 2"
| "session_weight S_Read = 1"
| "session_weight S_Write = 2"
| "session_weight S_Done = 0"

definition echo_weight :: "echo_sys \<Rightarrow> nat" where
  "echo_weight s = (2 * client_max_length + 1) * client_weight (cl s)
     + 2 * length (to_server s) + session_weight (session_pc (sv s))"

lemma weight_step: "w' < w \<Longrightarrow> (c + 1) * w' + c + d < (c + 1) * w + d" for w :: nat
proof -
  assume "w' < w"
  then have "(c + 1) * Suc w' \<le> (c + 1) * w" by (intro mult_le_mono) simp_all
  then show ?thesis by simp
qed

lemma client_read_weight:
  "client_step (C_Read i) (Read_completed ec n) = (cl', as) \<Longrightarrow> client_weight cl' < client_weight (C_Read i)"
  by (auto simp: step_simps client_finish_def split: if_splits)

lemma echo_step_weight: "echo_step s s' \<Longrightarrow> echo_weight s' < echo_weight s"
proof (induction rule: echo_step.induct)
  case (client_write s i n cl' as)
  then have "cl' = C_Read i" by (simp add: step_simps)
  with client_write show ?case
    using weight_step [of "client_weight (C_Read i)" "client_weight (C_Write i)" "2 * client_max_length"
        "2 * length (to_server s) + session_weight (session_pc (sv s))"]
    by (simp add: echo_weight_def algebra_simps)
next
  case (client_read s i k cl' as)
  then show ?case
    using client_read_weight [of i No_error k cl' as]
      weight_step [of "client_weight cl'" "client_weight (C_Read i)" "2 * client_max_length"]
    by (fastforce simp: echo_weight_def)
next
  case (client_fail s i ec cl' as)
  then show ?case
    using client_read_weight [of i ec 0 cl' as]
      weight_step [of "client_weight cl'" "client_weight (C_Read i)" "2 * client_max_length"]
    by (fastforce simp: echo_weight_def)
next
  case (server_read s k sv' as)
  then show ?case by (auto simp: echo_weight_def step_simps failed_def)
qed (auto simp: echo_weight_def step_simps)

interpretation echo_end:
  quiescing echo_step echo_reachable echo_weight "\<lambda>s. cl s = C_Done \<or> session_pc (sv s) = S_Done"
  by unfold_locales (use echo_reachable.step echo_step_weight progress_step in blast)+

lemma echo_run_reachable: "echo_step\<^sup>*\<^sup>* echo_init a \<Longrightarrow> echo_reachable a"
  using echo_end.inv_along echo_reachable.init by blast

text \<open>
  C23. Every run of client and session is finite, at most 413900 steps however the bytes are cut and
  the two sides interleave, and it can only stop where one of the two has finished.
\<close>

theorem echo_terminates:
  assumes "(echo_step ^^ n) echo_init s"
  shows "n \<le> 413900 \<and> ((\<exists>s'. echo_step s s') \<or> cl s = C_Done \<or> session_pc (sv s) = S_Done)"
proof -
  have "echo_weight echo_init = 413900"
    by (simp add: echo_weight_def echo_init_def step_simps client_max_length_def client_count_def)
  then show ?thesis
    using echo_end.run_bound [OF assms echo_reachable.init]
      echo_end.goes_on [OF echo_run_reachable [OF relpowp_imp_rtranclp [OF assms]]] by auto
qed

theorem echo_terminates_witness:
  "\<exists>s. echo_step echo_init s \<and> ((\<exists>s'. echo_step s s') \<or> cl s = C_Done \<or> session_pc (sv s) = S_Done)"
proof -
  obtain s where s: "echo_step echo_init s"
    using progress_step [OF echo_reachable.init] by (auto simp: echo_init_def step_simps)
  then have "(echo_step ^^ 1) echo_init s" by (simp only: relpowp_1)
  from echo_terminates [OF this] s show ?thesis by blast
qed

section \<open>Short reads\<close>

text \<open>
  The client reads once per block it writes, and a read may deliver less than a block: a run without
  any failure in which every read takes one byte.
\<close>

lemma short_round:
  assumes "echo_reachable s" and "cl s = C_Write i" and "session_pc (sv s) = S_Read" and "to_client s = []" and "sending s = []"
  shows "\<exists>s'. echo_reachable s' \<and> cl s' = fst (client_loop (Suc i)) \<and> session_pc (sv s') = S_Read
     \<and> to_client s' = [] \<and> sending s' = [] \<and> cl_sent s' = cl_sent s @ write_buf \<and> length (cl_got s') = Suc (length (cl_got s))"
proof -
  let ?s1 = "s\<lparr>cl := C_Read i, to_server := to_server s @ write_buf, cl_sent := cl_sent s @ write_buf\<rparr>"
  have 1: "echo_step s ?s1"
    by (rule echo_step.client_write [where i = i and n = 0]) (simp_all add: assms(2) step_simps)
  have long: "1 \<le> length (to_server ?s1)" by (simp add: client_max_length_def)
  obtain ss2 as2 where r2: "session_step (sv ?s1) (Read_done No_error (take 1 (to_server ?s1))) = (ss2, as2)" by fastforce
  then have ss2: "session_pc ss2 = S_Write" "written as2 = take 1 (to_server ?s1)"
    using assms(3) by (auto simp: step_simps failed_def)
  let ?s2 = "?s1\<lparr>sv := ss2, to_server := drop 1 (to_server ?s1), sending := written as2\<rparr>"
  have 2: "echo_step ?s1 ?s2"
    by (rule echo_step.server_read [where k = 1]) (use assms(3) long r2 in \<open>simp_all add: max_length_def\<close>)
  obtain ss3 as3 where r3: "session_step ss2 (Write_done No_error 1) = (ss3, as3)" by fastforce
  then have ss3: "session_pc ss3 = S_Read" "written as3 = []" using ss2(1) by (auto simp: step_simps)
  let ?s3 = "?s2\<lparr>sv := ss3, to_client := to_client ?s2 @ sending ?s2, sending := written as3\<rparr>"
  have 3: "echo_step ?s2 ?s3"
    by (rule echo_step.server_write [where n = 1]) (use ss2(1) r3 in simp_all)
  have down: "length (to_client ?s3) = 1" using assms(4) ss2(2) long by simp
  obtain c as4 where r4: "client_step (C_Read i) (Read_completed No_error 1) = (c, as4)" by fastforce
  let ?s4 = "?s3\<lparr>cl := c, to_client := drop 1 (to_client ?s3), cl_got := cl_got ?s3 @ take 1 (to_client ?s3)\<rparr>"
  have 4: "echo_step ?s3 ?s4"
    by (rule echo_step.client_read [where i = i and k = 1]) (use r4 down in \<open>simp_all add: client_max_length_def\<close>)
  have "echo_reachable ?s4" using assms(1) 1 2 3 4 by (meson echo_reachable.step)
  moreover have "c = fst (client_loop (Suc i))" using r4 by (simp add: step_simps failed_def split: if_splits)
  ultimately show ?thesis using down ss3 by (intro exI [of _ ?s4]) simp
qed

lemma short_rounds:
  "i \<le> client_count \<Longrightarrow> \<exists>s. echo_reachable s \<and> cl s = fst (client_loop i) \<and> session_pc (sv s) = S_Read \<and> to_client s = []
     \<and> sending s = [] \<and> length (cl_sent s) = client_max_length * i \<and> length (cl_got s) = i"
proof (induction i)
  case 0
  obtain ss as where r: "session_step (sv echo_init) (Timer_done No_error) = (ss, as)" by fastforce
  then have "echo_step echo_init (echo_init\<lparr>sv := ss\<rparr>)"
    by (intro echo_step.server_timer) (simp_all add: echo_init_def session_begin_eq)
  then have "echo_reachable (echo_init\<lparr>sv := ss\<rparr>)" by (rule echo_reachable.step [OF echo_reachable.init])
  moreover have "session_pc ss = S_Read" using r by (auto simp: echo_init_def session_begin_eq session_step_eq)
  ultimately show ?case
    by (intro exI [of _ "echo_init\<lparr>sv := ss\<rparr>"]) (simp add: echo_init_def client_loop_eq client_count_def)
next
  case (Suc i)
  then obtain s where s: "echo_reachable s" "cl s = fst (client_loop i)" "session_pc (sv s) = S_Read" "to_client s = []"
    "sending s = []" "length (cl_sent s) = client_max_length * i" "length (cl_got s) = i" by auto
  have "cl s = C_Write i" using s(2) Suc.prems by (simp add: client_loop_eq)
  from short_round [OF s(1) this s(3-5)] s(6,7) show ?case by (auto simp: algebra_simps)
qed

text \<open>
  So the client may log that it has finished sending and receiving when it has read 100 of the 102400
  bytes it has sent, without an error on either side.
\<close>

lemma client_finishes_short:
  "\<exists>s. echo_reachable s \<and> cl s = C_Done \<and> session_pc (sv s) = S_Read \<and> length (cl_sent s) = 102400 \<and> length (cl_got s) = 100"
proof -
  obtain s where "echo_reachable s" "cl s = fst (client_loop client_count)" "session_pc (sv s) = S_Read"
    "length (cl_sent s) = client_max_length * client_count" "length (cl_got s) = client_count"
    using short_rounds [of client_count] by auto
  then show ?thesis
    by (intro exI [of _ s]) (simp add: client_loop_eq client_finish_def client_max_length_def client_count_def)
qed

end
