(* ===== verification/Tcp_System.thy ===== *)
theory Tcp_System
  imports Tcp_Server
begin

text \<open>
  The echo server of \<open>src/test_tcp_server.cpp\<close> as a whole: the accept loop, the executors that
  post to the contexts of the pool, the threads that run the contexts, and all the sessions
  between them. A session is scheduled on the executor of its context, and so is every resumption
  after a completion; a context runs what was posted to it, first come first served. Which thread
  runs next, which operation completes next and what it delivers is open: the steps interleave.
\<close>

section \<open>The state\<close>

text \<open>What is posted: the start of a session, or its resumption with a completion.\<close>

datatype task = Begin nat | Resume nat session_event

fun task_session :: "task \<Rightarrow> nat" where
  "task_session (Begin k) = k"
| "task_session (Resume k e) = k"

text \<open>
  A connection: the context of its socket, the executor of its session, the session's coroutine
  once it has begun, and what it has done. For the statements: the completions of its operations
  so far, and the contexts whose threads have run its code.
\<close>

record connection =
  conn_ctx :: ctx_ptr
  conn_executor :: "ctx_ptr executor"
  conn_session :: "session option"
  conn_actions :: "session_action list"
  conn_events :: "session_event list"
  conn_ran_on :: "ctx_ptr list"

text \<open>\<open>sys_socket\<close> is the context of the socket that the pending accept is for.\<close>

record tcp_system =
  sys_server :: tcp_server
  sys_socket :: ctx_ptr
  sys_posted :: "(ctx_ptr \<times> task) list"
  sys_conns :: "connection list"

section \<open>The steps\<close>

definition system_begin :: "io_context_pool \<Rightarrow> (string + server_error) + tcp_system" where
  "system_begin pool =
     (case TcpServer_start None (TcpServer pool) [] of
        Inl e \<Rightarrow> Inl e
      | Inr (srv, context, as) \<Rightarrow>
          Inr \<lparr>sys_server = srv, sys_socket = context, sys_posted = [], sys_conns = []\<rparr>)"

text \<open>\<open>session(...).scheduleOn(&executor).start()\<close>.\<close>

definition schedule_session :: "ctx_ptr \<Rightarrow> ctx_ptr executor \<Rightarrow> tcp_system \<Rightarrow> tcp_system" where
  "schedule_session context ex s =
     s\<lparr>sys_posted := executor_add ex (Begin (length (sys_conns s))) (sys_posted s),
       sys_conns := sys_conns s @ [\<lparr>conn_ctx = context, conn_executor = ex, conn_session = None,
         conn_actions = [], conn_events = [], conn_ran_on = []\<rparr>]\<rparr>"

fun accept_effect :: "accept_action list \<Rightarrow> tcp_system \<Rightarrow> tcp_system" where
  "accept_effect [] s = s"
| "accept_effect (Session_scheduled context ex # as) s = accept_effect as (schedule_session context ex s)"
| "accept_effect (_ # as) s = accept_effect as s"

text \<open>The accept completes: the rest of the round, and the next round up to its \<open>co_await\<close>.\<close>

definition system_accept :: "error_code \<Rightarrow> tcp_system \<Rightarrow> server_error + tcp_system" where
  "system_accept ec s =
     (case accept_end (sys_server s) (sys_socket s) ec of
        Inl e \<Rightarrow> Inl e
      | Inr as \<Rightarrow>
          (case accept_begin (sys_server s) of
             Inl e \<Rightarrow> Inl e
           | Inr (srv, context, bs) \<Rightarrow>
               Inr ((accept_effect as s)\<lparr>sys_server := srv, sys_socket := context\<rparr>)))"

text \<open>An operation of session \<open>k\<close> completes: its resumption is posted to the session's executor.\<close>

definition awaits :: "session \<Rightarrow> session_event \<Rightarrow> bool" where
  "awaits ss e \<longleftrightarrow>
     (case e of
        Timer_done ec \<Rightarrow> session_pc ss = S_Timer
      | Read_done ec bs \<Rightarrow> session_pc ss = S_Read
      | Write_done ec n \<Rightarrow> session_pc ss = S_Write)"

definition system_complete :: "nat \<Rightarrow> session_event \<Rightarrow> tcp_system \<Rightarrow> tcp_system" where
  "system_complete k e s =
     (let conn = sys_conns s ! k
      in s\<lparr>sys_posted := executor_add (conn_executor conn) (Resume k e) (sys_posted s),
           sys_conns := (sys_conns s)[k := conn\<lparr>conn_events := conn_events conn @ [e]\<rparr>]\<rparr>)"

text \<open>The thread of context \<open>c\<close> runs a task.\<close>

definition run_task :: "ctx_ptr \<Rightarrow> task \<Rightarrow> connection \<Rightarrow> connection" where
  "run_task c t conn =
     (let (ss, as) = (case (t, conn_session conn) of
            (Begin k, _) \<Rightarrow> session_begin
          | (Resume k e, Some ss) \<Rightarrow> session_step ss e
          | (Resume k e, None) \<Rightarrow> session_begin)
      in conn\<lparr>conn_session := Some ss, conn_actions := conn_actions conn @ as,
              conn_ran_on := conn_ran_on conn @ [c]\<rparr>)"

definition system_run :: "ctx_ptr \<Rightarrow> task \<Rightarrow> tcp_system \<Rightarrow> tcp_system" where
  "system_run c t s =
     (let k = task_session t
      in s\<lparr>sys_posted := remove1 (c, t) (sys_posted s),
           sys_conns := (sys_conns s)[k := run_task c t (sys_conns s ! k)]\<rparr>)"

definition next_task :: "ctx_ptr \<Rightarrow> (ctx_ptr \<times> task) list \<Rightarrow> task option" where
  "next_task c posted = map_option snd (List.find (\<lambda>p. fst p = c) posted)"

inductive system_step :: "tcp_system \<Rightarrow> tcp_system \<Rightarrow> bool" where
  accept: "system_accept ec s = Inr s' \<Longrightarrow> system_step s s'"
| complete: "k < length (sys_conns s) \<Longrightarrow> conn_session (sys_conns s ! k) = Some ss \<Longrightarrow> awaits ss e \<Longrightarrow>
    \<forall>(c, t)\<in>set (sys_posted s). task_session t \<noteq> k \<Longrightarrow> system_step s (system_complete k e s)"
| run: "next_task c (sys_posted s) = Some t \<Longrightarrow> system_step s (system_run c t s)"

section \<open>Invariant\<close>

definition tasks_of :: "nat \<Rightarrow> (ctx_ptr \<times> task) list \<Rightarrow> task list" where
  "tasks_of k posted = filter (\<lambda>t. task_session t = k) (map snd posted)"

text \<open>
  A session that has not begun waits for its \<open>Begin\<close>; one that has is where the completions it
  has been resumed with take it, and the others are posted.
\<close>

definition conn_ok :: "task list \<Rightarrow> nat \<Rightarrow> connection \<Rightarrow> bool" where
  "conn_ok ts k conn \<longleftrightarrow>
     conn_executor conn = \<lparr>m_io_context = conn_ctx conn\<rparr> \<and> set (conn_ran_on conn) \<subseteq> {conn_ctx conn}
     \<and> (case conn_session conn of
          None \<Rightarrow> ts = [Begin k] \<and> conn_events conn = [] \<and> conn_actions conn = []
        | Some ss \<Rightarrow> \<exists>es rest. conn_events conn = es @ rest \<and> ts = map (Resume k) rest
            \<and> ss = fst (session_run (fst session_begin) es)
            \<and> conn_actions conn = snd session_begin @ snd (session_run (fst session_begin) es))"

definition posted_ok :: "tcp_system \<Rightarrow> bool" where
  "posted_ok s \<longleftrightarrow> (\<forall>(c, t)\<in>set (sys_posted s).
     task_session t < length (sys_conns s) \<and> c = conn_ctx (sys_conns s ! task_session t))"

definition system_inv :: "tcp_system \<Rightarrow> bool" where
  "system_inv s \<longleftrightarrow> server_inv (sys_server s)
     \<and> m_executor_map (sys_server s) (sys_socket s) = Some \<lparr>m_io_context = sys_socket s\<rparr>
     \<and> posted_ok s
     \<and> (\<forall>k<length (sys_conns s). conn_ok (tasks_of k (sys_posted s)) k (sys_conns s ! k))"

lemma tasks_of_append [simp]: "tasks_of k (xs @ ys) = tasks_of k xs @ tasks_of k ys"
  by (simp add: tasks_of_def)

lemma tasks_of_simps [simp]:
  "tasks_of k [] = []"
  "tasks_of k ((c, t) # xs) = (if task_session t = k then t # tasks_of k xs else tasks_of k xs)"
  by (simp_all add: tasks_of_def)

lemma tasks_of_empty: "(\<And>c t. (c, t) \<in> set xs \<Longrightarrow> task_session t \<noteq> k) \<Longrightarrow> tasks_of k xs = []"
  by (force simp: tasks_of_def filter_empty_conv)

lemma conn_begunI:
  "conn_executor conn = \<lparr>m_io_context = conn_ctx conn\<rparr> \<Longrightarrow> set (conn_ran_on conn) \<subseteq> {conn_ctx conn} \<Longrightarrow>
   conn_session conn = Some (fst (session_run (fst session_begin) es)) \<Longrightarrow> conn_events conn = es @ rest \<Longrightarrow>
   ts = map (Resume k) rest \<Longrightarrow>
   conn_actions conn = snd session_begin @ snd (session_run (fst session_begin) es) \<Longrightarrow> conn_ok ts k conn"
  unfolding conn_ok_def by (simp, blast)

lemma conn_begunE:
  assumes "conn_ok ts k conn" and "conn_session conn = Some ss"
  obtains es rest where "conn_events conn = es @ rest" "ts = map (Resume k) rest"
    "ss = fst (session_run (fst session_begin) es)"
    "conn_actions conn = snd session_begin @ snd (session_run (fst session_begin) es)"
    "conn_executor conn = \<lparr>m_io_context = conn_ctx conn\<rparr>" "set (conn_ran_on conn) \<subseteq> {conn_ctx conn}"
  using assms unfolding conn_ok_def by auto

lemma session_run_snoc:
  "session_run s (es @ [e]) =
     (let (s1, as) = session_run s es; (s2, bs) = session_step s1 e in (s2, as @ bs))"
  by (induction es arbitrary: s) (simp_all add: case_prod_unfold Let_def)

subsection \<open>Accepting\<close>

lemma schedule_session_ok:
  assumes "posted_ok s" and "\<forall>k<length (sys_conns s). conn_ok (tasks_of k (sys_posted s)) k (sys_conns s ! k)"
  shows "posted_ok (schedule_session c \<lparr>m_io_context = c\<rparr> s)"
    and "\<forall>k<length (sys_conns (schedule_session c \<lparr>m_io_context = c\<rparr> s)).
      conn_ok (tasks_of k (sys_posted (schedule_session c \<lparr>m_io_context = c\<rparr> s))) k
        (sys_conns (schedule_session c \<lparr>m_io_context = c\<rparr> s) ! k)"
proof -
  show "posted_ok (schedule_session c \<lparr>m_io_context = c\<rparr> s)"
    using assms(1) by (auto simp: posted_ok_def schedule_session_def executor_add_def nth_append)
  have fresh_ok: "conn_ok [Begin k] k \<lparr>conn_ctx = c, conn_executor = \<lparr>m_io_context = c\<rparr>, conn_session = None,
      conn_actions = [], conn_events = [], conn_ran_on = []\<rparr>" for k
    by (simp add: conn_ok_def)
  have "tasks_of (length (sys_conns s)) (sys_posted s) = []"
    using assms(1) by (intro tasks_of_empty) (auto simp: posted_ok_def)
  then show "\<forall>k<length (sys_conns (schedule_session c \<lparr>m_io_context = c\<rparr> s)).
      conn_ok (tasks_of k (sys_posted (schedule_session c \<lparr>m_io_context = c\<rparr> s))) k
        (sys_conns (schedule_session c \<lparr>m_io_context = c\<rparr> s) ! k)"
    using assms(2) fresh_ok by (auto simp: schedule_session_def executor_add_def nth_append less_Suc_eq)
qed

lemma system_accept_result:
  assumes "system_inv s"
  shows "\<exists>s'. system_accept ec s = Inr s' \<and> system_inv s'"
proof -
  let ?srv = "sys_server s" and ?c = "sys_socket s"
  have inv: "server_inv ?srv" and ex: "m_executor_map ?srv ?c = Some \<lparr>m_io_context = ?c\<rparr>"
    and conns: "posted_ok s" "\<forall>k<length (sys_conns s). conn_ok (tasks_of k (sys_posted s)) k (sys_conns s ! k)"
    using assms by (simp_all add: system_inv_def)
  obtain srv' c' bs where b: "accept_begin ?srv = Inr (srv', c', bs)" "server_inv srv'"
    "m_executor_map srv' c' = Some \<lparr>m_io_context = c'\<rparr>"
    using accept_begin_result [OF inv] by blast
  show ?thesis
    using accept_end_result [OF ex, of ec] b conns schedule_session_ok [OF conns, of ?c]
    by (auto simp: system_accept_def system_inv_def posted_ok_def schedule_session_def)
qed

subsection \<open>Completing and running\<close>

lemma system_complete_inv:
  assumes "system_inv s" and k: "k < length (sys_conns s)" and "conn_session (sys_conns s ! k) = Some ss"
  shows "system_inv (system_complete k e s)"
proof -
  let ?conn = "sys_conns s ! k" and ?s = "system_complete k e s"
  have ok: "conn_ok (tasks_of j (sys_posted s)) j (sys_conns s ! j)" if "j < length (sys_conns s)" for j
    using assms(1) that by (simp add: system_inv_def)
  have ex: "conn_executor ?conn = \<lparr>m_io_context = conn_ctx ?conn\<rparr>" using ok [OF k] by (simp add: conn_ok_def)
  have posted: "sys_posted ?s = sys_posted s @ [(conn_ctx ?conn, Resume k e)]"
    by (simp add: system_complete_def Let_def executor_add_def ex)
  have conns: "sys_conns ?s = (sys_conns s)[k := ?conn\<lparr>conn_events := conn_events ?conn @ [e]\<rparr>]"
    by (simp add: system_complete_def Let_def)
  have "conn_ok (tasks_of k (sys_posted s) @ [Resume k e]) k (?conn\<lparr>conn_events := conn_events ?conn @ [e]\<rparr>)"
  proof (rule conn_begunE [OF ok [OF k] assms(3)], goal_cases)
    case (1 es rest)
    then show ?case using assms(3) by (intro conn_begunI [where es = es and rest = "rest @ [e]"]) simp_all
  qed
  then have "\<forall>j<length (sys_conns ?s). conn_ok (tasks_of j (sys_posted ?s)) j (sys_conns ?s ! j)"
    using ok k by (auto simp: posted conns nth_list_update)
  moreover have "posted_ok ?s"
    using assms(1) k by (auto simp: posted conns system_inv_def posted_ok_def nth_list_update)
  ultimately show ?thesis
    using assms(1) by (simp add: system_inv_def) (simp add: system_complete_def Let_def)
qed

lemma next_task_split:
  assumes "next_task c posted = Some t"
  shows "\<exists>pre post. posted = pre @ (c, t) # post \<and> (\<forall>p\<in>set pre. fst p \<noteq> c) \<and> remove1 (c, t) posted = pre @ post"
proof -
  obtain i where i: "i < length posted" "posted ! i = (c, t)" "\<forall>j<i. fst (posted ! j) \<noteq> c"
    using assms by (fastforce simp: next_task_def find_Some_iff prod_eq_iff)
  have pre: "\<forall>p\<in>set (take i posted). fst p \<noteq> c" 
  proof
    fix p
    assume "p \<in> set (take i posted)"
    then obtain j where "j < i" "p = posted ! j" by (auto simp: in_set_conv_nth)
    then show "fst p \<noteq> c" using i(3) by simp
  qed
  have eq: "posted = take i posted @ (c, t) # drop (Suc i) posted" using i id_take_nth_drop by metis
  have "(c, t) \<notin> set (take i posted)" using pre by auto
  then have "remove1 (c, t) posted = take i posted @ drop (Suc i) posted"
    by (subst eq) (simp add: remove1_append)
  with eq pre show ?thesis by blast
qed

text \<open>The task is the oldest of its session, too.\<close>

lemma next_task_of_session:
  assumes "posted_ok s" and "next_task c (sys_posted s) = Some t"
  shows "tasks_of (task_session t) (sys_posted s) = t # tasks_of (task_session t) (remove1 (c, t) (sys_posted s))"
    and "j \<noteq> task_session t \<Longrightarrow> tasks_of j (remove1 (c, t) (sys_posted s)) = tasks_of j (sys_posted s)"
    and "task_session t < length (sys_conns s)" and "c = conn_ctx (sys_conns s ! task_session t)"
proof -
  obtain pre post where split: "sys_posted s = pre @ (c, t) # post" "\<forall>p\<in>set pre. fst p \<noteq> c"
    "remove1 (c, t) (sys_posted s) = pre @ post"
    using next_task_split [OF assms(2)] by blast
  have at: "\<And>c' t'. (c', t') \<in> set (sys_posted s) \<Longrightarrow> task_session t' < length (sys_conns s) \<and> c' = conn_ctx (sys_conns s ! task_session t')"
    using assms(1) by (auto simp: posted_ok_def)
  from at [of c t] show c: "task_session t < length (sys_conns s)" "c = conn_ctx (sys_conns s ! task_session t)"
    by (simp_all add: split(1))
  have "tasks_of (task_session t) pre = []"
  proof (rule tasks_of_empty)
    fix c' t'
    assume pre: "(c', t') \<in> set pre"
    then have "c' \<noteq> c" using split(2) by auto
    moreover have "c' = conn_ctx (sys_conns s ! task_session t')" using at pre by (simp add: split(1))
    ultimately show "task_session t' \<noteq> task_session t" using c(2) by metis
  qed
  then show "tasks_of (task_session t) (sys_posted s) = t # tasks_of (task_session t) (remove1 (c, t) (sys_posted s))"
    unfolding split(3) by (simp add: split(1))
  show "j \<noteq> task_session t \<Longrightarrow> tasks_of j (remove1 (c, t) (sys_posted s)) = tasks_of j (sys_posted s)"
    unfolding split(3) by (simp add: split(1))
qed

lemma run_task_ok:
  assumes "conn_ok (t # ts) k conn" and "c = conn_ctx conn"
  shows "conn_ok ts k (run_task c t conn)"
proof (cases "conn_session conn")
  case None
  then have "t = Begin k" "ts = []" "conn_events conn = []" "conn_actions conn = []"
    "conn_executor conn = \<lparr>m_io_context = c\<rparr>" "set (conn_ran_on conn) \<subseteq> {c}"
    using assms by (auto simp: conn_ok_def)
  then show ?thesis
    using assms(2) by (intro conn_begunI [where es = "[]" and rest = "[]"]) (simp_all add: run_task_def case_prod_unfold Let_def)
next
  case (Some ss)
  show ?thesis
  proof (rule conn_begunE [OF assms(1) Some], goal_cases)
    case (1 es rest')
    then obtain e rest where rest: "rest' = e # rest" "t = Resume k e" "ts = map (Resume k) rest" by auto
    show ?case
      using 1 rest Some assms(2)
      by (intro conn_begunI [where es = "es @ [e]" and rest = rest])
        (simp_all add: run_task_def session_run_snoc case_prod_unfold Let_def)
  qed
qed

lemma length_system_run: "length (sys_conns (system_run c t s)) = length (sys_conns s)"
  by (simp add: system_run_def Let_def)

lemma system_run_inv:
  assumes "system_inv s" and t: "next_task c (sys_posted s) = Some t"
  shows "system_inv (system_run c t s)"
proof -
  let ?k = "task_session t" and ?s = "system_run c t s"
  have posted: "posted_ok s" using assms(1) by (simp add: system_inv_def)
  note task = next_task_of_session [OF posted t]
  have ok: "conn_ok (tasks_of j (sys_posted s)) j (sys_conns s ! j)" if "j < length (sys_conns s)" for j
    using assms(1) that by (simp add: system_inv_def)
  have s: "sys_posted ?s = remove1 (c, t) (sys_posted s)" "sys_conns ?s = (sys_conns s)[?k := run_task c t (sys_conns s ! ?k)]"
    "sys_server ?s = sys_server s" "sys_socket ?s = sys_socket s"
    by (simp_all add: system_run_def Let_def)
  have "conn_ok (tasks_of ?k (sys_posted ?s)) ?k (run_task c t (sys_conns s ! ?k))"
    using run_task_ok [OF ok [OF task(3), unfolded task(1)] task(4)] by (simp add: s)
  then have "\<forall>j<length (sys_conns ?s). conn_ok (tasks_of j (sys_posted ?s)) j (sys_conns ?s ! j)"
    using ok task(2,3) by (simp add: s nth_list_update)
  moreover have "conn_ctx (run_task c t conn) = conn_ctx conn" for conn
    by (simp add: run_task_def case_prod_unfold Let_def)
  then have "conn_ctx (sys_conns ?s ! j) = conn_ctx (sys_conns s ! j)" if "j < length (sys_conns s)" for j
    using that by (cases "j = ?k") (simp_all add: s)
  then have "posted_ok ?s"
    using posted set_remove1_subset [of "(c, t)" "sys_posted s"] by (fastforce simp: s(1) posted_ok_def length_system_run)
  ultimately show ?thesis
    using assms(1) by (simp add: system_inv_def s)
qed

lemma system_step_inv: "system_step s s' \<Longrightarrow> system_inv s \<Longrightarrow> system_inv s'"
proof (induction rule: system_step.induct)
  case (accept ec s s')
  then show ?case using system_accept_result [of s ec] by auto
qed (simp_all add: system_complete_inv system_run_inv)

lemma system_reachable_inv: "system_step\<^sup>*\<^sup>* s s' \<Longrightarrow> system_inv s \<Longrightarrow> system_inv s'"
  by (induction rule: rtranclp_induct) (auto intro: system_step_inv)

lemma system_begin_inv:
  assumes "IoContextPool n w = Inr (w', pool)" and "system_begin pool = Inr s"
  shows "system_inv s"
proof -
  note new = IoContextPool_inv [OF assms(1)]
  obtain p' where get: "getIoContext pool = Some (m_io_contexts pool ! 0, p')"
    using getIoContext_result [OF new(1)] by (simp add: new(5))
  have "server_inv ((TcpServer pool)\<lparr>m_pool := p'\<rparr>)"
    using getIoContext_preserves(1) [OF new(1) get] by (simp add: server_inv_def TcpServer_def)
  from accept_begin_result [OF this] obtain srv' c' as where
    "accept_begin ((TcpServer pool)\<lparr>m_pool := p'\<rparr>) = Inr (srv', c', as)" "server_inv srv'"
    "m_executor_map srv' c' = Some \<lparr>m_io_context = c'\<rparr>" by blast
  then show ?thesis
    using assms(2) get
    by (auto simp: system_begin_def TcpServer_start_def TcpServer_def system_inv_def posted_ok_def)
qed

lemma system_run_to_inv:
  assumes "IoContextPool n w = Inr (w', pool)" and "system_begin pool = Inr s0" and "system_step\<^sup>*\<^sup>* s0 s"
  shows "system_inv s"
  using system_reachable_inv [OF assms(3)] system_begin_inv [OF assms(1,2)] by blast

section \<open>Properties\<close>

text \<open>
  C8. The sessions do not disturb each other. However accepts, completions and the threads of the
  contexts interleave, a session that has begun is in the state, and has done the actions, of a
  session alone that was resumed with the first of its own completions, in order; the others are
  still posted. So it writes exactly what its own reads have delivered, and its code has run on
  the thread of its own context only.
\<close>

theorem sessions_isolated:
  assumes "IoContextPool n w = Inr (w', pool)" and "system_begin pool = Inr s0" and "system_step\<^sup>*\<^sup>* s0 s"
    and "k < length (sys_conns s)" and "conn_session (sys_conns s ! k) = Some ss"
  shows "\<exists>es rest. conn_events (sys_conns s ! k) = es @ rest
     \<and> tasks_of k (sys_posted s) = map (Resume k) rest
     \<and> ss = fst (session_run (fst session_begin) es)
     \<and> conn_actions (sys_conns s ! k) = snd session_begin @ snd (session_run (fst session_begin) es)
     \<and> written (conn_actions (sys_conns s ! k)) = received (fst session_begin) es
     \<and> set (conn_ran_on (sys_conns s ! k)) \<subseteq> {conn_ctx (sys_conns s ! k)}"
proof -
  have "conn_ok (tasks_of k (sys_posted s)) k (sys_conns s ! k)"
    using system_run_to_inv [OF assms(1-3)] assms(4) by (simp add: system_inv_def)
  from this assms(5) show ?thesis
  proof (rule conn_begunE)
    fix es rest
    assume facts: "conn_events (sys_conns s ! k) = es @ rest" "tasks_of k (sys_posted s) = map (Resume k) rest"
      "ss = fst (session_run (fst session_begin) es)" "set (conn_ran_on (sys_conns s ! k)) \<subseteq> {conn_ctx (sys_conns s ! k)}"
      and acts: "conn_actions (sys_conns s ! k) = snd session_begin @ snd (session_run (fst session_begin) es)"
    have "written (conn_actions (sys_conns s ! k)) = received (fst session_begin) es"
      unfolding acts by (simp add: written_run) (simp add: step_simps)
    with facts acts show ?thesis by blast
  qed
qed

text \<open>Two connections, the second of which has begun: a state for the witnesses.\<close>

definition demo_run :: "io_context_pool \<Rightarrow> tcp_system option" where
  "demo_run pool =
     (case system_begin pool of Inl e \<Rightarrow> None | Inr s0 \<Rightarrow>
     (case system_accept No_error s0 of Inl e \<Rightarrow> None | Inr s1 \<Rightarrow>
     (case system_accept No_error s1 of Inl e \<Rightarrow> None | Inr s2 \<Rightarrow>
     (case next_task 0 (sys_posted s2) of None \<Rightarrow> None | Some t \<Rightarrow> Some (system_run 0 t s2)))))"

lemma demo_run_steps:
  assumes "demo_run pool = Some s"
  shows "\<exists>s0. system_begin pool = Inr s0 \<and> system_step\<^sup>*\<^sup>* s0 s"
proof -
  obtain s0 s1 s2 t where "system_begin pool = Inr s0" "system_accept No_error s0 = Inr s1"
    "system_accept No_error s1 = Inr s2" "next_task 0 (sys_posted s2) = Some t" "s = system_run 0 t s2"
    using assms by (auto simp: demo_run_def split: sum.splits option.splits)
  then show ?thesis
    by (metis (no_types) system_step.accept system_step.run rtranclp.rtrancl_into_rtrancl rtranclp.rtrancl_refl)
qed

definition demo_pool :: io_context_pool where
  "demo_pool = \<lparr>m_io_contexts = [0, 1], m_work = [0, 1], m_next_io_context = 0, m_threads = []\<rparr>"

lemma demo_pool: "\<exists>w'. IoContextPool 2 empty_world = Inr (w', demo_pool)"
  using IoContextPool_result [of 2 empty_world] by (auto simp: empty_world_def demo_pool_def upt_rec)

lemma demo_state:
  "\<exists>s. demo_run demo_pool = Some s \<and> length (sys_conns s) = 2
     \<and> conn_session (sys_conns s ! 1) = Some (fst session_begin) \<and> conn_events (sys_conns s ! 1) = []"
  by (simp add: demo_run_def demo_pool_def system_begin_def TcpServer_start_def TcpServer_def getIoContext_def Let_def
      accept_begin_def accept_end_def step_simps system_accept_def schedule_session_def executor_add_def Executor_def failed_def
      next_task_def system_run_def run_task_def)

theorem sessions_isolated_witness:
  "\<exists>s. demo_run demo_pool = Some s \<and> written (conn_actions (sys_conns s ! 1)) = []
     \<and> set (conn_ran_on (sys_conns s ! 1)) \<subseteq> {conn_ctx (sys_conns s ! 1)}"
proof -
  obtain w' s s0 where w: "IoContextPool 2 empty_world = Inr (w', demo_pool)" and
    s: "demo_run demo_pool = Some s" "length (sys_conns s) = 2" "conn_session (sys_conns s ! 1) = Some (fst session_begin)"
    "conn_events (sys_conns s ! 1) = []" and s0: "system_begin demo_pool = Inr s0" "system_step\<^sup>*\<^sup>* s0 s"
    using demo_pool demo_state demo_run_steps by blast
  from sessions_isolated [OF w s0, of 1 "fst session_begin"] s show ?thesis by auto
qed

text \<open>
  Nothing gets stuck. In every state the server can reach, the accept loop goes on whatever its
  accept completes with (no context is read out of range, no executor is missing); and every session
  has ended, or has a task posted to a context of the pool, which that context will run in turn,
  or waits for an operation whose completion is a step.
\<close>

lemma system_progress:
  assumes "IoContextPool n w = Inr (w', pool)" and "system_begin pool = Inr s0" and "system_step\<^sup>*\<^sup>* s0 s"
    and "k < length (sys_conns s)"
  shows "(\<forall>ec. \<exists>s'. system_accept ec s = Inr s')
     \<and> ((\<exists>ss. conn_session (sys_conns s ! k) = Some ss \<and> session_pc ss = S_Done)
        \<or> (\<exists>t t'. (conn_ctx (sys_conns s ! k), t) \<in> set (sys_posted s) \<and> task_session t = k
             \<and> next_task (conn_ctx (sys_conns s ! k)) (sys_posted s) = Some t')
        \<or> (\<exists>e. system_step s (system_complete k e s)))"
proof -
  have inv: "system_inv s" by (rule system_run_to_inv [OF assms(1-3)])
  have ok: "conn_ok (tasks_of k (sys_posted s)) k (sys_conns s ! k)" using inv assms(4) by (simp add: system_inv_def)
  let ?c = "conn_ctx (sys_conns s ! k)"
  have posted: "\<exists>t t'. (?c, t) \<in> set (sys_posted s) \<and> task_session t = k \<and> next_task ?c (sys_posted s) = Some t'"
    if "(c, t) \<in> set (sys_posted s)" "task_session t = k" for c t
  proof -
    have "c = ?c" using inv that by (auto simp: system_inv_def posted_ok_def)
    moreover have "List.find (\<lambda>p. fst p = c) (sys_posted s) \<noteq> None" using that(1) unfolding find_None_iff by (metis fst_conv)
    ultimately show ?thesis using that by (auto simp: next_task_def)
  qed
  have "(\<exists>ss. conn_session (sys_conns s ! k) = Some ss \<and> session_pc ss = S_Done)
      \<or> (\<exists>c t. (c, t) \<in> set (sys_posted s) \<and> task_session t = k) \<or> (\<exists>e. system_step s (system_complete k e s))"
  proof (cases "conn_session (sys_conns s ! k)")
    case None
    then have "Begin k \<in> set (tasks_of k (sys_posted s))" using ok by (simp add: conn_ok_def)
    then obtain c where "(c, Begin k) \<in> set (sys_posted s)" by (auto simp: tasks_of_def)
    then show ?thesis by (metis task_session.simps(1))
  next
    case (Some ss)
    have "\<exists>e. awaits ss e" if "session_pc ss \<noteq> S_Done"
    proof (cases "session_pc ss")
      case S_Timer then show ?thesis by (intro exI [of _ "Timer_done No_error"]) (simp add: awaits_def)
    next
      case S_Read then show ?thesis by (intro exI [of _ "Read_done No_error []"]) (simp add: awaits_def)
    next
      case S_Write then show ?thesis by (intro exI [of _ "Write_done No_error 0"]) (simp add: awaits_def)
    qed (use that in simp)
    with Some show ?thesis using system_step.complete [OF assms(4) Some] by blast
  qed
  with posted show ?thesis using system_accept_result [OF inv] by blast
qed

section \<open>The load of the contexts\<close>

text \<open>The contexts that sessions are scheduled on, in the order of the accepts.\<close>

fun scheduled_on :: "accept_action list \<Rightarrow> ctx_ptr list" where
  "scheduled_on [] = []"
| "scheduled_on (Session_scheduled c ex # as) = c # scheduled_on as"
| "scheduled_on (_ # as) = scheduled_on as"

lemma scheduled_on_append [simp]: "scheduled_on (as @ bs) = scheduled_on as @ scheduled_on bs"
  by (induction as rule: scheduled_on.induct) simp_all

lemma scheduled_rounds:
  "(\<And>k. k < length ecs \<Longrightarrow> \<not> failed (ecs ! k)) \<Longrightarrow>
   scheduled_on (concat (map (\<lambda>k. round_actions (f k) (ecs ! k)) [0..<n])) = map f [0..<n]" if "n \<le> length ecs"
  using that by (induction n) (simp_all add: round_actions_def)

text \<open>
  C22. Balance: while every accept succeeds, each of the pool's contexts has been given
  \<open>sessions div pool_size\<close> sessions, or one more.
\<close>

theorem sessions_balanced:
  assumes "IoContextPool n w = Inr (w', pool)" and "\<forall>ec\<in>set ecs. \<not> failed ec"
    and "TcpServer_start None (TcpServer pool) ecs = Inr (srv, pending, as)" and "c \<in> set (m_io_contexts pool)"
  shows "length ecs div unat n \<le> count_list (scheduled_on as) c
     \<and> count_list (scheduled_on as) c \<le> Suc (length ecs div unat n)"
proof -
  note new = IoContextPool_inv [OF assms(1)]
  have "scheduled_on as = map (\<lambda>k. m_io_contexts pool ! ((1 + k) mod length (m_io_contexts pool))) [0..<length ecs]"
    using accept_rounds [OF assms(1), of ecs] assms(2,3) scheduled_rounds [of "length ecs" ecs]
    by (simp add: Let_def new(3))
  moreover have "distinct (m_io_contexts pool)" using new(1) by (simp add: pool_inv_def)
  ultimately show ?thesis using pool_rr.balanced_map [OF _ assms(4), of "length ecs" 1] by (simp add: new(3))
qed

theorem sessions_balanced_witness:
  "\<exists>srv pending as. TcpServer_start None (TcpServer demo_pool) [No_error, No_error, No_error] = Inr (srv, pending, as)
     \<and> 1 \<le> count_list (scheduled_on as) 0"
proof -
  obtain w' where w: "IoContextPool 2 empty_world = Inr (w', demo_pool)" using demo_pool by blast
  obtain r where r: "TcpServer_start None (TcpServer demo_pool) [No_error, No_error, No_error] = Inr r"
    using accept_rounds [OF w, of "[No_error, No_error, No_error]"] by (auto simp: Let_def)
  obtain srv pending as where "r = (srv, pending, as)" by (cases r)
  with r sessions_balanced [OF w, of "[No_error, No_error, No_error]" srv pending as 0] show ?thesis
    by (simp add: failed_def demo_pool_def)
qed

end
