(* ===== verification/Tcp_Network.thy ===== *)
theory Tcp_Network
  imports Simulation Tcp_System Tcp_Echo "HOL-Library.Sublist"
begin

text \<open>
  The echo server of \<open>src/test_tcp_server.cpp\<close> and any number of clients of
  \<open>src/test_tcp_client.cpp\<close>: the whole server of \<open>Tcp_System\<close> with the coroutine of \<open>Tcp_Client\<close> at
  the other end of every connection. A direction of a connection delivers in order; a write may
  fail after a part of its bytes, and nothing gets through in that direction afterwards. Both
  programs ignore the result of a write and go on to read. Each connection refines the pair of
  \<open>Tcp_Echo\<close>, in which no write fails.
\<close>

section \<open>The state\<close>

text \<open>
  A connection as the client and the network see it: the client, the bytes on their way to the
  server and to the client, whether a direction is cut, and what the client has written and read.
\<close>

record link =
  lk_client :: client_pc
  lk_up :: bytes
  lk_down :: bytes
  lk_up_cut :: bool
  lk_down_cut :: bool
  lk_sent :: bytes
  lk_got :: bytes

text \<open>The link of the connection with index \<open>k\<close> in \<open>sys_conns\<close> is the one with index \<open>k\<close>.\<close>

record network =
  net_sys :: tcp_system
  net_links :: "link list"

definition new_link :: "client_pc \<Rightarrow> link" where
  "new_link c = \<lparr>lk_client = c, lk_up = [], lk_down = [], lk_up_cut = False, lk_down_cut = False,
     lk_sent = [], lk_got = []\<rparr>"

definition net_begin :: "tcp_system \<Rightarrow> network" where
  "net_begin s = \<lparr>net_sys = s, net_links = []\<rparr>"

section \<open>The steps\<close>

text \<open>The bytes of the write that the session waits for, if it waits for one.\<close>

definition pending_write :: "session_action list \<Rightarrow> bytes" where
  "pending_write as = (case rev as of Started (Op_write bs) # rest \<Rightarrow> bs | _ \<Rightarrow> [])"

text \<open>An operation of the session completes: \<open>w\<close> is its pending write.\<close>

inductive link_server :: "bytes \<Rightarrow> link \<Rightarrow> session_event \<Rightarrow> link \<Rightarrow> bool" where
  timer: "link_server w l (Timer_done ec) l"
| read: "0 < m \<Longrightarrow> m \<le> max_length \<Longrightarrow> m \<le> length (lk_up l) \<Longrightarrow>
    link_server w l (Read_done No_error (take m (lk_up l))) (l\<lparr>lk_up := drop m (lk_up l)\<rparr>)"
| read_fail: "failed ec \<Longrightarrow> link_server w l (Read_done ec []) l"
| write_ok: "\<not> lk_down_cut l \<Longrightarrow>
    link_server w l (Write_done No_error (length w)) (l\<lparr>lk_down := lk_down l @ w\<rparr>)"
| write_fail: "failed ec \<Longrightarrow> (if lk_down_cut l then m = 0 else m \<le> length w) \<Longrightarrow>
    link_server w l (Write_done ec m) (l\<lparr>lk_down := lk_down l @ take m w, lk_down_cut := True\<rparr>)"

text \<open>An operation of the client completes, and its coroutine goes on to the next.\<close>

inductive link_client :: "link \<Rightarrow> link \<Rightarrow> bool" where
  write_ok: "lk_client l = C_Write i \<Longrightarrow> \<not> lk_up_cut l \<Longrightarrow>
    client_step (lk_client l) (Write_completed No_error (length write_buf)) = (c, as) \<Longrightarrow>
    link_client l (l\<lparr>lk_client := c, lk_up := lk_up l @ write_buf, lk_sent := lk_sent l @ write_buf\<rparr>)"
| write_fail: "lk_client l = C_Write i \<Longrightarrow> failed ec \<Longrightarrow>
    (if lk_up_cut l then m = 0 else m \<le> length write_buf) \<Longrightarrow>
    client_step (lk_client l) (Write_completed ec m) = (c, as) \<Longrightarrow>
    link_client l (l\<lparr>lk_client := c, lk_up := lk_up l @ take m write_buf, lk_up_cut := True,
      lk_sent := lk_sent l @ write_buf\<rparr>)"
| read: "lk_client l = C_Read i \<Longrightarrow> 0 < m \<Longrightarrow> m \<le> client_max_length \<Longrightarrow> m \<le> length (lk_down l) \<Longrightarrow>
    client_step (lk_client l) (Read_completed No_error m) = (c, as) \<Longrightarrow>
    link_client l (l\<lparr>lk_client := c, lk_down := drop m (lk_down l), lk_got := lk_got l @ take m (lk_down l)\<rparr>)"
| read_fail: "lk_client l = C_Read i \<Longrightarrow> failed ec \<Longrightarrow>
    client_step (lk_client l) (Read_completed ec 0) = (c, as) \<Longrightarrow>
    link_client l (l\<lparr>lk_client := c\<rparr>)"

text \<open>What happens between accepts: a thread runs a task, or an operation of either side completes.\<close>

inductive net_work :: "network \<Rightarrow> network \<Rightarrow> bool" where
  run: "next_task c (sys_posted (net_sys n)) = Some t \<Longrightarrow>
    net_work n (n\<lparr>net_sys := system_run c t (net_sys n)\<rparr>)"
| complete: "k < length (sys_conns (net_sys n)) \<Longrightarrow> conn_session (sys_conns (net_sys n) ! k) = Some ss \<Longrightarrow>
    awaits ss e \<Longrightarrow> \<forall>(c, t)\<in>set (sys_posted (net_sys n)). task_session t \<noteq> k \<Longrightarrow>
    link_server (pending_write (conn_actions (sys_conns (net_sys n) ! k))) (net_links n ! k) e l \<Longrightarrow>
    net_work n (n\<lparr>net_sys := system_complete k e (net_sys n), net_links := (net_links n)[k := l]\<rparr>)"
| client: "k < length (net_links n) \<Longrightarrow> link_client (net_links n ! k) l \<Longrightarrow>
    net_work n (n\<lparr>net_links := (net_links n)[k := l]\<rparr>)"

text \<open>A successful accept connects a client: both ends go on.\<close>

inductive net_step :: "network \<Rightarrow> network \<Rightarrow> bool" where
  work: "net_work n n' \<Longrightarrow> net_step n n'"
| accept: "system_accept No_error (net_sys n) = Inr s \<Longrightarrow>
    client_step C_Connect (Connect_done No_error) = (c, as) \<Longrightarrow>
    net_step n (n\<lparr>net_sys := s, net_links := net_links n @ [new_link c]\<rparr>)"
| accept_fail: "failed ec \<Longrightarrow> system_accept ec (net_sys n) = Inr s \<Longrightarrow> net_step n (n\<lparr>net_sys := s\<rparr>)"

section \<open>Each connection is a pair\<close>

definition net_inv :: "network \<Rightarrow> bool" where
  "net_inv n \<longleftrightarrow> system_inv (net_sys n) \<and> length (net_links n) = length (sys_conns (net_sys n))"

text \<open>Where a session is once it has been resumed with all its completions.\<close>

definition conn_run :: "connection \<Rightarrow> session \<times> session_action list" where
  "conn_run conn = (let (ss, as) = session_run (fst session_begin) (conn_events conn)
     in (ss, snd session_begin @ as))"

definition as_pair :: "connection \<Rightarrow> link \<Rightarrow> echo_sys" where
  "as_pair conn l = \<lparr>cl = lk_client l, sv = fst (conn_run conn), to_server = lk_up l,
     sending = pending_write (snd (conn_run conn)), to_client = lk_down l, cl_sent = lk_sent l, cl_got = lk_got l\<rparr>"

text \<open>
  A connection is a pair of which a cut direction has only delivered a first part: the reader is
  not yet where the pair is, and will not get there.
\<close>

definition connected :: "connection \<Rightarrow> link \<Rightarrow> echo_sys \<Rightarrow> bool" where
  "connected conn l a \<longleftrightarrow> as_pair conn l = a\<lparr>to_server := lk_up l, to_client := lk_down l\<rparr>
     \<and> (if lk_up_cut l then prefix (lk_up l) (to_server a) else lk_up l = to_server a)
     \<and> (if lk_down_cut l then prefix (lk_down l) (to_client a) else lk_down l = to_client a)"

definition pair_of :: "nat \<Rightarrow> network \<Rightarrow> echo_sys \<Rightarrow> bool" where
  "pair_of k n a \<longleftrightarrow> net_inv n
     \<and> (if k < length (net_links n) then connected (sys_conns (net_sys n) ! k) (net_links n ! k) a else a = echo_init)"

lemma connected_iff:
  "connected conn l a \<longleftrightarrow> cl a = lk_client l \<and> sv a = fst (conn_run conn)
     \<and> sending a = pending_write (snd (conn_run conn)) \<and> cl_sent a = lk_sent l \<and> cl_got a = lk_got l
     \<and> (if lk_up_cut l then prefix (lk_up l) (to_server a) else lk_up l = to_server a)
     \<and> (if lk_down_cut l then prefix (lk_down l) (to_client a) else lk_down l = to_client a)"
  by (cases a) (auto simp: connected_def as_pair_def)

lemma pending_write_append:
  "pending_write (as @ bs) = (if bs = [] then pending_write as else pending_write bs)"
  by (cases bs rule: rev_cases) (simp_all add: pending_write_def)

lemma pending_write_simps [simp]:
  "pending_write [] = []"
  "pending_write [Started (Op_write bs)] = bs"
  "(\<And>bs. x \<noteq> Started (Op_write bs)) \<Longrightarrow> pending_write [x] = []"
  by (auto simp: pending_write_def split: session_action.splits asio_op.splits)

lemma pending_write_Cons: "pending_write (x # y # as) = pending_write (y # as)"
  using pending_write_append [of "[x]" "y # as"] by simp

lemma pending_after_step:
  "awaits ss e \<Longrightarrow> pending_write (as @ snd (session_step ss e)) = written (snd (session_step ss e))"
  by (cases e; cases "failed (case e of Read_done ec bs \<Rightarrow> ec | _ \<Rightarrow> No_error)")
    (auto simp: awaits_def step_simps take_fill Let_def pending_write_append pending_write_Cons)

lemma conn_run_complete:
  "conn_run (conn\<lparr>conn_events := conn_events conn @ [e]\<rparr>) =
     (fst (session_step (fst (conn_run conn)) e), snd (conn_run conn) @ snd (session_step (fst (conn_run conn)) e))"
  by (simp add: conn_run_def session_run_snoc case_prod_unfold Let_def)

lemma conn_run_events: "conn_events conn' = conn_events conn \<Longrightarrow> conn_run conn' = conn_run conn"
  by (simp add: conn_run_def)

text \<open>A session that does not wait for a write has none pending.\<close>

lemma session_step_not_awaited: "\<not> awaits ss e \<Longrightarrow> session_step ss e = (ss, [])"
  by (cases e) (auto simp: awaits_def step_simps session_step.simps)

lemma no_write_pending: "session_pc (fst (conn_run conn)) \<noteq> S_Write \<Longrightarrow> pending_write (snd (conn_run conn)) = []"
proof (induction "conn_events conn" arbitrary: conn rule: rev_induct)
  case Nil
  then have "conn_run conn = session_begin" by (simp add: conn_run_def flip: Nil)
  then show ?case by (simp add: step_simps pending_write_Cons)
next
  case (snoc e es)
  let ?conn = "conn\<lparr>conn_events := es\<rparr>" and ?ss = "fst (conn_run (conn\<lparr>conn_events := es\<rparr>))"
  have IH: "session_pc ?ss \<noteq> S_Write \<Longrightarrow> pending_write (snd (conn_run ?conn)) = []"
    using snoc(1) [of ?conn] by simp
  have "conn = ?conn\<lparr>conn_events := conn_events ?conn @ [e]\<rparr>" using snoc(2) by simp
  then have run: "conn_run conn = (fst (session_step ?ss e), snd (conn_run ?conn) @ snd (session_step ?ss e))"
    using conn_run_complete [of ?conn e] by metis
  show ?case
  proof (cases "awaits ?ss e")
    case True
    have "written (snd (session_step ?ss e)) = []"
      using snoc.prems unfolding run written_step
      by (cases e) (auto simp: received_step_def step_simps Let_def split: if_splits)
    then show ?thesis using pending_after_step [OF True] by (simp add: run)
  next
    case False
    then show ?thesis using IH snoc.prems by (simp add: run session_step_not_awaited)
  qed
qed

text \<open>A completion at the server is a step of the pair, and so is one at the client.\<close>

lemma prefix_take: "prefix xs ys \<Longrightarrow> m \<le> length xs \<Longrightarrow> take m xs = take m ys \<and> prefix (drop m xs) (drop m ys)"
  by (auto simp: prefix_def)

lemma link_up_read:
  assumes "connected conn l a" and "m \<le> length (lk_up l)"
  shows "take m (lk_up l) = take m (to_server a)" and "prefix (drop m (lk_up l)) (drop m (to_server a))"
    and "m \<le> length (to_server a)"
  using assms prefix_take [of "lk_up l" "to_server a" m] prefix_length_le [of "lk_up l" "to_server a"]
  by (auto simp: connected_iff split: if_splits)

lemma link_down_read:
  assumes "connected conn l a" and "m \<le> length (lk_down l)"
  shows "take m (lk_down l) = take m (to_client a)" and "prefix (drop m (lk_down l)) (drop m (to_client a))"
    and "m \<le> length (to_client a)"
  using assms prefix_take [of "lk_down l" "to_client a" m] prefix_length_le [of "lk_down l" "to_client a"]
  by (auto simp: connected_iff split: if_splits)

lemma pair_write:
  assumes "session_pc (sv a) = S_Write" and "session_step (sv a) (Write_done ec m) = (ss, as)"
  shows "echo_step a (a\<lparr>sv := ss, to_client := to_client a @ sending a, sending := written as\<rparr>)"
  by (rule echo_step.server_write [where n = m]) (use assms in \<open>simp_all add: step_simps\<close>)

lemma pair_written:
  assumes "session_step (sv a) e = (ss, as)" and "awaits (sv a) e" and "e = Write_done ec m"
  shows "echo_step a (a\<lparr>sv := ss, to_client := to_client a @ sending a, sending := written as\<rparr>)"
  using pair_write [of a ec m ss as] assms by (simp add: awaits_def)

lemma link_server_simulates:
  assumes "link_server (pending_write (snd (conn_run conn))) l e l'" and "awaits (fst (conn_run conn)) e"
    and "connected conn l a"
  shows "\<exists>a'. echo_step a a' \<and> connected (conn\<lparr>conn_events := conn_events conn @ [e]\<rparr>) l' a'"
proof -
  let ?conn = "conn\<lparr>conn_events := conn_events conn @ [e]\<rparr>"
  have a: "sv a = fst (conn_run conn)" "sending a = pending_write (snd (conn_run conn))"
    using assms(3) by (simp_all add: connected_iff)
  obtain ss' as where step: "session_step (sv a) e = (ss', as)" by fastforce
  have run: "fst (conn_run ?conn) = ss'" "pending_write (snd (conn_run ?conn)) = written as"
    using pending_after_step [OF assms(2)] step by (simp_all add: conn_run_complete a)
  have pc: "awaits (sv a) e" using assms(2) by (simp add: a)
  from assms(1) show ?thesis
  proof cases
    case (timer ec)
    with pc step have "echo_step a (a\<lparr>sv := ss'\<rparr>)"
      by (intro echo_step.server_timer) (simp_all add: awaits_def)
    then show ?thesis
      using assms(3) run step pc no_write_pending [of conn]
      by (intro exI [of _ "a\<lparr>sv := ss'\<rparr>"]) (auto simp: connected_iff timer step_simps awaits_def)
  next
    case (read m)
    let ?a = "a\<lparr>sv := ss', to_server := drop m (to_server a), sending := written as\<rparr>"
    note up = link_up_read [OF assms(3) read(5)]
    have "echo_step a ?a"
      by (rule echo_step.server_read) (use pc step read up in \<open>simp_all add: awaits_def\<close>)
    then show ?thesis using assms(3) run up by (intro exI [of _ ?a]) (auto simp: connected_iff read(2))
  next
    case (read_fail ec)
    let ?a = "a\<lparr>sv := ss', sending := written as\<rparr>"
    have "echo_step a ?a"
      by (rule echo_step.server_fail) (use pc step read_fail in \<open>simp_all add: awaits_def\<close>)
    then show ?thesis using assms(3) run by (intro exI [of _ ?a]) (auto simp: connected_iff read_fail(2))
  next
    case write_ok
    from pair_written [OF step pc write_ok(1)] show ?thesis using assms(3) run write_ok(3) a by (intro exI, intro conjI) (auto simp: connected_iff write_ok(2))
  next
    case (write_fail ec m)
    note pair_written [OF step pc write_fail(1)]
    moreover have "prefix (lk_down l @ take m (sending a)) (to_client a @ sending a)"
      using assms(3) write_fail(4) by (auto simp: connected_iff take_is_prefix split: if_splits)
    ultimately show ?thesis using assms(3) run a by (intro exI, intro conjI) (auto simp: connected_iff write_fail(2))
  qed
qed

lemma link_client_simulates:
  assumes "link_client l l'" and "connected conn l a"
  shows "\<exists>a'. echo_step a a' \<and> connected conn l' a'"
  using assms(1)
proof cases
  case (write_ok i c as)
  let ?a = "a\<lparr>cl := c, to_server := to_server a @ write_buf, cl_sent := cl_sent a @ write_buf\<rparr>"
  have "echo_step a ?a"
    by (rule echo_step.client_write) (use assms(2) write_ok in \<open>simp_all add: connected_iff\<close>)
  then show ?thesis
    using assms(2) write_ok(3) by (intro exI [of _ ?a]) (auto simp: connected_iff write_ok(1))
next
  case (write_fail i ec m c as)
  let ?a = "a\<lparr>cl := c, to_server := to_server a @ write_buf, cl_sent := cl_sent a @ write_buf\<rparr>"
  have "echo_step a ?a"
    by (rule echo_step.client_write [where n = m])
      (use assms(2) write_fail(2,5) in \<open>simp_all add: connected_iff step_simps\<close>)
  moreover have "prefix (lk_up l @ take m write_buf) (to_server a @ write_buf)"
    using assms(2) write_fail(4) by (auto simp: connected_iff take_is_prefix split: if_splits)
  ultimately show ?thesis
    using assms(2) by (intro exI [of _ ?a]) (auto simp: connected_iff write_fail(1))
next
  case (read i m c as)
  note down = link_down_read [OF assms(2) read(5)]
  let ?a = "a\<lparr>cl := c, to_client := drop m (to_client a), cl_got := cl_got a @ take m (to_client a)\<rparr>"
  have "echo_step a ?a"
    by (rule echo_step.client_read) (use assms(2) down read in \<open>simp_all add: connected_iff\<close>)
  then show ?thesis
    using assms(2) down by (intro exI [of _ ?a]) (auto simp: connected_iff read(1))
next
  case (read_fail i ec c as)
  have "echo_step a (a\<lparr>cl := c\<rparr>)"
    by (rule echo_step.client_fail) (use assms(2) read_fail in \<open>simp_all add: connected_iff\<close>)
  then show ?thesis
    using assms(2) by (intro exI [of _ "a\<lparr>cl := c\<rparr>"]) (auto simp: connected_iff read_fail(1))
qed

section \<open>The network\<close>

text \<open>What the steps of the server leave of the connections.\<close>

lemma system_run_conns:
  assumes "system_inv s" and "next_task c (sys_posted s) = Some t"
  shows "length (sys_conns (system_run c t s)) = length (sys_conns s)"
    and "conn_events (sys_conns (system_run c t s) ! k) = conn_events (sys_conns s ! k)"
proof -
  have "posted_ok s" using assms(1) by (simp add: system_inv_def)
  from next_task_of_session(3) [OF this assms(2)]
  show "length (sys_conns (system_run c t s)) = length (sys_conns s)"
    and "conn_events (sys_conns (system_run c t s) ! k) = conn_events (sys_conns s ! k)"
    by (auto simp: system_run_def Let_def run_task_def case_prod_unfold nth_list_update)
qed

lemma system_accept_conns:
  assumes "system_inv s" and "system_accept ec s = Inr s'"
  shows "sys_conns s' = sys_conns s @ (if failed ec then [] else
    [\<lparr>conn_ctx = sys_socket s, conn_executor = \<lparr>m_io_context = sys_socket s\<rparr>, conn_session = None,
      conn_actions = [], conn_events = [], conn_ran_on = []\<rparr>])"
  using assms
  by (auto simp: system_inv_def system_accept_def accept_end_result schedule_session_def split: sum.splits prod.splits)

text \<open>A connection with nothing posted is where all its completions take it.\<close>

lemma idle_conn_run:
  assumes "system_inv s" and "k < length (sys_conns s)" and "conn_session (sys_conns s ! k) = Some ss"
    and "\<forall>(c, t)\<in>set (sys_posted s). task_session t \<noteq> k"
  shows "conn_run (sys_conns s ! k) = (ss, conn_actions (sys_conns s ! k))"
proof -
  have "tasks_of k (sys_posted s) = []" using assms(4) by (intro tasks_of_empty) auto
  moreover have "conn_ok (tasks_of k (sys_posted s)) k (sys_conns s ! k)" using assms(1,2) by (simp add: system_inv_def)
  ultimately have "conn_ok [] k (sys_conns s ! k)" by simp
  then show ?thesis
  proof (rule conn_begunE [OF _ assms(3)], goal_cases)
    case (1 es rest)
    then have "rest = []" by simp
    with 1 show ?case by (simp add: conn_run_def case_prod_unfold Let_def)
  qed
qed

lemma connected_cong: "conn_events conn' = conn_events conn \<Longrightarrow> connected conn' l a = connected conn l a"
  by (simp add: connected_iff conn_run_events [of conn' conn])

lemma connected_new:
  "connected \<lparr>conn_ctx = c, conn_executor = ex, conn_session = None, conn_actions = [], conn_events = [], conn_ran_on = []\<rparr>
     (new_link (C_Write 0)) echo_init"
    (is "connected ?conn _ _")
proof -
  have "fst (conn_run ?conn) = fst session_begin" by (simp add: conn_run_def)
  moreover from this have "pending_write (snd (conn_run ?conn)) = []"
    by (intro no_write_pending) (simp add: session_begin_eq)
  ultimately show ?thesis by (simp add: connected_iff new_link_def echo_init_def)
qed

text \<open>Steps that concern another connection, or none.\<close>

lemma pair_of_same:
  assumes "pair_of k n a" and "net_inv n'" and "length (net_links n') = length (net_links n)"
    and "net_links n' ! k = net_links n ! k"
    and "conn_events (sys_conns (net_sys n') ! k) = conn_events (sys_conns (net_sys n) ! k)"
  shows "pair_of k n' a"
proof -
  have "connected (sys_conns (net_sys n') ! k) (net_links n ! k) a = connected (sys_conns (net_sys n) ! k) (net_links n ! k) a"
    by (rule connected_cong) fact
  then show ?thesis using assms by (simp add: pair_of_def)
qed

lemma system_complete_conns:
  "sys_conns (system_complete j e s) = (sys_conns s)[j := (sys_conns s ! j)\<lparr>conn_events := conn_events (sys_conns s ! j) @ [e]\<rparr>]"
  by (simp add: system_complete_def Let_def)

lemma net_work_inv: "net_work n n' \<Longrightarrow> net_inv n \<Longrightarrow> net_inv n'"
proof (induction rule: net_work.induct)
  case (run c n t)
  then show ?case using system_run_inv [of "net_sys n" c t] by (simp add: net_inv_def length_system_run)
next
  case (complete k n ss e l)
  then show ?case using system_complete_inv [of "net_sys n" k ss e] by (simp add: net_inv_def system_complete_conns)
next
  case (client k n l)
  then show ?case by (simp add: net_inv_def)
qed

lemma net_work_pair:
  assumes "pair_of k n a" and "net_work n n'"
  shows "\<exists>a'. echo_step\<^sup>*\<^sup>* a a' \<and> pair_of k n' a'"
proof -
  have inv: "net_inv n" "system_inv (net_sys n)" and len: "length (net_links n) = length (sys_conns (net_sys n))"
    and a: "k < length (net_links n) \<Longrightarrow> connected (sys_conns (net_sys n) ! k) (net_links n ! k) a"
    using assms(1) by (simp_all add: pair_of_def net_inv_def)
  note inv' = net_work_inv [OF assms(2) inv(1)] and same = pair_of_same [OF assms(1)]
  from assms(2) show ?thesis
  proof cases
    case (run c t)
    then show ?thesis using same [OF inv'] system_run_conns(2) [OF inv(2) run(2)] by auto
  next
    case (complete j ss e l)
    note idle = idle_conn_run [OF inv(2) complete(2,3,5)]
    show ?thesis
    proof (cases "k = j")
      case True
      have k: "k < length (net_links n)" using complete(2) len True by simp
      have "\<exists>a'. echo_step a a' \<and> connected ((sys_conns (net_sys n) ! k)
          \<lparr>conn_events := conn_events (sys_conns (net_sys n) ! k) @ [e]\<rparr>) l a'"
        using complete(4,6) idle True by (intro link_server_simulates [OF _ _ a [OF k]]) simp_all
      then show ?thesis
        using inv' True k len by (auto simp: pair_of_def complete(1) system_complete_conns)
    next
      case False
      then show ?thesis using same [OF inv'] by (auto simp: complete(1) system_complete_conns)
    qed
  next
    case (client j l)
    show ?thesis
    proof (cases "k = j")
      case True
      with client link_client_simulates a obtain a' where "echo_step a a'" "connected (sys_conns (net_sys n) ! k) l a'"
        by blast
      then show ?thesis using inv' client True by (auto simp: pair_of_def)
    next
      case False
      then show ?thesis using same [OF inv'] by (auto simp: client(1))
    qed
  qed
qed

lemma net_step_pair:
  assumes "pair_of k n a" and "net_step n n'"
  shows "\<exists>a'. echo_step\<^sup>*\<^sup>* a a' \<and> pair_of k n' a'"
  using assms(2)
proof cases
  case work
  then show ?thesis by (rule net_work_pair [OF assms(1)])
next
  case (accept s c as)
  have inv: "system_inv (net_sys n)" and len: "length (net_links n) = length (sys_conns (net_sys n))"
    using assms(1) by (simp_all add: pair_of_def net_inv_def)
  note conns = system_accept_conns [OF inv accept(2)]
  have c: "c = C_Write 0" using accept(3) by (simp add: client_step.simps step_simps failed_def client_count_def)
  have "net_inv n'"
    using system_accept_result [OF inv, of No_error] accept len by (simp add: net_inv_def conns failed_def)
  then have "pair_of k n' a"
    using assms(1) connected_new len by (auto simp: pair_of_def accept(1) conns failed_def nth_append c)
  then show ?thesis by blast
next
  case (accept_fail ec s)
  have inv: "system_inv (net_sys n)" and len: "length (net_links n) = length (sys_conns (net_sys n))"
    using assms(1) by (simp_all add: pair_of_def net_inv_def)
  note conns = system_accept_conns [OF inv accept_fail(3)]
  have "net_inv n'" using system_accept_result [OF inv, of ec] accept_fail len by (simp add: net_inv_def conns)
  then have "pair_of k n' a" using pair_of_same [OF assms(1)] accept_fail(2) by (simp add: accept_fail(1) conns)
  then show ?thesis by blast
qed

interpretation net_pair: forward_refinement net_step echo_step "pair_of k" for k
  by unfold_locales (rule net_step_pair)

lemma net_begin_pair:
  assumes "IoContextPool m w = Inr (w', pool)" and "system_begin pool = Inr s0"
  shows "pair_of k (net_begin s0) echo_init"
proof -
  have "sys_conns s0 = []" using assms(2) by (auto simp: system_begin_def split: sum.splits prod.splits)
  then show ?thesis using system_begin_inv [OF assms] by (simp add: pair_of_def net_inv_def net_begin_def)
qed

lemma network_pair:
  assumes "IoContextPool m w = Inr (w', pool)" and "system_begin pool = Inr s0" and "net_step\<^sup>*\<^sup>* (net_begin s0) n"
  shows "\<exists>a. echo_step\<^sup>*\<^sup>* echo_init a \<and> pair_of k n a"
  by (rule net_pair.simulates_run [OF assms(3) net_begin_pair [OF assms(1,2)]])

section \<open>The work between accepts ends\<close>

lemma connected_as_pair: "connected conn l (as_pair conn l)"
  by (simp add: connected_iff as_pair_def)

lemma connected_weight: "connected conn l a \<Longrightarrow> echo_weight (as_pair conn l) \<le> echo_weight a"
  by (auto simp: connected_iff as_pair_def echo_weight_def dest: prefix_length_le split: if_splits)

lemma link_server_weight:
  assumes "link_server (pending_write (snd (conn_run conn))) l e l'" and "awaits (fst (conn_run conn)) e"
  shows "echo_weight (as_pair (conn\<lparr>conn_events := conn_events conn @ [e]\<rparr>) l') < echo_weight (as_pair conn l)"
  using link_server_simulates [OF assms connected_as_pair] echo_step_weight connected_weight by (meson order.strict_trans1)

lemma link_client_weight: "link_client l l' \<Longrightarrow> echo_weight (as_pair conn l') < echo_weight (as_pair conn l)"
  using link_client_simulates [OF _ connected_as_pair] echo_step_weight connected_weight by (meson order.strict_trans1)

definition pair_weight :: "network \<Rightarrow> nat \<Rightarrow> nat" where
  "pair_weight n k = echo_weight (as_pair (sys_conns (net_sys n) ! k) (net_links n ! k))"

text \<open>Each completion at the server is also posted and run.\<close>

definition net_weight :: "network \<Rightarrow> nat" where
  "net_weight n = (\<Sum>k<length (net_links n). 2 * pair_weight n k) + length (sys_posted (net_sys n))"

lemma sum_decreases:
  fixes f g :: "nat \<Rightarrow> nat"
  assumes "j < N" and "g j + c \<le> f j" and "\<And>k. k \<noteq> j \<Longrightarrow> g k = f k"
  shows "(\<Sum>k<N. g k) + c \<le> (\<Sum>k<N. f k)"
proof -
  have "(\<Sum>k\<in>{..<N} - {j}. g k) = (\<Sum>k\<in>{..<N} - {j}. f k)" by (intro sum.cong) (simp_all add: assms(3))
  then show ?thesis using assms(1,2) by (simp add: sum.remove [of "{..<N}" j])
qed

lemma net_work_weight:
  assumes "net_work n n'" and "net_inv n"
  shows "net_weight n' < net_weight n"
  using assms(1)
proof cases
  case (run c t)
  have inv: "system_inv (net_sys n)" using assms(2) by (simp add: net_inv_def)
  have "(c, t) \<in> set (sys_posted (net_sys n))" using next_task_split [OF run(2)] by auto
  then have "length (sys_posted (net_sys n')) < length (sys_posted (net_sys n))"
    using length_pos_if_in_set by (fastforce simp: run(1) system_run_def Let_def length_remove1)
  moreover have "pair_weight n' k = pair_weight n k" for k
  proof -
    have "conn_run (sys_conns (net_sys n') ! k) = conn_run (sys_conns (net_sys n) ! k)"
      by (rule conn_run_events) (simp add: run(1) system_run_conns(2) [OF inv run(2)])
    then show ?thesis by (simp add: pair_weight_def as_pair_def run(1))
  qed
  ultimately show ?thesis by (simp add: net_weight_def) (simp add: run(1))
next
  case (complete j ss e l)
  have inv: "system_inv (net_sys n)" and len: "length (net_links n) = length (sys_conns (net_sys n))"
    using assms(2) by (simp_all add: net_inv_def)
  note idle = idle_conn_run [OF inv complete(2,3,5)]
  have "pair_weight n' j < pair_weight n j"
    using link_server_weight [of "sys_conns (net_sys n) ! j" "net_links n ! j" e l] complete(2,4,6) idle len
    by (simp add: pair_weight_def complete(1) system_complete_conns)
  then have "(\<Sum>k<length (net_links n). 2 * pair_weight n' k) + 2 \<le> (\<Sum>k<length (net_links n). 2 * pair_weight n k)"
    using complete(2) len
    by (intro sum_decreases [of j]) (simp_all add: pair_weight_def complete(1) system_complete_conns)
  then show ?thesis by (simp add: net_weight_def) (simp add: complete(1) system_complete_def Let_def executor_add_def)
next
  case (client j l)
  have "pair_weight n' j < pair_weight n j" using link_client_weight client by (simp add: pair_weight_def)
  then have "(\<Sum>k<length (net_links n). 2 * pair_weight n' k) + 2 \<le> (\<Sum>k<length (net_links n). 2 * pair_weight n k)"
    using client(2) by (intro sum_decreases [of j]) (simp_all add: pair_weight_def client(1))
  then show ?thesis by (simp add: net_weight_def) (simp add: client(1))
qed

interpretation net_works: weighted net_work net_inv net_weight
  by unfold_locales (use net_work_inv net_work_weight in blast)+

text \<open>No work is left only where every session and every client has finished.\<close>

lemma all_posted_run:
  assumes "\<nexists>n'. net_work n n'"
  shows "sys_posted (net_sys n) = []"
proof (cases "sys_posted (net_sys n)")
  case (Cons p ps)
  then have "next_task (fst p) (sys_posted (net_sys n)) = Some (snd p)" by (simp add: next_task_def)
  with assms net_work.run show ?thesis by blast
qed

lemma link_server_total: "session_pc ss \<noteq> S_Done \<Longrightarrow> \<exists>e l'. awaits ss e \<and> link_server w l e l'"
proof (cases "session_pc ss")
  case S_Timer
  then show ?thesis using link_server.timer by (intro exI [of _ "Timer_done No_error"]) (auto simp: awaits_def)
next
  case S_Read
  then show ?thesis using link_server.read_fail [of Eof]
    by (intro exI [of _ "Read_done Eof []"]) (auto simp: awaits_def failed_def)
next
  case S_Write
  moreover have "link_server w l (Write_done Eof 0) (l\<lparr>lk_down := lk_down l @ take 0 w, lk_down_cut := True\<rparr>)"
    by (rule link_server.write_fail) (simp_all add: failed_def)
  ultimately show ?thesis by (intro exI [of _ "Write_done Eof 0"]) (auto simp: awaits_def)
qed simp

lemma link_client_total:
  assumes "lk_client l \<noteq> C_Done" and "lk_client l \<noteq> C_Connect"
  shows "\<exists>l'. link_client l l'"
proof (cases "lk_client l")
  case (C_Write i)
  obtain c as where "client_step (lk_client l) (Write_completed Eof 0) = (c, as)" by fastforce
  with C_Write show ?thesis
    by - (rule exI, rule link_client.write_fail [where ec = Eof and m = 0], simp_all add: failed_def)
next
  case (C_Read i)
  obtain c as where "client_step (lk_client l) (Read_completed Eof 0) = (c, as)" by fastforce
  with C_Read link_client.read_fail [of l i Eof] show ?thesis by (auto simp: failed_def)
qed (use assms in simp_all)

definition connection_over :: "network \<Rightarrow> nat \<Rightarrow> bool" where
  "connection_over n k \<longleftrightarrow> lk_client (net_links n ! k) = C_Done
     \<and> (case conn_session (sys_conns (net_sys n) ! k) of None \<Rightarrow> False | Some ss \<Rightarrow> session_pc ss = S_Done)"

lemma no_work_left:
  assumes "\<nexists>n'. net_work n n'" and "pair_of k n a" and "echo_reachable a" and "k < length (net_links n)"
  shows "connection_over n k"
proof -
  have inv: "system_inv (net_sys n)" and k: "k < length (sys_conns (net_sys n))"
    and a: "connected (sys_conns (net_sys n) ! k) (net_links n ! k) a"
    using assms(2,4) by (simp_all add: pair_of_def net_inv_def)
  note posted = all_posted_run [OF assms(1)]
  have "conn_ok [] k (sys_conns (net_sys n) ! k)" using inv k posted by (simp add: system_inv_def)
  then obtain ss where ss: "conn_session (sys_conns (net_sys n) ! k) = Some ss"
    by (cases "conn_session (sys_conns (net_sys n) ! k)") (simp_all add: conn_ok_def)
  have "\<forall>(c, t)\<in>set (sys_posted (net_sys n)). task_session t \<noteq> k" by (simp add: posted)
  with net_work.complete [OF k ss] link_server_total assms(1) have "session_pc ss = S_Done" by blast
  moreover have "lk_client (net_links n ! k) \<noteq> C_Connect"
    using a echo_reachable_inv [OF assms(3)] by (simp add: connected_iff echo_inv_def)
  then have "lk_client (net_links n ! k) = C_Done"
    using net_work.client [OF assms(4)] link_client_total assms(1) by blast
  ultimately show ?thesis by (simp add: connection_over_def ss)
qed

section \<open>Properties\<close>

text \<open>
  C15. Composition. In the whole system, whatever the accepts, the threads, the network and the other
  clients do, every connection has run as the pair of one client and one session does alone: it is
  related to a state the pair can reach, by the same client, the same session, resumed with the
  completions it has had, and the same bytes, less what a cut direction has lost.
\<close>

theorem network_refines_pairs:
  assumes "IoContextPool m w = Inr (w', pool)" and "system_begin pool = Inr s0" and "net_step\<^sup>*\<^sup>* (net_begin s0) n"
    and "k < length (net_links n)"
  shows "\<exists>a. echo_step\<^sup>*\<^sup>* echo_init a \<and> connected (sys_conns (net_sys n) ! k) (net_links n ! k) a"
proof -
  obtain a where "echo_step\<^sup>*\<^sup>* echo_init a" "pair_of k n a" using network_pair [OF assms(1-3)] by blast
  then show ?thesis using assms(4) by (auto simp: pair_of_def)
qed

text \<open>
  C3. Every client of the system gets back its own bytes and nothing else: at any time what it has
  read, and what is on its way to it, is the beginning of what it has written, also after writes
  that failed half way; and while neither direction of its connection is cut no byte is missing
  between the two.
\<close>

theorem network_echoes:
  assumes "IoContextPool m w = Inr (w', pool)" and "system_begin pool = Inr s0" and "net_step\<^sup>*\<^sup>* (net_begin s0) n"
    and "k < length (net_links n)" and "net_links n ! k = l"
  shows "prefix (lk_got l @ lk_down l) (lk_sent l)
     \<and> (lk_up_cut l \<or> lk_down_cut l
        \<or> lk_got l @ lk_down l @ pending_write (snd (conn_run (sys_conns (net_sys n) ! k))) @ lk_up l = lk_sent l)"
proof -
  obtain a where a: "echo_step\<^sup>*\<^sup>* echo_init a" "pair_of k n a" using network_pair [OF assms(1-3)] by blast
  then have c: "connected (sys_conns (net_sys n) ! k) l a" using assms(4,5) by (simp add: pair_of_def)
  have "cl_got a @ to_client a @ sending a @ to_server a = cl_sent a"
    using echo_reachable_inv [OF echo_run_reachable [OF a(1)]] by (simp add: echo_inv_def)
  then have all: "lk_got l @ to_client a @ pending_write (snd (conn_run (sys_conns (net_sys n) ! k))) @ to_server a = lk_sent l"
    using c by (simp add: connected_iff)
  have "prefix (lk_down l) (to_client a)" using c by (auto simp: connected_iff split: if_splits)
  then have "prefix (lk_got l @ lk_down l) (lk_got l @ to_client a)" by simp
  then have "prefix (lk_got l @ lk_down l) (lk_sent l)" using all by (metis append.assoc prefixI prefix_order.trans)
  then show ?thesis using c all by (auto simp: connected_iff split: if_splits)
qed

text \<open>
  C17. Between accepts the system comes to rest: with \<open>N\<close> connections at most \<open>827800 N\<close> completions
  and task runs, and one for each task already posted, can follow, however they interleave; and when
  nothing is left to do every client has finished and every session has closed its socket.
\<close>

theorem network_quiesces:
  assumes "IoContextPool m w = Inr (w', pool)" and "system_begin pool = Inr s0" and "net_step\<^sup>*\<^sup>* (net_begin s0) n"
    and "(net_work ^^ i) n n'"
  shows "i \<le> 827800 * length (net_links n) + length (sys_posted (net_sys n))
     \<and> ((\<exists>n''. net_work n' n'') \<or> (\<forall>k<length (net_links n'). connection_over n' k))"
proof -
  have pair: "\<exists>a. echo_step\<^sup>*\<^sup>* echo_init a \<and> pair_of k n a" for k by (rule network_pair [OF assms(1-3)])
  then have inv: "net_inv n" by (auto simp: pair_of_def)
  have "pair_weight n k \<le> 413900" if "k < length (net_links n)" for k
  proof -
    obtain a where a: "echo_step\<^sup>*\<^sup>* echo_init a" "pair_of k n a" using pair by blast
    then obtain j where "(echo_step ^^ j) echo_init a" using rtranclp_imp_relpowp by metis
    then have "echo_weight a \<le> echo_weight echo_init" using echo_end.run_bound echo_reachable.init by fastforce
    moreover have "echo_weight (as_pair (sys_conns (net_sys n) ! k) (net_links n ! k)) \<le> echo_weight a"
      using connected_weight a(2) that by (simp add: pair_of_def)
    ultimately show ?thesis
      by (simp add: pair_weight_def echo_weight_def echo_init_def step_simps client_max_length_def client_count_def)
  qed
  then have "(\<Sum>k<length (net_links n). 2 * pair_weight n k) \<le> (\<Sum>k<length (net_links n). 827800)"
    by (intro sum_mono) fastforce
  then have "i \<le> 827800 * length (net_links n) + length (sys_posted (net_sys n))"
    using net_works.run_bound [OF assms(4) inv] by (simp add: net_weight_def)
  moreover have "net_step\<^sup>*\<^sup>* (net_begin s0) n'"
    using assms(3,4) by (induction i arbitrary: n') (auto intro: rtranclp.rtrancl_into_rtrancl net_step.work)
  then have "(\<nexists>n''. net_work n' n'') \<Longrightarrow> \<forall>k<length (net_links n'). connection_over n' k"
    using no_work_left echo_run_reachable network_pair [OF assms(1,2)] by blast
  ultimately show ?thesis by blast
qed

text \<open>A client has connected and written its first block: a state for the witnesses.\<close>

lemma demo_net:
  "\<exists>s0 n. system_begin demo_pool = Inr s0 \<and> net_step\<^sup>*\<^sup>* (net_begin s0) n
     \<and> net_links n = [(new_link (C_Read 0))\<lparr>lk_up := write_buf, lk_sent := write_buf\<rparr>] \<and> length (sys_posted (net_sys n)) = 1"
proof -
  obtain s0 s1 where s: "system_begin demo_pool = Inr s0" "system_accept No_error s0 = Inr s1" "length (sys_posted s1) = 1"
    by (simp add: demo_pool_def system_begin_def TcpServer_start_def TcpServer_def getIoContext_def Let_def
        accept_begin_def accept_end_def step_simps system_accept_def schedule_session_def executor_add_def Executor_def failed_def)
  let ?n1 = "\<lparr>net_sys = s1, net_links = [new_link (C_Write 0)]\<rparr>"
  let ?n2 = "\<lparr>net_sys = s1, net_links = [(new_link (C_Read 0))\<lparr>lk_up := write_buf, lk_sent := write_buf\<rparr>]\<rparr>"
  have "net_step (net_begin s0) ?n1"
    using net_step.accept [of "net_begin s0" s1 "C_Write 0"] s(2)
    by (simp add: net_begin_def client_step.simps step_simps failed_def client_count_def)
  moreover have "net_work ?n1 ?n2"
    using net_work.client [of 0 ?n1] link_client.write_ok [of "new_link (C_Write 0)" 0]
    by (simp add: new_link_def step_simps)
  ultimately have "net_step\<^sup>*\<^sup>* (net_begin s0) ?n2"
    by (meson net_step.work r_into_rtranclp rtranclp.rtrancl_into_rtrancl)
  with s(1,3) show ?thesis by (intro exI [of _ s0] exI [of _ ?n2]) simp
qed

theorem network_refines_pairs_witness:
  "\<exists>(n :: network) a. echo_step\<^sup>*\<^sup>* echo_init a \<and> lk_sent (net_links n ! 0) = write_buf
     \<and> connected (sys_conns (net_sys n) ! 0) (net_links n ! 0) a"
proof -
  obtain w' s0 n where "IoContextPool 2 empty_world = Inr (w', demo_pool)" "system_begin demo_pool = Inr s0"
    "net_step\<^sup>*\<^sup>* (net_begin s0) n" and
    n: "net_links n = [(new_link (C_Read 0))\<lparr>lk_up := write_buf, lk_sent := write_buf\<rparr>]"
    using demo_pool demo_net by blast
  from network_refines_pairs [OF this(1-3), of 0] n show ?thesis by - (rule exI [of _ n], simp)
qed

theorem network_echoes_witness:
  "\<exists>n :: network. lk_sent (net_links n ! 0) = write_buf
     \<and> pending_write (snd (conn_run (sys_conns (net_sys n) ! 0))) @ lk_up (net_links n ! 0) = write_buf"
proof -
  obtain w' s0 n where "IoContextPool 2 empty_world = Inr (w', demo_pool)" "system_begin demo_pool = Inr s0"
    "net_step\<^sup>*\<^sup>* (net_begin s0) n" and
    n: "net_links n = [(new_link (C_Read 0))\<lparr>lk_up := write_buf, lk_sent := write_buf\<rparr>]"
    using demo_pool demo_net by blast
  from network_echoes [OF this(1-3), of 0] n show ?thesis by - (rule exI [of _ n], simp add: new_link_def)
qed

theorem network_quiesces_witness:
  "\<exists>n. length (net_links n) = 1 \<and> (\<forall>i n'. (net_work ^^ i) n n' \<longrightarrow> i \<le> 827801)"
proof -
  obtain w' s0 n where "IoContextPool 2 empty_world = Inr (w', demo_pool)" "system_begin demo_pool = Inr s0"
    "net_step\<^sup>*\<^sup>* (net_begin s0) n" and n: "length (net_links n) = 1" "length (sys_posted (net_sys n)) = 1"
    using demo_pool demo_net by fastforce
  from network_quiesces [OF this(1-3)] n show ?thesis by fastforce
qed

end
