(* ===== verification/Proto_Message.thy ===== *)
theory Proto_Message
  imports Prelude
begin

unbundle bit_operations_syntax

text \<open>
  What the generated message classes of \<open>src/helloworld.pb.cc\<close> rest on, and what the two of them
  share. The protobuf runtime (string cells, the wire format, unknown fields, the parse context) is
  not part of the repository: it is the parameter \<open>L\<close> of the model, a record of functions, and
  \<open>lib_ok L\<close> states its documented behaviour. The generated code of one class against that runtime
  is the locale \<open>message_class\<close>, whose consequences (round trip, size, merge by concatenation,
  termination of the parser) are proved once and interpreted for \<open>HelloRequest\<close> and \<open>HelloReply\<close>.
\<close>

section \<open>The runtime\<close>

text \<open>
  \<open>'p\<close> is a string cell (\<open>ArenaStringPtr\<close>), \<open>'f\<close> an unknown field; a set of unknown fields is
  the list of its fields. A pointer into the input is the rest of the input, and a null pointer is
  \<open>None\<close>. Sizes are \<open>size_t\<close>, words of 64 bits; the cache of a size is an \<open>int\<close>, a word of 32 bits
  that is read with its sign, and the runtime converts the one into the other.
\<close>

record ('p, 'f) protobuf_lib =
  asp_default :: 'p
  asp_get :: "'p \<Rightarrow> bytes"
  asp_set :: "bytes \<Rightarrow> 'p \<Rightarrow> 'p"
  asp_clear :: "'p \<Rightarrow> 'p"
  asp_release :: "'p \<Rightarrow> bytes \<times> 'p"
  asp_set_allocated :: "bytes option \<Rightarrow> 'p \<Rightarrow> 'p"
  ctx_done :: "bytes \<Rightarrow> bool"
  read_tag :: "bytes \<Rightarrow> u32 \<times> bytes option"
  read_string :: "bytes option \<Rightarrow> bytes \<times> bytes option"
  verify_utf8 :: "bytes \<Rightarrow> bool"
  parse_unknown :: "u32 \<Rightarrow> 'f list \<Rightarrow> bytes option \<Rightarrow> 'f list \<times> bytes option"
  write_string :: "nat \<Rightarrow> bytes \<Rightarrow> bytes"
  write_unknown :: "'f \<Rightarrow> bytes"
  string_size :: "bytes \<Rightarrow> u64"
  unknown_size :: "'f \<Rightarrow> u64"
  to_cached_size :: "u64 \<Rightarrow> u32"

text \<open>The tag of a known field: number 1, length-delimited, as the generated code tests it.\<close>

definition name_tag :: "u32 \<Rightarrow> bool" where
  "name_tag tag \<longleftrightarrow> drop_bit 3 tag = 1 \<and> (ucast tag :: 8 word) = 10"

definition end_tag :: "u32 \<Rightarrow> bool" where
  "end_tag tag \<longleftrightarrow> tag = 0 \<or> tag AND 7 = 4"

text \<open>The largest string protobuf can carry: its length is an \<open>int\<close>.\<close>

definition fits :: "bytes \<Rightarrow> bool" where
  "fits s \<longleftrightarrow> length s < 2 ^ 31"

subsection \<open>Its documented behaviour\<close>

definition cell_ok :: "('p, 'f) protobuf_lib \<Rightarrow> bool" where
  "cell_ok L \<longleftrightarrow>
     asp_get L (asp_default L) = []
     \<and> (\<forall>s p. asp_get L (asp_set L s p) = s)
     \<and> (\<forall>p. asp_get L (asp_clear L p) = [])
     \<and> (\<forall>p. fst (asp_release L p) = asp_get L p \<and> asp_get L (snd (asp_release L p)) = [])
     \<and> (\<forall>s p. asp_get L (asp_set_allocated L s p) = (case s of None \<Rightarrow> [] | Some t \<Rightarrow> t))"

text \<open>A written string field, or unknown field, is read back from the front of any input.\<close>

definition wire_ok :: "('p, 'f) protobuf_lib \<Rightarrow> bool" where
  "wire_ok L \<longleftrightarrow>
     (\<forall>bs. ctx_done L bs = (bs = []))
     \<and> (\<forall>s rest. fits s \<longrightarrow> write_string L 1 s \<noteq> []
          \<and> (\<exists>p. read_tag L (write_string L 1 s @ rest) = (10, Some p)
                 \<and> read_string L (Some p) = (s, Some rest)))
     \<and> (\<forall>f rest. write_unknown L f \<noteq> []
          \<and> (\<exists>tag p. read_tag L (write_unknown L f @ rest) = (tag, Some p)
                 \<and> \<not> name_tag tag \<and> \<not> end_tag tag
                 \<and> (\<forall>us. parse_unknown L tag us (Some p) = (us @ [f], Some rest))))"

text \<open>
  A string that fits, and an unknown field, has the size of what is written of it, modulo the width;
  a size that is not negative as an \<open>int\<close> is cached as it is.
\<close>

definition size_ok :: "('p, 'f) protobuf_lib \<Rightarrow> bool" where
  "size_ok L \<longleftrightarrow>
     (\<forall>s. fits s \<longrightarrow> 1 + string_size L s = of_nat (length (write_string L 1 s)))
     \<and> (\<forall>f. unknown_size L f = of_nat (length (write_unknown L f)))
     \<and> (\<forall>n. unat n < 2 ^ 31 \<longrightarrow> sint (to_cached_size L n) = int (unat n))"

text \<open>Reading makes progress, never goes back, and turns a null pointer into a null pointer.\<close>

definition progress_ok :: "('p, 'f) protobuf_lib \<Rightarrow> bool" where
  "progress_ok L \<longleftrightarrow>
     (\<forall>bs tag p. read_tag L bs = (tag, Some p) \<longrightarrow> length p < length bs)
     \<and> (\<forall>bs tag. read_tag L bs = (tag, None) \<longrightarrow> tag = 0)
     \<and> (\<forall>p s q. read_string L p = (s, Some q) \<longrightarrow> (\<exists>r. p = Some r \<and> length q \<le> length r))
     \<and> (\<forall>tag us p us' q. parse_unknown L tag us p = (us', Some q)
          \<longrightarrow> (\<exists>r. p = Some r \<and> length q \<le> length r))"

definition lib_ok :: "('p, 'f) protobuf_lib \<Rightarrow> bool" where
  "lib_ok L \<longleftrightarrow> cell_ok L \<and> wire_ok L \<and> size_ok L \<and> progress_ok L"

lemma wire_string:
  "wire_ok L \<Longrightarrow> fits s \<Longrightarrow> write_string L 1 s \<noteq> []
     \<and> (\<exists>p. read_tag L (write_string L 1 s @ rest) = (10, Some p) \<and> read_string L (Some p) = (s, Some rest))"
  unfolding wire_ok_def by blast

lemma wire_unknown:
  "wire_ok L \<Longrightarrow> write_unknown L f \<noteq> []
     \<and> (\<exists>tag p. read_tag L (write_unknown L f @ rest) = (tag, Some p)
            \<and> \<not> name_tag tag \<and> \<not> end_tag tag
            \<and> (\<forall>us. parse_unknown L tag us (Some p) = (us @ [f], Some rest)))"
  unfolding wire_ok_def by blast

lemma wire_done: "wire_ok L \<Longrightarrow> ctx_done L bs = (bs = [])"
  unfolding wire_ok_def by blast

section \<open>The contract of a generated class\<close>

text \<open>
  \<open>view\<close> is the string the class's only field holds. The assumptions are the generated methods'
  own equations, over the view; \<open>parse\<close> carries fuel, which counts loop rounds.
\<close>

type_synonym 'm parsed = "('m \<times> bytes option \<times> u32 option) option"

locale message_class =
  fixes view :: "('p, 'f) protobuf_lib \<Rightarrow> 'm \<Rightarrow> bytes"
    and unknowns :: "'m \<Rightarrow> 'f list"
    and set_view :: "('p, 'f) protobuf_lib \<Rightarrow> bytes \<Rightarrow> 'm \<Rightarrow> 'm"
    and set_unknowns :: "'f list \<Rightarrow> 'm \<Rightarrow> 'm"
    and parse :: "('p, 'f) protobuf_lib \<Rightarrow> nat \<Rightarrow> 'm \<Rightarrow> bytes \<Rightarrow> 'm parsed"
    and serialize :: "('p, 'f) protobuf_lib \<Rightarrow> 'm \<Rightarrow> bytes"
    and byte_size :: "('p, 'f) protobuf_lib \<Rightarrow> 'm \<Rightarrow> u64"
    and merge :: "('p, 'f) protobuf_lib \<Rightarrow> 'm \<Rightarrow> 'm \<Rightarrow> 'm"
  assumes view_set: "cell_ok L \<Longrightarrow> view L (set_view L s m) = s"
    and view_set_unknowns: "view L (set_unknowns us m) = view L m"
    and unknowns_set_view: "unknowns (set_view L s m) = unknowns m"
    and unknowns_set: "unknowns (set_unknowns us m) = us"
    and parse_0: "parse L 0 m bs = None"
    and parse_Suc: "parse L (Suc n) m bs =
      (if ctx_done L bs then Some (m, Some bs, None)
       else (let (tag, p) = read_tag L bs in
         if name_tag tag then
           (let (s, q) = read_string L p; m1 = set_view L s m in
            if \<not> verify_utf8 L s then Some (m1, None, None)
            else (case q of None \<Rightarrow> Some (m1, None, None) | Some bs' \<Rightarrow> parse L n m1 bs'))
         else if end_tag tag then
           (case p of None \<Rightarrow> Some (m, None, None) | Some bs' \<Rightarrow> Some (m, Some bs', Some tag))
         else
           (let (us, q) = parse_unknown L tag (unknowns m) p; m1 = set_unknowns us m in
            case q of None \<Rightarrow> Some (m1, None, None) | Some bs' \<Rightarrow> parse L n m1 bs')))"
    and serialize_eq: "serialize L m =
      (if view L m \<noteq> [] then write_string L 1 (view L m) else [])
        @ concat (map (write_unknown L) (unknowns m))"
    and byte_size_eq: "byte_size L m =
      (if view L m \<noteq> [] then 1 + string_size L (view L m) else 0)
        + sum_list (map (unknown_size L) (unknowns m))"
    and merge_eq: "merge L to from =
      set_unknowns (unknowns to @ unknowns from)
        (if view L from \<noteq> [] then set_view L (view L from) to else to)"
begin

text \<open>Two messages with the same contents.\<close>

definition same :: "('p, 'f) protobuf_lib \<Rightarrow> 'm \<Rightarrow> 'm \<Rightarrow> bool" where
  "same L m m' \<longleftrightarrow> view L m = view L m' \<and> unknowns m = unknowns m'"

text \<open>A message whose string can be carried and is text.\<close>

definition sendable :: "('p, 'f) protobuf_lib \<Rightarrow> 'm \<Rightarrow> bool" where
  "sendable L m \<longleftrightarrow> fits (view L m) \<and> verify_utf8 L (view L m)"

lemma size_serialized:
  assumes "size_ok L" and "fits (view L m)"
  shows "byte_size L m = of_nat (length (serialize L m))"
proof -
  have "sum_list (map (unknown_size L) us) = of_nat (length (concat (map (write_unknown L) us)))" for us
    using assms by (induction us) (simp_all add: size_ok_def)
  with assms show ?thesis by (simp add: serialize_eq byte_size_eq size_ok_def)
qed

lemma parse_name:
  assumes "wire_ok L" and "fits s" and "verify_utf8 L s"
  shows "parse L (Suc n) m (write_string L 1 s @ rest) = parse L n (set_view L s m) rest"
proof -
  obtain p where p: "read_tag L (write_string L 1 s @ rest) = (10, Some p)"
    "read_string L (Some p) = (s, Some rest)" and ne: "write_string L 1 s \<noteq> []"
    using wire_string [OF assms(1,2)] by blast
  have "name_tag 10" by (simp add: name_tag_def)
  with p ne assms(3) show ?thesis by (simp add: parse_Suc Let_def wire_done [OF assms(1)])
qed

lemma parse_unknown_field:
  assumes "wire_ok L"
  shows "parse L (Suc n) m (write_unknown L f @ rest) =
         parse L n (set_unknowns (unknowns m @ [f]) m) rest"
proof -
  obtain tag p where p: "read_tag L (write_unknown L f @ rest) = (tag, Some p)"
    "\<not> name_tag tag" "\<not> end_tag tag" "\<And>us. parse_unknown L tag us (Some p) = (us @ [f], Some rest)"
    and ne: "write_unknown L f \<noteq> []"
    using wire_unknown [OF assms] by blast
  then show ?thesis by (simp add: parse_Suc Let_def wire_done [OF assms])
qed

lemma parse_end:
  assumes "wire_ok L"
  shows "parse L (Suc n) m [] = Some (m, Some [], None)"
  by (simp add: parse_Suc wire_done [OF assms])

text \<open>How many loop rounds a serialized message takes.\<close>

definition rounds :: "('p, 'f) protobuf_lib \<Rightarrow> 'm \<Rightarrow> nat" where
  "rounds L m = (if view L m \<noteq> [] then 1 else 0) + length (unknowns m)"

lemma parse_unknown_fields:
  assumes "wire_ok L"
  shows "\<exists>m'. parse L (length us + n) m (concat (map (write_unknown L) us) @ rest) = parse L n m' rest
     \<and> view L m' = view L m \<and> unknowns m' = unknowns m @ us"
proof (induction us arbitrary: m)
  case Nil
  then show ?case by auto
next
  case (Cons f us)
  from Cons.IH [of "set_unknowns (unknowns m @ [f]) m"] show ?case
    by (simp add: parse_unknown_field [OF assms] view_set_unknowns unknowns_set)
qed

text \<open>
  Parsing a serialized message at the front of an input merges it into the message being parsed
  and leaves the rest of the input.
\<close>

lemma parse_serialized:
  assumes "lib_ok L" and "sendable L m"
  shows "\<exists>m1. parse L (rounds L m + n) m0 (serialize L m @ rest) = parse L n m1 rest
     \<and> same L m1 (merge L m0 m)"
proof -
  have ok: "wire_ok L" "cell_ok L" using assms(1) by (simp_all add: lib_ok_def)
  let ?m = "if view L m \<noteq> [] then set_view L (view L m) m0 else m0"
  obtain m1 where m1: "parse L (length (unknowns m) + n) ?m
      (concat (map (write_unknown L) (unknowns m)) @ rest) = parse L n m1 rest"
    "view L m1 = view L ?m" "unknowns m1 = unknowns ?m @ unknowns m"
    using parse_unknown_fields [OF ok(1)] by blast
  have "parse L (rounds L m + n) m0 (serialize L m @ rest) =
      parse L (length (unknowns m) + n) ?m (concat (map (write_unknown L) (unknowns m)) @ rest)"
    using assms(2) parse_name [OF ok(1), of "view L m"]
    by (simp add: rounds_def serialize_eq sendable_def)
  moreover have "same L m1 (merge L m0 m)"
    using m1(2,3) by (simp add: same_def merge_eq view_set_unknowns unknowns_set unknowns_set_view)
  ultimately show ?thesis using m1(1) by auto
qed

lemma parse_more_fuel:
  "parse L n m bs = Some r \<Longrightarrow> parse L (n + k) m bs = Some r"
proof (induction n arbitrary: m bs)
  case 0
  then show ?case by (simp add: parse_0)
next
  case (Suc n)
  then show ?case
    by (auto simp: parse_Suc Let_def split: if_splits prod.splits option.splits)
qed

text \<open>One round per byte, and one to see the end, are enough for any input.\<close>

lemma parse_terminates:
  assumes "progress_ok L"
  shows "length bs < n \<Longrightarrow> parse L n m bs \<noteq> None"
proof (induction n arbitrary: m bs)
  case 0
  then show ?case by simp
next
  case (Suc n)
  obtain tag p where rt: "read_tag L bs = (tag, p)" by fastforce
  obtain s q where rs: "read_string L p = (s, q)" by fastforce
  obtain us r where pu: "parse_unknown L tag (unknowns m) p = (us, r)" by fastforce
  have p: "p = Some x \<Longrightarrow> length x < length bs" for x
    using assms rt by (simp add: progress_ok_def)
  have "\<exists>y. p = Some y \<and> length x \<le> length y" if "q = Some x \<or> r = Some x" for x
    using assms rs pu that unfolding progress_ok_def by blast
  then have rec: "parse L n m' x \<noteq> None" if "q = Some x \<or> r = Some x" for x m'
    using that p Suc.prems by (intro Suc.IH) fastforce
  show ?case
    using rec by (simp add: parse_Suc rt rs pu Let_def split: option.split)
qed

text \<open>Merging looks only at contents.\<close>

lemma merge_same:
  assumes "cell_ok L" and "same L a a'" and "same L b b'"
  shows "same L (merge L a b) (merge L a' b')"
  using assms by (simp add: same_def merge_eq view_set view_set_unknowns unknowns_set unknowns_set_view)

lemma merge_into_empty:
  assumes "cell_ok L" and "view L m0 = []" and "unknowns m0 = []"
  shows "same L (merge L m0 m) m"
  using assms by (simp add: same_def merge_eq view_set view_set_unknowns unknowns_set unknowns_set_view)

lemma rounds_bound:
  assumes "lib_ok L" and "sendable L m"
  shows "rounds L m \<le> length (serialize L m)"
proof -
  have ok: "wire_ok L" using assms(1) by (simp add: lib_ok_def)
  have "length us \<le> length (concat (map (write_unknown L) us))" for us
  proof (induction us)
    case (Cons f us)
    have "write_unknown L f \<noteq> []" using wire_unknown [OF ok] by blast
    then have "1 \<le> length (write_unknown L f)" by (simp add: Suc_le_eq)
    with Cons show ?case by simp
  qed simp
  moreover have "view L m \<noteq> [] \<Longrightarrow> 1 \<le> length (write_string L 1 (view L m))"
    using wire_string [OF ok] assms(2) by (simp add: sendable_def Suc_le_eq)
  ultimately show ?thesis by (auto simp: rounds_def serialize_eq add_mono)
qed

text \<open>Round trip through the wire format, unknown fields included.\<close>

lemma roundtrip:
  assumes "lib_ok L" and "sendable L m" and "view L m0 = []" and "unknowns m0 = []"
    and "length (serialize L m) < n"
  shows "\<exists>m1. parse L n m0 (serialize L m) = Some (m1, Some [], None) \<and> same L m1 m"
proof -
  have ok: "wire_ok L" "cell_ok L" using assms(1) by (simp_all add: lib_ok_def)
  obtain k where n: "n = rounds L m + Suc 0 + k"
  proof
    show "n = rounds L m + Suc 0 + (n - Suc (rounds L m))"
      using rounds_bound [OF assms(1,2)] assms(5) by simp
  qed
  from parse_serialized [OF assms(1,2), of "Suc 0" m0 "[]"]
  obtain m1 where m1: "parse L (rounds L m + Suc 0) m0 (serialize L m) = Some (m1, Some [], None)"
    "same L m1 (merge L m0 m)"
    by (auto simp: parse_end [OF ok(1)])
  with parse_more_fuel [OF m1(1), of k] merge_into_empty [OF ok(2) assms(3,4), of m] show ?thesis
    by (auto simp: n same_def)
qed

text \<open>Two serialized messages one after the other parse to the first merged with the second.\<close>

lemma concatenation_merges:
  assumes "lib_ok L" and "sendable L a" and "sendable L b"
    and "length (serialize L a) + length (serialize L b) < n"
  shows "\<exists>m1. parse L n m0 (serialize L a @ serialize L b) = Some (m1, Some [], None)
     \<and> same L m1 (merge L (merge L m0 a) b)"
proof -
  have ok: "wire_ok L" "cell_ok L" using assms(1) by (simp_all add: lib_ok_def)
  obtain k where n: "n = rounds L a + (rounds L b + Suc 0) + k"
  proof
    show "n = rounds L a + (rounds L b + Suc 0) + (n - Suc (rounds L a + rounds L b))"
      using rounds_bound [OF assms(1,2)] rounds_bound [OF assms(1,3)] assms(4) by simp
  qed
  obtain m1 where m1: "parse L (rounds L a + (rounds L b + Suc 0)) m0 (serialize L a @ serialize L b) =
      parse L (rounds L b + Suc 0) m1 (serialize L b)" "same L m1 (merge L m0 a)"
    using parse_serialized [OF assms(1,2)] by blast
  obtain m2 where m2: "parse L (rounds L b + Suc 0) m1 (serialize L b) = Some (m2, Some [], None)"
    "same L m2 (merge L m1 b)"
    using parse_serialized [OF assms(1,3), of "Suc 0" m1 "[]"] by (auto simp: parse_end [OF ok(1)])
  have "same L (merge L m1 b) (merge L (merge L m0 a) b)"
    by (rule merge_same [OF ok(2) m1(2)]) (simp add: same_def)
  moreover have "parse L n m0 (serialize L a @ serialize L b) = Some (m2, Some [], None)"
    unfolding n by (rule parse_more_fuel) (simp only: m1(1) m2(1))
  ultimately show ?thesis using m2(2) by (auto simp: same_def)
qed

end

section \<open>Objects that are assigned, copied and swapped\<close>

text \<open>
  The methods that take two messages work on objects, so that the two may be the same one: a store
  maps addresses to messages, and \<open>None\<close> is a dangling pointer.
\<close>

type_synonym 'm store = "nat \<Rightarrow> 'm option"

locale message_object = message_class view unknowns set_view set_unknowns parse serialize byte_size merge
  for view :: "('p, 'f) protobuf_lib \<Rightarrow> 'm \<Rightarrow> bytes"
    and unknowns :: "'m \<Rightarrow> 'f list"
    and set_view :: "('p, 'f) protobuf_lib \<Rightarrow> bytes \<Rightarrow> 'm \<Rightarrow> 'm"
    and set_unknowns :: "'f list \<Rightarrow> 'm \<Rightarrow> 'm"
    and parse :: "('p, 'f) protobuf_lib \<Rightarrow> nat \<Rightarrow> 'm \<Rightarrow> bytes \<Rightarrow> 'm parsed"
    and serialize :: "('p, 'f) protobuf_lib \<Rightarrow> 'm \<Rightarrow> bytes"
    and byte_size :: "('p, 'f) protobuf_lib \<Rightarrow> 'm \<Rightarrow> u64"
    and merge :: "('p, 'f) protobuf_lib \<Rightarrow> 'm \<Rightarrow> 'm \<Rightarrow> 'm" +
  fixes arena :: "'m \<Rightarrow> nat option"
    and clear :: "('p, 'f) protobuf_lib \<Rightarrow> 'm \<Rightarrow> 'm"
    and internal_swap :: "'m \<Rightarrow> 'm \<Rightarrow> 'm \<times> 'm"
    and copy_from :: "('p, 'f) protobuf_lib \<Rightarrow> nat \<Rightarrow> nat \<Rightarrow> 'm store \<Rightarrow> 'm store option"
    and move_assign :: "('p, 'f) protobuf_lib \<Rightarrow> nat \<Rightarrow> nat \<Rightarrow> 'm store \<Rightarrow> 'm store option"
  assumes clear_empty: "cell_ok L \<Longrightarrow> view L (clear L m) = [] \<and> unknowns (clear L m) = []"
    and internal_swap_contents: "internal_swap a b = (a', b') \<Longrightarrow>
      view L a' = view L b \<and> unknowns a' = unknowns b \<and> view L b' = view L a \<and> unknowns b' = unknowns a"
    and copy_self: "copy_from L this this st = Some st"
    and copy_other: "this \<noteq> from \<Longrightarrow> st this = Some t \<Longrightarrow> st from = Some f \<Longrightarrow>
      copy_from L this from st = Some (st(this \<mapsto> merge L (clear L t) f))"
    and move_self: "move_assign L this this st = Some st"
    and move_other: "this \<noteq> from \<Longrightarrow> st this = Some t \<Longrightarrow> st from = Some f \<Longrightarrow>
      move_assign L this from st =
        (if arena t = arena f
         then Some (st(this \<mapsto> fst (internal_swap t f), from \<mapsto> snd (internal_swap t f)))
         else copy_from L this from st)"
begin

text \<open>Copying makes the target equal to the source and changes no other object.\<close>

lemma copy_from_spec:
  assumes "cell_ok L" and "st this = Some t" and "st from = Some f"
  shows "\<exists>st' t'. copy_from L this from st = Some st' \<and> st' this = Some t' \<and> same L t' f
     \<and> (\<forall>a. a \<noteq> this \<longrightarrow> st' a = st a)"
proof (cases "this = from")
  case True
  with assms show ?thesis by (simp add: copy_self same_def)
next
  case False
  have "same L (merge L (clear L t) f) f"
    using clear_empty [OF assms(1)] by (intro merge_into_empty [OF assms(1)]) simp_all
  with False assms show ?thesis by (simp add: copy_other)
qed

text \<open>
  Moving gives the target the source's contents, also when the two are one object or live on
  different arenas, and leaves all other objects alone.
\<close>

lemma move_assign_spec:
  assumes "cell_ok L" and "st this = Some t" and "st from = Some f"
  shows "\<exists>st' t'. move_assign L this from st = Some st' \<and> st' this = Some t' \<and> same L t' f
     \<and> (\<forall>a. a \<noteq> this \<and> a \<noteq> from \<longrightarrow> st' a = st a)"
proof (cases "this = from \<or> arena t \<noteq> arena f")
  case True
  show ?thesis
  proof (cases "this = from")
    case True
    with assms show ?thesis by (simp add: move_self same_def)
  next
    case False
    with True copy_from_spec [OF assms] show ?thesis by (auto simp: move_other [OF False assms(2,3)])
  qed
next
  case False
  with assms internal_swap_contents [of t f "fst (internal_swap t f)" "snd (internal_swap t f)" L]
  show ?thesis by (auto simp: move_other same_def)
qed

end

end
