(* ===== verification/Wire_Format.thy ===== *)
theory Wire_Format
  imports Proto_Message
begin

text \<open>
  A concrete runtime that satisfies \<open>lib_ok\<close>, so that no theorem with that hypothesis is empty: a
  string cell is the string itself, lengths are base-128 varints, known strings are written with
  tag 10, and unknown fields are one-bit varints of field 2. It models nothing of the repository;
  it is the instance the closed examples use.
\<close>

section \<open>Varints\<close>

fun put_varint :: "nat \<Rightarrow> bytes" where
  "put_varint n =
     (if n < 128 then [char_of n] else char_of (n mod 128 + 128) # put_varint (n div 128))"

declare put_varint.simps [simp del]

fun get_varint :: "bytes \<Rightarrow> (nat \<times> bytes) option" where
  "get_varint [] = None"
| "get_varint (c # cs) =
     (let b = of_char c :: nat in
      if b < 128 then Some (b, cs)
      else (case get_varint cs of None \<Rightarrow> None | Some (n, rest) \<Rightarrow> Some (b - 128 + 128 * n, rest)))"

lemma get_put_varint: "get_varint (put_varint n @ rest) = Some (n, rest)"
proof (induction n rule: put_varint.induct)
  case (1 n)
  show ?case
  proof (cases "n < 128")
    case True
    then show ?thesis by (simp add: put_varint.simps of_char_of)
  next
    case False
    have "(n mod 128 + 128) mod 256 = n mod 128 + 128" by (simp add: mod_less)
    with False "1.IH" [OF False] show ?thesis
      by (simp add: put_varint.simps [of n] of_char_of Let_def)
  qed
qed

lemma get_varint_shorter: "get_varint bs = Some (n, rest) \<Longrightarrow> length rest < length bs"
proof (induction bs arbitrary: n)
  case Nil
  then show ?case by simp
next
  case (Cons c cs)
  then show ?case by (fastforce simp: Let_def split: if_splits option.splits)
qed

section \<open>The instance\<close>

definition wire_read_tag :: "bytes \<Rightarrow> u32 \<times> bytes option" where
  "wire_read_tag bs =
     (case bs of
        [] \<Rightarrow> (0, None)
      | c # cs \<Rightarrow> (let b = of_char c :: nat in if b < 128 then (of_nat b, Some cs) else (0, None)))"

definition wire_read_string :: "bytes option \<Rightarrow> bytes \<times> bytes option" where
  "wire_read_string p =
     (case p of
        None \<Rightarrow> ([], None)
      | Some bs \<Rightarrow>
          (case get_varint bs of
             None \<Rightarrow> ([], None)
           | Some (n, rest) \<Rightarrow>
               if length rest < n then ([], None) else (take n rest, Some (drop n rest))))"

definition wire_parse_unknown :: "u32 \<Rightarrow> bool list \<Rightarrow> bytes option \<Rightarrow> bool list \<times> bytes option" where
  "wire_parse_unknown tag us p =
     (case p of
        Some (c # rest) \<Rightarrow> if tag = 16 then (us @ [c = CHR 0x01], Some rest) else (us, None)
      | _ \<Rightarrow> (us, None))"

definition ascii :: "bytes \<Rightarrow> bool" where
  "ascii s \<longleftrightarrow> list_all (\<lambda>c. (of_char c :: nat) < 128) s"

definition wire_lib :: "(bytes, bool) protobuf_lib" where
  "wire_lib = \<lparr>
     asp_default = [],
     asp_get = (\<lambda>p. p),
     asp_set = (\<lambda>s p. s),
     asp_clear = (\<lambda>p. []),
     asp_release = (\<lambda>p. (p, [])),
     asp_set_allocated = (\<lambda>s p. case s of None \<Rightarrow> [] | Some t \<Rightarrow> t),
     ctx_done = (\<lambda>bs. bs = []),
     read_tag = wire_read_tag,
     read_string = wire_read_string,
     verify_utf8 = ascii,
     parse_unknown = wire_parse_unknown,
     write_string = (\<lambda>n s. char_of (8 * n + 2) # put_varint (length s) @ s),
     write_unknown = (\<lambda>f. [CHR 0x10, if f then CHR 0x01 else CHR 0x00]),
     string_size = (\<lambda>s. of_nat (length (put_varint (length s)) + length s)),
     unknown_size = (\<lambda>f. 2),
     to_cached_size = ucast\<rparr>"

lemma wire_get [simp]: "asp_get wire_lib p = p"
  by (simp add: wire_lib_def)

lemma wire_cell_ok: "cell_ok wire_lib"
  by (simp add: cell_ok_def wire_lib_def)

lemma sint_ucast: "sint (ucast (n :: u64) :: u32) = signed_take_bit 31 (uint n)"
  by transfer (simp add: signed_take_bit_take_bit)

lemma sint_small: "unat (n :: u64) < 2 ^ 31 \<Longrightarrow> sint (ucast n :: u32) = int (unat n)"
proof -
  assume "unat n < 2 ^ 31"
  then have "int (unat n) < int (2 ^ 31)" by (simp only: of_nat_less_iff)
  then have "uint n < 2 ^ 31" by simp
  moreover have "0 \<le> uint n" by simp
  ultimately have "signed_take_bit 31 (uint n) = uint n" by (intro signed_take_bit_int_eq_self) linarith+
  then show ?thesis by (simp add: sint_ucast)
qed

lemma wire_size_ok: "size_ok wire_lib"
  by (simp add: size_ok_def wire_lib_def sint_small)

lemma wire_progress_ok: "progress_ok wire_lib"
  by (auto simp: progress_ok_def wire_lib_def wire_read_tag_def wire_read_string_def
      wire_parse_unknown_def Let_def dest: get_varint_shorter
      split: list.splits option.splits if_splits)

lemma wire_wire_ok: "wire_ok wire_lib"
proof -
  have "wire_read_tag ((char_of (10::nat) # put_varint (length s) @ s) @ rest) =
      (10, Some (put_varint (length s) @ s @ rest))" for s rest
    by (simp add: wire_read_tag_def of_char_of)
  moreover have "wire_read_string (Some (put_varint (length s) @ s @ rest)) = (s, Some rest)" for s rest
    by (simp add: wire_read_string_def get_put_varint)
  moreover have "wire_read_tag ([CHR 0x10, b] @ rest) = (16, Some (b # rest))" for b rest
    by (simp add: wire_read_tag_def)
  moreover have "\<not> name_tag 16" "\<not> end_tag 16" by (simp_all add: name_tag_def end_tag_def)
  ultimately show ?thesis
    by (auto simp: wire_ok_def wire_lib_def wire_parse_unknown_def)
qed

lemma wire_lib_ok: "lib_ok wire_lib"
  by (simp add: lib_ok_def wire_cell_ok wire_wire_ok wire_size_ok wire_progress_ok)

end
