(* ===== verification/Hello_Request.thy ===== *)
theory Hello_Request
  imports Wire_Format
begin

text \<open>
  \<open>class HelloRequest\<close> as \<open>protoc\<close> generated it into \<open>include/helloworld.pb.h\<close> and
  \<open>src/helloworld.pb.cc\<close>: one string field \<open>name\<close>, the unknown fields, the owning arena and the
  cached size. The runtime is the parameter \<open>L\<close> of \<open>Proto_Message\<close>. The methods are translated one
  by one; the class then keeps the contracts \<open>message_class\<close> and \<open>message_object\<close>, from which its
  properties follow.
\<close>

section \<open>The object\<close>

record ('p, 'f) hello_request =
  req_ptr :: 'p
  req_unknown :: "'f list"
  req_arena :: "nat option"
  req_cached_size :: u32

text \<open>\<open>SharedCtor\<close>, run by every constructor but the constant one.\<close>

definition HelloRequest_SharedCtor ::
  "('p, 'f) protobuf_lib \<Rightarrow> ('p, 'f) hello_request \<Rightarrow> ('p, 'f) hello_request" where
  "HelloRequest_SharedCtor L m = m\<lparr>req_ptr := asp_default L\<rparr>"

definition HelloRequest :: "('p, 'f) protobuf_lib \<Rightarrow> nat option \<Rightarrow> ('p, 'f) hello_request" where
  "HelloRequest L arena = HelloRequest_SharedCtor L
     \<lparr>req_ptr = asp_default L, req_unknown = [], req_arena = arena, req_cached_size = 0\<rparr>"

section \<open>Accessors of the field\<close>

definition HelloRequest_name :: "('p, 'f) protobuf_lib \<Rightarrow> ('p, 'f) hello_request \<Rightarrow> bytes" where
  "HelloRequest_name L m = asp_get L (req_ptr m)"

definition HelloRequest_set_name ::
  "('p, 'f) protobuf_lib \<Rightarrow> bytes \<Rightarrow> ('p, 'f) hello_request \<Rightarrow> ('p, 'f) hello_request" where
  "HelloRequest_set_name L s m = m\<lparr>req_ptr := asp_set L s (req_ptr m)\<rparr>"

definition HelloRequest_clear_name ::
  "('p, 'f) protobuf_lib \<Rightarrow> ('p, 'f) hello_request \<Rightarrow> ('p, 'f) hello_request" where
  "HelloRequest_clear_name L m = m\<lparr>req_ptr := asp_clear L (req_ptr m)\<rparr>"

definition HelloRequest_release_name ::
  "('p, 'f) protobuf_lib \<Rightarrow> ('p, 'f) hello_request \<Rightarrow> bytes \<times> ('p, 'f) hello_request" where
  "HelloRequest_release_name L m = (let (s, p) = asp_release L (req_ptr m) in (s, m\<lparr>req_ptr := p\<rparr>))"

definition HelloRequest_set_allocated_name ::
  "('p, 'f) protobuf_lib \<Rightarrow> bytes option \<Rightarrow> ('p, 'f) hello_request \<Rightarrow> ('p, 'f) hello_request" where
  "HelloRequest_set_allocated_name L s m = m\<lparr>req_ptr := asp_set_allocated L s (req_ptr m)\<rparr>"

text \<open>\<open>_internal_set_name\<close> is what the class itself uses.\<close>

definition HelloRequest_internal_set_name ::
  "('p, 'f) protobuf_lib \<Rightarrow> bytes \<Rightarrow> ('p, 'f) hello_request \<Rightarrow> ('p, 'f) hello_request" where
  "HelloRequest_internal_set_name L s m = m\<lparr>req_ptr := asp_set L s (req_ptr m)\<rparr>"

section \<open>Whole-message methods\<close>

definition HelloRequest_copy :: "('p, 'f) protobuf_lib \<Rightarrow> ('p, 'f) hello_request \<Rightarrow> ('p, 'f) hello_request" where
  "HelloRequest_copy L from =
     (let m = \<lparr>req_ptr = asp_default L, req_unknown = req_unknown from, req_arena = None,
               req_cached_size = 0\<rparr>
      in if HelloRequest_name L from \<noteq> [] then m\<lparr>req_ptr := asp_set L (HelloRequest_name L from) (req_ptr m)\<rparr> else m)"

definition HelloRequest_Clear :: "('p, 'f) protobuf_lib \<Rightarrow> ('p, 'f) hello_request \<Rightarrow> ('p, 'f) hello_request" where
  "HelloRequest_Clear L m = m\<lparr>req_ptr := asp_clear L (req_ptr m), req_unknown := []\<rparr>"

definition HelloRequest_MergeFrom ::
  "('p, 'f) protobuf_lib \<Rightarrow> ('p, 'f) hello_request \<Rightarrow> ('p, 'f) hello_request \<Rightarrow> ('p, 'f) hello_request" where
  "HelloRequest_MergeFrom L m from =
     (let m1 = (if HelloRequest_name L from \<noteq> [] then HelloRequest_internal_set_name L (HelloRequest_name L from) m else m)
      in m1\<lparr>req_unknown := req_unknown m1 @ req_unknown from\<rparr>)"

text \<open>The cache of the size, an \<open>int\<close>.\<close>

definition HelloRequest_GetCachedSize :: "('p, 'f) hello_request \<Rightarrow> int" where
  "HelloRequest_GetCachedSize m = sint (req_cached_size m)"

definition HelloRequest_SetCachedSize ::
  "u32 \<Rightarrow> ('p, 'f) hello_request \<Rightarrow> ('p, 'f) hello_request" where
  "HelloRequest_SetCachedSize sz m = m\<lparr>req_cached_size := sz\<rparr>"

text \<open>
  \<open>ByteSizeLong\<close> returns the size, in \<open>size_t\<close>, and caches it as an \<open>int\<close>: what
  \<open>MaybeComputeUnknownFieldsSize\<close> adds is the size of the unknown fields, when there are any.
\<close>

definition HelloRequest_ByteSizeLong ::
  "('p, 'f) protobuf_lib \<Rightarrow> ('p, 'f) hello_request \<Rightarrow> u64 \<times> ('p, 'f) hello_request" where
  "HelloRequest_ByteSizeLong L m =
     (let total_size = (if HelloRequest_name L m \<noteq> [] then 0 + (1 + string_size L (HelloRequest_name L m)) else 0);
          size = (if req_unknown m \<noteq> []
                  then total_size + sum_list (map (unknown_size L) (req_unknown m)) else total_size)
      in (size, HelloRequest_SetCachedSize (to_cached_size L size) m))"

text \<open>
  \<open>_InternalSerialize\<close> appends to the target. The UTF-8 check on this side only logs.
\<close>

definition HelloRequest_InternalSerialize ::
  "('p, 'f) protobuf_lib \<Rightarrow> ('p, 'f) hello_request \<Rightarrow> bytes \<Rightarrow> bytes" where
  "HelloRequest_InternalSerialize L m target =
     (let target1 = (if HelloRequest_name L m \<noteq> [] then target @ write_string L 1 (HelloRequest_name L m) else target)
      in if req_unknown m \<noteq> [] then target1 @ concat (map (write_unknown L) (req_unknown m))
         else target1)"

text \<open>
  \<open>_InternalParse\<close>, one unit of fuel per round of its loop. The result is the message, the pointer
  returned (\<open>None\<close> for the null pointer of \<open>failure\<close>) and the tag stored by \<open>SetLastTag\<close>. The
  UTF-8 check comes before the check of the pointer, as in the code.
\<close>

fun HelloRequest_InternalParse ::
  "('p, 'f) protobuf_lib \<Rightarrow> nat \<Rightarrow> ('p, 'f) hello_request \<Rightarrow> bytes
    \<Rightarrow> (('p, 'f) hello_request \<times> bytes option \<times> u32 option) option" where
  "HelloRequest_InternalParse L 0 m ptr = None"
| "HelloRequest_InternalParse L (Suc fuel) m ptr =
     (if ctx_done L ptr then Some (m, Some ptr, None)
      else
        (let (tag, ptr1) = read_tag L ptr in
         if drop_bit 3 tag = 1 \<and> (ucast tag :: 8 word) = 10 then
           (let (str, ptr2) = read_string L ptr1;
                m1 = m\<lparr>req_ptr := asp_set L str (req_ptr m)\<rparr>
            in if \<not> verify_utf8 L str then Some (m1, None, None)
               else (case ptr2 of
                       None \<Rightarrow> Some (m1, None, None)
                     | Some ptr3 \<Rightarrow> HelloRequest_InternalParse L fuel m1 ptr3))
         else if tag = 0 \<or> tag AND 7 = 4 then
           (case ptr1 of
              None \<Rightarrow> Some (m, None, None)
            | Some ptr2 \<Rightarrow> Some (m, Some ptr2, Some tag))
         else
           (let (unknown, ptr2) = parse_unknown L tag (req_unknown m) ptr1;
                m1 = m\<lparr>req_unknown := unknown\<rparr>
            in case ptr2 of
                 None \<Rightarrow> Some (m1, None, None)
               | Some ptr3 \<Rightarrow> HelloRequest_InternalParse L fuel m1 ptr3)))"

definition HelloRequest_IsInitialized :: "('p, 'f) hello_request \<Rightarrow> bool" where
  "HelloRequest_IsInitialized m \<longleftrightarrow> True"

section \<open>Methods on two objects\<close>

text \<open>
  \<open>CopyFrom\<close> clears the target before it reads the source, so the guard against self-copying is
  what keeps a message that is copied to itself.
\<close>

definition HelloRequest_CopyFrom ::
  "('p, 'f) protobuf_lib \<Rightarrow> nat \<Rightarrow> nat \<Rightarrow> ('p, 'f) hello_request store \<Rightarrow> ('p, 'f) hello_request store option" where
  "HelloRequest_CopyFrom L this from st =
     (if from = this then Some st
      else (case st this of
              None \<Rightarrow> None
            | Some t \<Rightarrow>
                (let st1 = st(this \<mapsto> HelloRequest_Clear L t) in
                 case (st1 this, st1 from) of
                   (Some t1, Some f) \<Rightarrow> Some (st1(this \<mapsto> HelloRequest_MergeFrom L t1 f))
                 | _ \<Rightarrow> None)))"

definition HelloRequest_InternalSwap ::
  "('p, 'f) hello_request \<Rightarrow> ('p, 'f) hello_request \<Rightarrow> ('p, 'f) hello_request \<times> ('p, 'f) hello_request" where
  "HelloRequest_InternalSwap this other =
     (this\<lparr>req_unknown := req_unknown other, req_ptr := req_ptr other\<rparr>,
      other\<lparr>req_unknown := req_unknown this, req_ptr := req_ptr this\<rparr>)"

text \<open>The move assignment, without the debugging macro \<open>PROTOBUF_FORCE_COPY_IN_MOVE\<close>.\<close>

definition HelloRequest_move_assign ::
  "('p, 'f) protobuf_lib \<Rightarrow> nat \<Rightarrow> nat \<Rightarrow> ('p, 'f) hello_request store \<Rightarrow> ('p, 'f) hello_request store option" where
  "HelloRequest_move_assign L this from st =
     (if this = from then Some st
      else (case (st this, st from) of
              (Some t, Some f) \<Rightarrow>
                (if req_arena t = req_arena f
                 then (let (t', f') = HelloRequest_InternalSwap t f in Some (st(this \<mapsto> t', from \<mapsto> f')))
                 else HelloRequest_CopyFrom L this from st)
            | _ \<Rightarrow> None))"

text \<open>\<open>Swap\<close>; the library's \<open>GenericSwap\<close>, for different arenas, is a parameter.\<close>

definition HelloRequest_Swap ::
  "(('p, 'f) hello_request \<Rightarrow> ('p, 'f) hello_request \<Rightarrow> ('p, 'f) hello_request \<times> ('p, 'f) hello_request)
    \<Rightarrow> nat \<Rightarrow> nat \<Rightarrow> ('p, 'f) hello_request store \<Rightarrow> ('p, 'f) hello_request store option" where
  "HelloRequest_Swap GenericSwap this other st =
     (if other = this then Some st
      else (case (st this, st other) of
              (Some t, Some u) \<Rightarrow>
                (let (t', u') = (if req_arena t = req_arena u then HelloRequest_InternalSwap t u
                                 else GenericSwap t u)
                 in Some (st(this \<mapsto> t', other \<mapsto> u')))
            | _ \<Rightarrow> None))"

section \<open>The class keeps the contracts\<close>

lemmas hello_request_accessors [wire_simps] =
  HelloRequest_name_def HelloRequest_set_name_def HelloRequest_internal_set_name_def HelloRequest_clear_name_def

lemma HelloRequest_new [wire_simps]:
  "cell_ok L \<Longrightarrow> HelloRequest_name L (HelloRequest L arena) = []"
  "req_unknown (HelloRequest L arena) = []" "req_arena (HelloRequest L arena) = arena"
  by (simp_all add: HelloRequest_def HelloRequest_SharedCtor_def HelloRequest_name_def cell_ok_def)

lemma HelloRequest_MergeFrom_unknown [wire_simps]:
  "req_unknown (HelloRequest_MergeFrom L m from) = req_unknown m @ req_unknown from"
  by (simp add: HelloRequest_MergeFrom_def HelloRequest_internal_set_name_def Let_def)

lemma HelloRequest_parse_step:
  "HelloRequest_InternalParse L (Suc n) m bs =
    (if ctx_done L bs then Some (m, Some bs, None)
     else (let (tag, p) = read_tag L bs in
       if name_tag tag then
         (let (s, q) = read_string L p; m1 = HelloRequest_set_name L s m in
          if \<not> verify_utf8 L s then Some (m1, None, None)
          else (case q of None \<Rightarrow> Some (m1, None, None) | Some bs' \<Rightarrow> HelloRequest_InternalParse L n m1 bs'))
       else if end_tag tag then
         (case p of None \<Rightarrow> Some (m, None, None) | Some bs' \<Rightarrow> Some (m, Some bs', Some tag))
       else
         (let (us, q) = parse_unknown L tag (req_unknown m) p; m1 = m\<lparr>req_unknown := us\<rparr> in
          case q of None \<Rightarrow> Some (m1, None, None) | Some bs' \<Rightarrow> HelloRequest_InternalParse L n m1 bs')))"
  by (simp only: HelloRequest_InternalParse.simps HelloRequest_set_name_def name_tag_def end_tag_def)

declare HelloRequest_InternalParse.simps(2) [simp del]

interpretation req: message_object HelloRequest_name req_unknown HelloRequest_set_name "\<lambda>us m. m\<lparr>req_unknown := us\<rparr>"
  HelloRequest_InternalParse "\<lambda>L m. HelloRequest_InternalSerialize L m []" "\<lambda>L m. fst (HelloRequest_ByteSizeLong L m)"
  HelloRequest_MergeFrom req_arena HelloRequest_Clear HelloRequest_InternalSwap HelloRequest_CopyFrom HelloRequest_move_assign
  by unfold_locales
    (simp_all add: HelloRequest_parse_step HelloRequest_name_def HelloRequest_set_name_def HelloRequest_internal_set_name_def
      HelloRequest_InternalSerialize_def HelloRequest_ByteSizeLong_def HelloRequest_MergeFrom_def HelloRequest_Clear_def
      HelloRequest_InternalSwap_def HelloRequest_CopyFrom_def HelloRequest_move_assign_def cell_ok_def Let_def
      split: prod.split, auto)

section \<open>Properties\<close>

text \<open>
  C14. Round trip: a request whose name is text and can be carried, serialized and parsed into a
  fresh object, comes back with the same name and the same unknown fields, and the parser has
  consumed the whole input. One round of the parse loop per byte is enough.
\<close>

theorem HelloRequest_roundtrip:
  assumes "lib_ok L" and "fits (HelloRequest_name L m)" and "verify_utf8 L (HelloRequest_name L m)"
    and "length (HelloRequest_InternalSerialize L m []) < fuel"
  shows "\<exists>m1. HelloRequest_InternalParse L fuel (HelloRequest L arena)
             (HelloRequest_InternalSerialize L m []) = Some (m1, Some [], None)
         \<and> HelloRequest_name L m1 = HelloRequest_name L m \<and> req_unknown m1 = req_unknown m"
  using req.roundtrip [of L m "HelloRequest L arena" fuel] assms
  by (simp add: req.sendable_def req.same_def HelloRequest_new lib_ok_def)

theorem HelloRequest_roundtrip_witness:
  "\<exists>m1. HelloRequest_InternalParse wire_lib 12 (HelloRequest wire_lib None)
       (HelloRequest_InternalSerialize wire_lib
          \<lparr>req_ptr = ''world'', req_unknown = [True, False], req_arena = None, req_cached_size = 0\<rparr> [])
     = Some (m1, Some [], None) \<and> HelloRequest_name wire_lib m1 = ''world''"
  using HelloRequest_roundtrip [OF wire_lib_ok,
      of "\<lparr>req_ptr = ''world'', req_unknown = [True, False], req_arena = None, req_cached_size = 0\<rparr>" 12]
  by (auto simp: HelloRequest_InternalSerialize_def HelloRequest_name_def wire_lib_def fits_def
      ascii_def put_varint.simps)

text \<open>
  C31. \<open>ByteSizeLong\<close> announces what \<open>_InternalSerialize\<close> appends to its target: the number of bytes,
  up to the width of \<open>size_t\<close>. A message of less than 2 GiB has that number also in its cached size;
  nothing but the cache changes.
\<close>

theorem HelloRequest_ByteSizeLong_exact:
  assumes "size_ok L" and "fits (HelloRequest_name L m)" and "HelloRequest_ByteSizeLong L m = (sz, m')"
    and "HelloRequest_InternalSerialize L m target = target @ bytes" and "length bytes < 2 ^ 64"
  shows "unat sz = length bytes
     \<and> (length bytes < 2 ^ 31 \<longrightarrow> HelloRequest_GetCachedSize m' = int (length bytes))
     \<and> HelloRequest_InternalSerialize L m' target = target @ bytes
     \<and> m'\<lparr>req_cached_size := req_cached_size m\<rparr> = m"
proof -
  have append: "HelloRequest_InternalSerialize L m target = target @ HelloRequest_InternalSerialize L m []"
    by (simp add: HelloRequest_InternalSerialize_def Let_def)
  have "sz = of_nat (length bytes)"
    using req.size_serialized [OF assms(1,2)] append assms(3,4) by simp
  then have sz: "unat sz = length bytes" using assms(5) by (simp add: unat_of_nat)
  have m': "m' = HelloRequest_SetCachedSize (to_cached_size L sz) m"
    using assms(3) by (auto simp: HelloRequest_ByteSizeLong_def Let_def)
  then have "HelloRequest_InternalSerialize L m' target = HelloRequest_InternalSerialize L m target"
    by (simp add: HelloRequest_InternalSerialize_def HelloRequest_SetCachedSize_def HelloRequest_name_def)
  moreover have "sint (to_cached_size L sz) = int (length bytes)" if "length bytes < 2 ^ 31"
    using assms(1) sz that unfolding size_ok_def by metis
  ultimately show ?thesis
    using sz assms(4) by (simp add: m' HelloRequest_GetCachedSize_def HelloRequest_SetCachedSize_def)
qed

theorem HelloRequest_ByteSizeLong_exact_witness:
  "let m' = snd (HelloRequest_ByteSizeLong wire_lib
     \<lparr>req_ptr = ''world'', req_unknown = [True], req_arena = None, req_cached_size = 0\<rparr>)
   in HelloRequest_GetCachedSize m' = 9"
proof -
  let ?m = "\<lparr>req_ptr = ''world'', req_unknown = [True], req_arena = None, req_cached_size = 0\<rparr>"
  obtain sz m' where m': "HelloRequest_ByteSizeLong wire_lib ?m = (sz, m')" by fastforce
  have "length (HelloRequest_InternalSerialize wire_lib ?m []) = 9" "fits (HelloRequest_name wire_lib ?m)"
    by (simp_all add: HelloRequest_InternalSerialize_def HelloRequest_name_def wire_lib_def put_varint.simps fits_def)
  with HelloRequest_ByteSizeLong_exact [OF wire_size_ok _ m', of "[]"] show ?thesis by (simp add: m')
qed

text \<open>
  C29. The parser always returns: on any input, well formed or not, as many loop rounds as there
  are bytes, and one more, are enough.
\<close>

theorem HelloRequest_parse_terminates:
  assumes "progress_ok L" and "length bs < fuel"
  shows "\<exists>m1 ptr tag. HelloRequest_InternalParse L fuel m bs = Some (m1, ptr, tag)"
  using req.parse_terminates [OF assms] by auto

theorem HelloRequest_parse_terminates_witness:
  "\<exists>m1 ptr tag. HelloRequest_InternalParse wire_lib 4 (HelloRequest wire_lib None)
     [CHR 0x0A, CHR 0x05, CHR 0x61] = Some (m1, ptr, tag)"
  using HelloRequest_parse_terminates [OF wire_progress_ok, of "[CHR 0x0A, CHR 0x05, CHR 0x61]" 4]
  by simp

text \<open>
  A request whose name is not valid UTF-8 is rejected: the parser returns the null pointer,
  whatever follows the name in the input.
\<close>

lemma HelloRequest_rejects_bad_utf8:
  assumes "wire_ok L" and "fits s" and "\<not> verify_utf8 L s"
  shows "HelloRequest_InternalParse L (Suc fuel) m (write_string L 1 s @ rest) =
         Some (HelloRequest_set_name L s m, None, None)"
proof -
  obtain p where p: "read_tag L (write_string L 1 s @ rest) = (10, Some p)"
    "read_string L (Some p) = (s, Some rest)" and ne: "write_string L 1 s \<noteq> []"
    using wire_string [OF assms(1,2)] by blast
  have "name_tag 10" by (simp add: name_tag_def)
  with p ne assms(3) show ?thesis
    by (simp add: HelloRequest_parse_step Let_def wire_done [OF assms(1)])
qed

text \<open>
  C30. \<open>CopyFrom\<close>, also when source and target are the same object: afterwards the target has the
  source's contents and no other object has changed.
\<close>

theorem HelloRequest_CopyFrom_aliasing:
  assumes "cell_ok L" and "st this = Some t" and "st from = Some f"
  shows "\<exists>st' t'. HelloRequest_CopyFrom L this from st = Some st' \<and> st' this = Some t'
     \<and> HelloRequest_name L t' = HelloRequest_name L f \<and> req_unknown t' = req_unknown f
     \<and> (\<forall>a. a \<noteq> this \<longrightarrow> st' a = st a)"
  using req.copy_from_spec [OF assms] by (simp add: req.same_def)

theorem HelloRequest_CopyFrom_aliasing_witness:
  "\<exists>st' t'. HelloRequest_CopyFrom wire_lib 1 1
       [1 \<mapsto> \<lparr>req_ptr = ''world'', req_unknown = [True], req_arena = None, req_cached_size = 0\<rparr>] = Some st'
     \<and> st' 1 = Some t' \<and> HelloRequest_name wire_lib t' = ''world''"
  using HelloRequest_CopyFrom_aliasing [OF wire_cell_ok,
      of "[1 \<mapsto> \<lparr>req_ptr = ''world'', req_unknown = [True], req_arena = None, req_cached_size = 0\<rparr>]" 1 _ 1]
  by (force simp: HelloRequest_name_def)

end
