(* ===== verification/Hello_Reply.thy ===== *)
theory Hello_Reply
  imports Wire_Format
begin

text \<open>
  \<open>class HelloReply\<close> as \<open>protoc\<close> generated it into \<open>include/helloworld.pb.h\<close> and
  \<open>src/helloworld.pb.cc\<close>: one string field \<open>message\<close>, the unknown fields, the owning arena and the
  cached size. The runtime is the parameter \<open>L\<close> of \<open>Proto_Message\<close>. The methods are translated one
  by one; the class then keeps the contracts \<open>message_class\<close> and \<open>message_object\<close>, from which its
  properties follow.
\<close>

section \<open>The object\<close>

record ('p, 'f) hello_reply =
  rep_ptr :: 'p
  rep_unknown :: "'f list"
  rep_arena :: "nat option"
  rep_cached_size :: u32

text \<open>\<open>SharedCtor\<close>, run by every constructor but the constant one.\<close>

definition HelloReply_SharedCtor ::
  "('p, 'f) protobuf_lib \<Rightarrow> ('p, 'f) hello_reply \<Rightarrow> ('p, 'f) hello_reply" where
  "HelloReply_SharedCtor L m = m\<lparr>rep_ptr := asp_default L\<rparr>"

definition HelloReply :: "('p, 'f) protobuf_lib \<Rightarrow> nat option \<Rightarrow> ('p, 'f) hello_reply" where
  "HelloReply L arena = HelloReply_SharedCtor L
     \<lparr>rep_ptr = asp_default L, rep_unknown = [], rep_arena = arena, rep_cached_size = 0\<rparr>"

section \<open>Accessors of the field\<close>

definition HelloReply_message :: "('p, 'f) protobuf_lib \<Rightarrow> ('p, 'f) hello_reply \<Rightarrow> bytes" where
  "HelloReply_message L m = asp_get L (rep_ptr m)"

definition HelloReply_set_message ::
  "('p, 'f) protobuf_lib \<Rightarrow> bytes \<Rightarrow> ('p, 'f) hello_reply \<Rightarrow> ('p, 'f) hello_reply" where
  "HelloReply_set_message L s m = m\<lparr>rep_ptr := asp_set L s (rep_ptr m)\<rparr>"

definition HelloReply_clear_message ::
  "('p, 'f) protobuf_lib \<Rightarrow> ('p, 'f) hello_reply \<Rightarrow> ('p, 'f) hello_reply" where
  "HelloReply_clear_message L m = m\<lparr>rep_ptr := asp_clear L (rep_ptr m)\<rparr>"

definition HelloReply_release_message ::
  "('p, 'f) protobuf_lib \<Rightarrow> ('p, 'f) hello_reply \<Rightarrow> bytes \<times> ('p, 'f) hello_reply" where
  "HelloReply_release_message L m = (let (s, p) = asp_release L (rep_ptr m) in (s, m\<lparr>rep_ptr := p\<rparr>))"

definition HelloReply_set_allocated_message ::
  "('p, 'f) protobuf_lib \<Rightarrow> bytes option \<Rightarrow> ('p, 'f) hello_reply \<Rightarrow> ('p, 'f) hello_reply" where
  "HelloReply_set_allocated_message L s m = m\<lparr>rep_ptr := asp_set_allocated L s (rep_ptr m)\<rparr>"

text \<open>\<open>_internal_set_message\<close> is what the class itself uses.\<close>

definition HelloReply_internal_set_message ::
  "('p, 'f) protobuf_lib \<Rightarrow> bytes \<Rightarrow> ('p, 'f) hello_reply \<Rightarrow> ('p, 'f) hello_reply" where
  "HelloReply_internal_set_message L s m = m\<lparr>rep_ptr := asp_set L s (rep_ptr m)\<rparr>"

section \<open>Whole-message methods\<close>

definition HelloReply_copy :: "('p, 'f) protobuf_lib \<Rightarrow> ('p, 'f) hello_reply \<Rightarrow> ('p, 'f) hello_reply" where
  "HelloReply_copy L from =
     (let m = \<lparr>rep_ptr = asp_default L, rep_unknown = rep_unknown from, rep_arena = None,
               rep_cached_size = 0\<rparr>
      in if HelloReply_message L from \<noteq> [] then m\<lparr>rep_ptr := asp_set L (HelloReply_message L from) (rep_ptr m)\<rparr> else m)"

definition HelloReply_Clear :: "('p, 'f) protobuf_lib \<Rightarrow> ('p, 'f) hello_reply \<Rightarrow> ('p, 'f) hello_reply" where
  "HelloReply_Clear L m = m\<lparr>rep_ptr := asp_clear L (rep_ptr m), rep_unknown := []\<rparr>"

definition HelloReply_MergeFrom ::
  "('p, 'f) protobuf_lib \<Rightarrow> ('p, 'f) hello_reply \<Rightarrow> ('p, 'f) hello_reply \<Rightarrow> ('p, 'f) hello_reply" where
  "HelloReply_MergeFrom L m from =
     (let m1 = (if HelloReply_message L from \<noteq> [] then HelloReply_internal_set_message L (HelloReply_message L from) m else m)
      in m1\<lparr>rep_unknown := rep_unknown m1 @ rep_unknown from\<rparr>)"

text \<open>The cache of the size, an \<open>int\<close>.\<close>

definition HelloReply_GetCachedSize :: "('p, 'f) hello_reply \<Rightarrow> int" where
  "HelloReply_GetCachedSize m = sint (rep_cached_size m)"

definition HelloReply_SetCachedSize ::
  "u32 \<Rightarrow> ('p, 'f) hello_reply \<Rightarrow> ('p, 'f) hello_reply" where
  "HelloReply_SetCachedSize sz m = m\<lparr>rep_cached_size := sz\<rparr>"

text \<open>
  \<open>ByteSizeLong\<close> returns the size, in \<open>size_t\<close>, and caches it as an \<open>int\<close>: what
  \<open>MaybeComputeUnknownFieldsSize\<close> adds is the size of the unknown fields, when there are any.
\<close>

definition HelloReply_ByteSizeLong ::
  "('p, 'f) protobuf_lib \<Rightarrow> ('p, 'f) hello_reply \<Rightarrow> u64 \<times> ('p, 'f) hello_reply" where
  "HelloReply_ByteSizeLong L m =
     (let total_size = (if HelloReply_message L m \<noteq> [] then 0 + (1 + string_size L (HelloReply_message L m)) else 0);
          size = (if rep_unknown m \<noteq> []
                  then total_size + sum_list (map (unknown_size L) (rep_unknown m)) else total_size)
      in (size, HelloReply_SetCachedSize (to_cached_size L size) m))"

text \<open>
  \<open>_InternalSerialize\<close> appends to the target. The UTF-8 check on this side only logs.
\<close>

definition HelloReply_InternalSerialize ::
  "('p, 'f) protobuf_lib \<Rightarrow> ('p, 'f) hello_reply \<Rightarrow> bytes \<Rightarrow> bytes" where
  "HelloReply_InternalSerialize L m target =
     (let target1 = (if HelloReply_message L m \<noteq> [] then target @ write_string L 1 (HelloReply_message L m) else target)
      in if rep_unknown m \<noteq> [] then target1 @ concat (map (write_unknown L) (rep_unknown m))
         else target1)"

text \<open>
  \<open>_InternalParse\<close>, one unit of fuel per round of its loop. The result is the message, the pointer
  returned (\<open>None\<close> for the null pointer of \<open>failure\<close>) and the tag stored by \<open>SetLastTag\<close>. The
  UTF-8 check comes before the check of the pointer, as in the code.
\<close>

fun HelloReply_InternalParse ::
  "('p, 'f) protobuf_lib \<Rightarrow> nat \<Rightarrow> ('p, 'f) hello_reply \<Rightarrow> bytes
    \<Rightarrow> (('p, 'f) hello_reply \<times> bytes option \<times> u32 option) option" where
  "HelloReply_InternalParse L 0 m ptr = None"
| "HelloReply_InternalParse L (Suc fuel) m ptr =
     (if ctx_done L ptr then Some (m, Some ptr, None)
      else
        (let (tag, ptr1) = read_tag L ptr in
         if drop_bit 3 tag = 1 \<and> (ucast tag :: 8 word) = 10 then
           (let (str, ptr2) = read_string L ptr1;
                m1 = m\<lparr>rep_ptr := asp_set L str (rep_ptr m)\<rparr>
            in if \<not> verify_utf8 L str then Some (m1, None, None)
               else (case ptr2 of
                       None \<Rightarrow> Some (m1, None, None)
                     | Some ptr3 \<Rightarrow> HelloReply_InternalParse L fuel m1 ptr3))
         else if tag = 0 \<or> tag AND 7 = 4 then
           (case ptr1 of
              None \<Rightarrow> Some (m, None, None)
            | Some ptr2 \<Rightarrow> Some (m, Some ptr2, Some tag))
         else
           (let (unknown, ptr2) = parse_unknown L tag (rep_unknown m) ptr1;
                m1 = m\<lparr>rep_unknown := unknown\<rparr>
            in case ptr2 of
                 None \<Rightarrow> Some (m1, None, None)
               | Some ptr3 \<Rightarrow> HelloReply_InternalParse L fuel m1 ptr3)))"

definition HelloReply_IsInitialized :: "('p, 'f) hello_reply \<Rightarrow> bool" where
  "HelloReply_IsInitialized m \<longleftrightarrow> True"

section \<open>Methods on two objects\<close>

text \<open>
  \<open>CopyFrom\<close> clears the target before it reads the source, so the guard against self-copying is
  what keeps a message that is copied to itself.
\<close>

definition HelloReply_CopyFrom ::
  "('p, 'f) protobuf_lib \<Rightarrow> nat \<Rightarrow> nat \<Rightarrow> ('p, 'f) hello_reply store \<Rightarrow> ('p, 'f) hello_reply store option" where
  "HelloReply_CopyFrom L this from st =
     (if from = this then Some st
      else (case st this of
              None \<Rightarrow> None
            | Some t \<Rightarrow>
                (let st1 = st(this \<mapsto> HelloReply_Clear L t) in
                 case (st1 this, st1 from) of
                   (Some t1, Some f) \<Rightarrow> Some (st1(this \<mapsto> HelloReply_MergeFrom L t1 f))
                 | _ \<Rightarrow> None)))"

definition HelloReply_InternalSwap ::
  "('p, 'f) hello_reply \<Rightarrow> ('p, 'f) hello_reply \<Rightarrow> ('p, 'f) hello_reply \<times> ('p, 'f) hello_reply" where
  "HelloReply_InternalSwap this other =
     (this\<lparr>rep_unknown := rep_unknown other, rep_ptr := rep_ptr other\<rparr>,
      other\<lparr>rep_unknown := rep_unknown this, rep_ptr := rep_ptr this\<rparr>)"

text \<open>The move assignment, without the debugging macro \<open>PROTOBUF_FORCE_COPY_IN_MOVE\<close>.\<close>

definition HelloReply_move_assign ::
  "('p, 'f) protobuf_lib \<Rightarrow> nat \<Rightarrow> nat \<Rightarrow> ('p, 'f) hello_reply store \<Rightarrow> ('p, 'f) hello_reply store option" where
  "HelloReply_move_assign L this from st =
     (if this = from then Some st
      else (case (st this, st from) of
              (Some t, Some f) \<Rightarrow>
                (if rep_arena t = rep_arena f
                 then (let (t', f') = HelloReply_InternalSwap t f in Some (st(this \<mapsto> t', from \<mapsto> f')))
                 else HelloReply_CopyFrom L this from st)
            | _ \<Rightarrow> None))"

text \<open>\<open>Swap\<close>; the library's \<open>GenericSwap\<close>, for different arenas, is a parameter.\<close>

definition HelloReply_Swap ::
  "(('p, 'f) hello_reply \<Rightarrow> ('p, 'f) hello_reply \<Rightarrow> ('p, 'f) hello_reply \<times> ('p, 'f) hello_reply)
    \<Rightarrow> nat \<Rightarrow> nat \<Rightarrow> ('p, 'f) hello_reply store \<Rightarrow> ('p, 'f) hello_reply store option" where
  "HelloReply_Swap GenericSwap this other st =
     (if other = this then Some st
      else (case (st this, st other) of
              (Some t, Some u) \<Rightarrow>
                (let (t', u') = (if rep_arena t = rep_arena u then HelloReply_InternalSwap t u
                                 else GenericSwap t u)
                 in Some (st(this \<mapsto> t', other \<mapsto> u')))
            | _ \<Rightarrow> None))"

section \<open>The class keeps the contracts\<close>

lemmas hello_reply_accessors [wire_simps] =
  HelloReply_message_def HelloReply_set_message_def HelloReply_internal_set_message_def HelloReply_clear_message_def

lemma HelloReply_new [wire_simps]:
  "cell_ok L \<Longrightarrow> HelloReply_message L (HelloReply L arena) = []"
  "rep_unknown (HelloReply L arena) = []" "rep_arena (HelloReply L arena) = arena"
  by (simp_all add: HelloReply_def HelloReply_SharedCtor_def HelloReply_message_def cell_ok_def)

lemma HelloReply_MergeFrom_unknown [wire_simps]:
  "rep_unknown (HelloReply_MergeFrom L m from) = rep_unknown m @ rep_unknown from"
  by (simp add: HelloReply_MergeFrom_def HelloReply_internal_set_message_def Let_def)

lemma HelloReply_parse_step:
  "HelloReply_InternalParse L (Suc n) m bs =
    (if ctx_done L bs then Some (m, Some bs, None)
     else (let (tag, p) = read_tag L bs in
       if name_tag tag then
         (let (s, q) = read_string L p; m1 = HelloReply_set_message L s m in
          if \<not> verify_utf8 L s then Some (m1, None, None)
          else (case q of None \<Rightarrow> Some (m1, None, None) | Some bs' \<Rightarrow> HelloReply_InternalParse L n m1 bs'))
       else if end_tag tag then
         (case p of None \<Rightarrow> Some (m, None, None) | Some bs' \<Rightarrow> Some (m, Some bs', Some tag))
       else
         (let (us, q) = parse_unknown L tag (rep_unknown m) p; m1 = m\<lparr>rep_unknown := us\<rparr> in
          case q of None \<Rightarrow> Some (m1, None, None) | Some bs' \<Rightarrow> HelloReply_InternalParse L n m1 bs')))"
  by (simp only: HelloReply_InternalParse.simps HelloReply_set_message_def name_tag_def end_tag_def)

declare HelloReply_InternalParse.simps(2) [simp del]

interpretation rep: message_object HelloReply_message rep_unknown HelloReply_set_message "\<lambda>us m. m\<lparr>rep_unknown := us\<rparr>"
  HelloReply_InternalParse "\<lambda>L m. HelloReply_InternalSerialize L m []" "\<lambda>L m. fst (HelloReply_ByteSizeLong L m)"
  HelloReply_MergeFrom rep_arena HelloReply_Clear HelloReply_InternalSwap HelloReply_CopyFrom HelloReply_move_assign
  by unfold_locales
    (simp_all add: HelloReply_parse_step HelloReply_message_def HelloReply_set_message_def HelloReply_internal_set_message_def
      HelloReply_InternalSerialize_def HelloReply_ByteSizeLong_def HelloReply_MergeFrom_def HelloReply_Clear_def
      HelloReply_InternalSwap_def HelloReply_CopyFrom_def HelloReply_move_assign_def cell_ok_def Let_def
      split: prod.split, auto)

section \<open>Properties\<close>

text \<open>
  Round trip of the reply: serialized and parsed into a fresh object, a reply keeps its
  message and its unknown fields, and nothing of the input is left.
\<close>

lemma HelloReply_roundtrip:
  assumes "lib_ok L" and "fits (HelloReply_message L m)" and "verify_utf8 L (HelloReply_message L m)"
    and "length (HelloReply_InternalSerialize L m []) < fuel"
  shows "\<exists>m1. HelloReply_InternalParse L fuel (HelloReply L arena)
             (HelloReply_InternalSerialize L m []) = Some (m1, Some [], None)
         \<and> HelloReply_message L m1 = HelloReply_message L m \<and> rep_unknown m1 = rep_unknown m"
  using rep.roundtrip [of L m "HelloReply L arena" fuel] assms
  by (simp add: rep.sendable_def rep.same_def HelloReply_new lib_ok_def)

text \<open>
  C24. Parsing is merging: two serialized replies one after the other, parsed into a message, leave
  in it what \<open>MergeFrom\<close> of the first and then of the second would.
\<close>

theorem HelloReply_concatenation_merges:
  assumes "lib_ok L"
    and "fits (HelloReply_message L a)" and "verify_utf8 L (HelloReply_message L a)"
    and "fits (HelloReply_message L b)" and "verify_utf8 L (HelloReply_message L b)"
    and "length (HelloReply_InternalSerialize L a []) + length (HelloReply_InternalSerialize L b []) < fuel"
  shows "\<exists>m1. HelloReply_InternalParse L fuel m
      (HelloReply_InternalSerialize L a [] @ HelloReply_InternalSerialize L b []) = Some (m1, Some [], None)
    \<and> HelloReply_message L m1 = HelloReply_message L (HelloReply_MergeFrom L (HelloReply_MergeFrom L m a) b)
    \<and> rep_unknown m1 = rep_unknown m @ rep_unknown a @ rep_unknown b"
  using rep.concatenation_merges [of L a b fuel m] assms
  by (simp add: rep.sendable_def rep.same_def HelloReply_MergeFrom_unknown)

theorem HelloReply_concatenation_merges_witness:
  "\<exists>m1. HelloReply_InternalParse wire_lib 20 (HelloReply wire_lib None)
      (HelloReply_InternalSerialize wire_lib \<lparr>rep_ptr = ''one'', rep_unknown = [True], rep_arena = None, rep_cached_size = 0\<rparr> []
       @ HelloReply_InternalSerialize wire_lib \<lparr>rep_ptr = [], rep_unknown = [False], rep_arena = None, rep_cached_size = 0\<rparr> [])
      = Some (m1, Some [], None)
    \<and> HelloReply_message wire_lib m1 = ''one'' \<and> rep_unknown m1 = [True, False]"
  using HelloReply_concatenation_merges [OF wire_lib_ok,
      of "\<lparr>rep_ptr = ''one'', rep_unknown = [True], rep_arena = None, rep_cached_size = 0\<rparr>"
         "\<lparr>rep_ptr = [], rep_unknown = [False], rep_arena = None, rep_cached_size = 0\<rparr>" 20
         "HelloReply wire_lib None"]
  by (auto simp: HelloReply_InternalSerialize_def HelloReply_message_def wire_lib_def fits_def HelloReply_new
      HelloReply_MergeFrom_def HelloReply_internal_set_message_def ascii_def put_varint.simps)

text \<open>
  Move assignment: whether the two objects share an arena (and are swapped) or not (and are
  copied), or are one object, the target ends up with the source's former contents, and no third
  object has changed.
\<close>

lemma HelloReply_move_assign_contents:
  assumes "cell_ok L" and "st this = Some t" and "st from = Some f"
  shows "\<exists>st' t'. HelloReply_move_assign L this from st = Some st' \<and> st' this = Some t'
     \<and> HelloReply_message L t' = HelloReply_message L f \<and> rep_unknown t' = rep_unknown f
     \<and> (\<forall>a. a \<noteq> this \<and> a \<noteq> from \<longrightarrow> st' a = st a)"
  using rep.move_assign_spec [OF assms] by (simp add: rep.same_def)

text \<open>
  \<open>Swap\<close> exchanges the contents of two objects, on one arena or on two, provided the
  library's \<open>GenericSwap\<close> exchanges contents; each object stays on its arena.
\<close>

lemma HelloReply_Swap_exchanges:
  assumes "\<And>x y. let (x', y') = GenericSwap x y in
      rep_ptr x' = rep_ptr y \<and> rep_unknown x' = rep_unknown y \<and> rep_arena x' = rep_arena x
      \<and> rep_ptr y' = rep_ptr x \<and> rep_unknown y' = rep_unknown x \<and> rep_arena y' = rep_arena y"
    and "st this = Some t" and "st other = Some u"
  shows "\<exists>st' t' u'. HelloReply_Swap GenericSwap this other st = Some st'
     \<and> st' this = Some t' \<and> st' other = Some u'
     \<and> HelloReply_message L t' = HelloReply_message L u \<and> rep_unknown t' = rep_unknown u
     \<and> HelloReply_message L u' = HelloReply_message L t \<and> rep_unknown u' = rep_unknown t
     \<and> rep_arena t' = rep_arena t \<and> rep_arena u' = rep_arena u"
proof (cases "other = this")
  case True
  with assms(2,3) show ?thesis by (simp add: HelloReply_Swap_def)
next
  case False
  with assms(2,3) assms(1) [of t u] show ?thesis
    by (auto simp: HelloReply_Swap_def HelloReply_InternalSwap_def HelloReply_message_def split: prod.splits)
qed

end
