(* ===== verification/Hello_Lifetime.thy ===== *)
theory Hello_Lifetime
  imports Hello_Request Hello_Reply
begin

text \<open>
  The remaining methods of the generated message classes (\<open>helloworld.pb.h\<close>, \<open>helloworld.pb.cc\<close>):
  \<open>New\<close>, the move constructor, copy assignment, \<open>UnsafeArenaSwap\<close>, \<open>mutable_\<close>\<^emph>\<open>field\<close>, the merge through the
  base class and the destructor. They rest on those of \<open>Hello_Request\<close> and \<open>Hello_Reply\<close>; the checks of
  debug builds (\<open>GOOGLE_DCHECK\<close>) are not part of the model.
\<close>

text \<open>What a destructor hands back: the string cell, and the unknown fields.\<close>

datatype destroyed = Destroyed_cell | Deleted_unknown_fields

section \<open>\<open>HelloRequest\<close>\<close>

text \<open>\<open>New\<close> asks the arena's allocator for an object constructed with that arena.\<close>

definition HelloRequest_New :: "('p, 'f) protobuf_lib \<Rightarrow> nat option \<Rightarrow> ('p, 'f) hello_request" where
  "HelloRequest_New L arena = HelloRequest L arena"

text \<open>The move constructor: a new object without an arena, then the move assignment.\<close>

definition HelloRequest_move_ctor ::
  "('p, 'f) protobuf_lib \<Rightarrow> nat \<Rightarrow> nat \<Rightarrow> ('p, 'f) hello_request store \<Rightarrow> ('p, 'f) hello_request store option" where
  "HelloRequest_move_ctor L this from st = HelloRequest_move_assign L this from (st(this \<mapsto> HelloRequest L None))"

definition HelloRequest_copy_assign ::
  "('p, 'f) protobuf_lib \<Rightarrow> nat \<Rightarrow> nat \<Rightarrow> ('p, 'f) hello_request store \<Rightarrow> ('p, 'f) hello_request store option" where
  "HelloRequest_copy_assign L this from st = HelloRequest_CopyFrom L this from st"

definition HelloRequest_UnsafeArenaSwap ::
  "nat \<Rightarrow> nat \<Rightarrow> ('p, 'f) hello_request store \<Rightarrow> ('p, 'f) hello_request store option" where
  "HelloRequest_UnsafeArenaSwap this other st =
     (if other = this then Some st
      else (case (st this, st other) of
              (Some t, Some u) \<Rightarrow>
                (let (t', u') = HelloRequest_InternalSwap t u in Some (st(this \<mapsto> t', other \<mapsto> u')))
            | _ \<Rightarrow> None))"

text \<open>
  The caller of \<open>mutable_name\<close> edits the string through the pointer; \<open>mutable\<close> is what the library
  does with the cell for an edit.
\<close>

definition HelloRequest_mutable_name ::
  "((bytes \<Rightarrow> bytes) \<Rightarrow> 'p \<Rightarrow> 'p) \<Rightarrow> (bytes \<Rightarrow> bytes) \<Rightarrow> ('p, 'f) hello_request \<Rightarrow> ('p, 'f) hello_request" where
  "HelloRequest_mutable_name mutable edit m = m\<lparr>req_ptr := mutable edit (req_ptr m)\<rparr>"

definition HelloRequest_MergeImpl ::
  "('p, 'f) protobuf_lib \<Rightarrow> ('p, 'f) hello_request \<Rightarrow> ('p, 'f) hello_request \<Rightarrow> ('p, 'f) hello_request" where
  "HelloRequest_MergeImpl L to from = HelloRequest_MergeFrom L to from"

text \<open>The destructor leaves everything to the arena, when there is one.\<close>

definition HelloRequest_SharedDtor :: "('p, 'f) hello_request \<Rightarrow> destroyed list" where
  "HelloRequest_SharedDtor m = [Destroyed_cell]"

definition HelloRequest_destructor :: "('p, 'f) hello_request \<Rightarrow> destroyed list" where
  "HelloRequest_destructor m =
     (if req_arena m \<noteq> None then [] else HelloRequest_SharedDtor m @ [Deleted_unknown_fields])"

lemma HelloRequest_UnsafeArenaSwap_is_Swap:
  "(\<And>t u. st this = Some t \<Longrightarrow> st other = Some u \<Longrightarrow> req_arena t = req_arena u) \<Longrightarrow>
   HelloRequest_UnsafeArenaSwap this other st = HelloRequest_Swap GenericSwap this other st"
  by (auto simp: HelloRequest_UnsafeArenaSwap_def HelloRequest_Swap_def Let_def split: option.splits)

lemma HelloRequest_move_ctor_result:
  assumes "cell_ok L" and "st from = Some f" and "this \<noteq> from"
  shows "\<exists>st' t f'. HelloRequest_move_ctor L this from st = Some st' \<and> st' this = Some t \<and> st' from = Some f'
     \<and> HelloRequest_name L t = HelloRequest_name L f \<and> req_unknown t = req_unknown f \<and> req_arena t = None
     \<and> (if req_arena f = None then HelloRequest_name L f' = [] \<and> req_unknown f' = [] \<and> req_arena f' = None else f' = f)
     \<and> (\<forall>a. a \<noteq> this \<longrightarrow> a \<noteq> from \<longrightarrow> st' a = st a)"
proof (cases "req_arena f = None")
  case True
  with assms show ?thesis
    by (simp add: HelloRequest_move_ctor_def HelloRequest_move_assign_def HelloRequest_InternalSwap_def HelloRequest_def
        HelloRequest_SharedCtor_def HelloRequest_name_def cell_ok_def)
next
  case False
  then show ?thesis
    using assms False [symmetric] by (simp add: HelloRequest_move_ctor_def HelloRequest_move_assign_def HelloRequest_CopyFrom_def HelloRequest_Clear_def
        HelloRequest_MergeFrom_def HelloRequest_internal_set_name_def HelloRequest_def HelloRequest_SharedCtor_def HelloRequest_name_def cell_ok_def Let_def)
qed

section \<open>\<open>HelloReply\<close>\<close>

text \<open>\<open>New\<close> asks the arena's allocator for an object constructed with that arena.\<close>

definition HelloReply_New :: "('p, 'f) protobuf_lib \<Rightarrow> nat option \<Rightarrow> ('p, 'f) hello_reply" where
  "HelloReply_New L arena = HelloReply L arena"

text \<open>The move constructor: a new object without an arena, then the move assignment.\<close>

definition HelloReply_move_ctor ::
  "('p, 'f) protobuf_lib \<Rightarrow> nat \<Rightarrow> nat \<Rightarrow> ('p, 'f) hello_reply store \<Rightarrow> ('p, 'f) hello_reply store option" where
  "HelloReply_move_ctor L this from st = HelloReply_move_assign L this from (st(this \<mapsto> HelloReply L None))"

definition HelloReply_copy_assign ::
  "('p, 'f) protobuf_lib \<Rightarrow> nat \<Rightarrow> nat \<Rightarrow> ('p, 'f) hello_reply store \<Rightarrow> ('p, 'f) hello_reply store option" where
  "HelloReply_copy_assign L this from st = HelloReply_CopyFrom L this from st"

definition HelloReply_UnsafeArenaSwap ::
  "nat \<Rightarrow> nat \<Rightarrow> ('p, 'f) hello_reply store \<Rightarrow> ('p, 'f) hello_reply store option" where
  "HelloReply_UnsafeArenaSwap this other st =
     (if other = this then Some st
      else (case (st this, st other) of
              (Some t, Some u) \<Rightarrow>
                (let (t', u') = HelloReply_InternalSwap t u in Some (st(this \<mapsto> t', other \<mapsto> u')))
            | _ \<Rightarrow> None))"

text \<open>
  The caller of \<open>mutable_message\<close> edits the string through the pointer; \<open>mutable\<close> is what the library
  does with the cell for an edit.
\<close>

definition HelloReply_mutable_message ::
  "((bytes \<Rightarrow> bytes) \<Rightarrow> 'p \<Rightarrow> 'p) \<Rightarrow> (bytes \<Rightarrow> bytes) \<Rightarrow> ('p, 'f) hello_reply \<Rightarrow> ('p, 'f) hello_reply" where
  "HelloReply_mutable_message mutable edit m = m\<lparr>rep_ptr := mutable edit (rep_ptr m)\<rparr>"

definition HelloReply_MergeImpl ::
  "('p, 'f) protobuf_lib \<Rightarrow> ('p, 'f) hello_reply \<Rightarrow> ('p, 'f) hello_reply \<Rightarrow> ('p, 'f) hello_reply" where
  "HelloReply_MergeImpl L to from = HelloReply_MergeFrom L to from"

text \<open>The destructor leaves everything to the arena, when there is one.\<close>

definition HelloReply_SharedDtor :: "('p, 'f) hello_reply \<Rightarrow> destroyed list" where
  "HelloReply_SharedDtor m = [Destroyed_cell]"

definition HelloReply_destructor :: "('p, 'f) hello_reply \<Rightarrow> destroyed list" where
  "HelloReply_destructor m =
     (if rep_arena m \<noteq> None then [] else HelloReply_SharedDtor m @ [Deleted_unknown_fields])"

lemma HelloReply_UnsafeArenaSwap_is_Swap:
  "(\<And>t u. st this = Some t \<Longrightarrow> st other = Some u \<Longrightarrow> rep_arena t = rep_arena u) \<Longrightarrow>
   HelloReply_UnsafeArenaSwap this other st = HelloReply_Swap GenericSwap this other st"
  by (auto simp: HelloReply_UnsafeArenaSwap_def HelloReply_Swap_def Let_def split: option.splits)

lemma HelloReply_move_ctor_result:
  assumes "cell_ok L" and "st from = Some f" and "this \<noteq> from"
  shows "\<exists>st' t f'. HelloReply_move_ctor L this from st = Some st' \<and> st' this = Some t \<and> st' from = Some f'
     \<and> HelloReply_message L t = HelloReply_message L f \<and> rep_unknown t = rep_unknown f \<and> rep_arena t = None
     \<and> (if rep_arena f = None then HelloReply_message L f' = [] \<and> rep_unknown f' = [] \<and> rep_arena f' = None else f' = f)
     \<and> (\<forall>a. a \<noteq> this \<longrightarrow> a \<noteq> from \<longrightarrow> st' a = st a)"
proof (cases "rep_arena f = None")
  case True
  with assms show ?thesis
    by (simp add: HelloReply_move_ctor_def HelloReply_move_assign_def HelloReply_InternalSwap_def HelloReply_def
        HelloReply_SharedCtor_def HelloReply_message_def cell_ok_def)
next
  case False
  then show ?thesis
    using assms False [symmetric] by (simp add: HelloReply_move_ctor_def HelloReply_move_assign_def HelloReply_CopyFrom_def HelloReply_Clear_def
        HelloReply_MergeFrom_def HelloReply_internal_set_message_def HelloReply_def HelloReply_SharedCtor_def HelloReply_message_def cell_ok_def Let_def)
qed

section \<open>Properties\<close>

text \<open>
  The move constructor hands over the name and the unknown fields to a new object without an
  arena. A source without an arena is left empty, a source on an arena is copied and left as it
  was; no other object changes, and what the destructors of the two hand back is each cell exactly
  once: the arena's cell is left to the arena.
\<close>

lemma HelloRequest_move_ctor_contents:
  assumes "cell_ok L" and "st from = Some f" and "this \<noteq> from"
  shows "\<exists>st' t f'. HelloRequest_move_ctor L this from st = Some st' \<and> st' this = Some t \<and> st' from = Some f'
     \<and> HelloRequest_name L t = HelloRequest_name L f \<and> req_unknown t = req_unknown f
     \<and> (if req_arena f = None then HelloRequest_name L f' = [] \<and> req_unknown f' = [] else f' = f)
     \<and> (\<forall>a. a \<noteq> this \<longrightarrow> a \<noteq> from \<longrightarrow> st' a = st a)
     \<and> HelloRequest_destructor t = [Destroyed_cell, Deleted_unknown_fields]
     \<and> HelloRequest_destructor f' = HelloRequest_destructor f"
proof -
  obtain st' t f' where res: "HelloRequest_move_ctor L this from st = Some st'" "st' this = Some t" "st' from = Some f'"
    "HelloRequest_name L t = HelloRequest_name L f" "req_unknown t = req_unknown f"
    "\<forall>a. a \<noteq> this \<longrightarrow> a \<noteq> from \<longrightarrow> st' a = st a"
    and t: "req_arena t = None"
    and f': "if req_arena f = None then HelloRequest_name L f' = [] \<and> req_unknown f' = [] \<and> req_arena f' = None else f' = f"
    using HelloRequest_move_ctor_result [of L st "from" f this] assms by blast
  have "HelloRequest_destructor t = [Destroyed_cell, Deleted_unknown_fields]"
    using t by (simp add: HelloRequest_destructor_def HelloRequest_SharedDtor_def)
  moreover have "HelloRequest_destructor f' = HelloRequest_destructor f"
    using f' by (simp add: HelloRequest_destructor_def HelloRequest_SharedDtor_def split: if_splits)
  moreover have "if req_arena f = None then HelloRequest_name L f' = [] \<and> req_unknown f' = [] else f' = f"
    using f' by (simp split: if_splits)
  ultimately show ?thesis using res by blast
qed

end
