(* ===== verification/Greeter_Server.thy ===== *)
theory Greeter_Server
  imports Hello_Request Hello_Reply
begin

text \<open>
  \<open>class ServerImpl\<close> of \<open>include/greeter_async_server.h\<close>: the asynchronous gRPC server. Every
  call is served by one \<open>CallData\<close> object on the heap, whose address is the tag of its operations
  on the completion queue; \<open>Proceed\<close> is its state machine, \<open>HandleRpcs\<close> the loop that takes an
  event and lets its object proceed. The gRPC runtime decides when a requested call arrives, when
  a reply has gone out or its call is dead, and which event \<open>Next\<close> returns; that is the
  nondeterminism of the step relation.
\<close>

section \<open>\<open>CallData\<close>\<close>

datatype call_status = CREATE | PROCESS | FINISH

text \<open>The order in which an object goes through them.\<close>

fun status_rank :: "call_status \<Rightarrow> nat" where
  "status_rank CREATE = 0"
| "status_rank PROCESS = 1"
| "status_rank FINISH = 2"

instantiation call_status :: linorder
begin

definition less_eq_call_status :: "call_status \<Rightarrow> call_status \<Rightarrow> bool" where
  "less_eq_call_status a b \<longleftrightarrow> status_rank a \<le> status_rank b"

definition less_call_status :: "call_status \<Rightarrow> call_status \<Rightarrow> bool" where
  "less_call_status a b \<longleftrightarrow> status_rank a < status_rank b"

instance
proof
  fix a b :: call_status
  show "a \<le> b \<Longrightarrow> b \<le> a \<Longrightarrow> a = b"
    by (cases a; cases b) (simp_all add: less_eq_call_status_def)
qed (auto simp: less_eq_call_status_def less_call_status_def)

end

lemma FINISH_top [simp]: "a \<le> FINISH"
  by (cases a) (simp_all add: less_eq_call_status_def)

record ('p, 'f) call_data =
  cd_status :: call_status
  cd_request :: "('p, 'f) hello_request"
  cd_reply :: "('p, 'f) hello_reply"

text \<open>
  The heap of \<open>CallData\<close> objects; the tags of the calls requested from the service and not yet
  arrived; the operations started by \<open>Finish\<close>, each with its reply; the events in the completion
  queue, a tag and the \<open>ok\<close> flag each; and, for the statements, the replies that have gone out,
  each with the name in the request it answers.
\<close>

record ('p, 'f) greeter_server =
  heap :: "nat \<Rightarrow> ('p, 'f) call_data option"
  requested :: "nat list"
  finishing :: "(nat \<times> ('p, 'f) hello_reply) list"
  events :: "(nat \<times> bool) list"
  answered :: "(bytes \<times> bytes) list"

datatype call_error = Assertion_failed | Use_after_free

text \<open>The branch of \<open>Proceed\<close> for \<open>CREATE\<close>: the object asks for a call, with itself as tag.\<close>

definition proceed_create ::
  "nat \<Rightarrow> ('p, 'f) call_data \<Rightarrow> ('p, 'f) greeter_server \<Rightarrow> ('p, 'f) greeter_server" where
  "proceed_create this cd s =
     s\<lparr>heap := (heap s)(this \<mapsto> cd\<lparr>cd_status := PROCESS\<rparr>), requested := requested s @ [this]\<rparr>"

text \<open>\<open>new CallData(service_, cq_)\<close> at address \<open>a\<close>: the constructor calls \<open>Proceed\<close> at once.\<close>

definition CallData ::
  "('p, 'f) protobuf_lib \<Rightarrow> nat \<Rightarrow> ('p, 'f) greeter_server \<Rightarrow> ('p, 'f) greeter_server" where
  "CallData L a s =
     (let cd = \<lparr>cd_status = CREATE, cd_request = HelloRequest L None, cd_reply = HelloReply L None\<rparr>
      in proceed_create a cd (s\<lparr>heap := (heap s)(a \<mapsto> cd)\<rparr>))"

text \<open>
  \<open>Proceed\<close> on the object at \<open>this\<close>; \<open>a\<close> is the address the allocator gives to a \<open>CallData\<close>
  created on the way. In \<open>FINISH\<close> the object deletes itself.
\<close>

definition Proceed ::
  "('p, 'f) protobuf_lib \<Rightarrow> nat \<Rightarrow> nat \<Rightarrow> ('p, 'f) greeter_server
    \<Rightarrow> call_error + ('p, 'f) greeter_server" where
  "Proceed L a this s =
     (case heap s this of
        None \<Rightarrow> Inl Use_after_free
      | Some cd \<Rightarrow>
          (if cd_status cd = CREATE then Inr (proceed_create this cd s)
           else if cd_status cd = PROCESS then
             (let s1 = CallData L a s;
                  prefix = ''Hello '';
                  cd1 = cd\<lparr>cd_reply := HelloReply_set_message L (prefix @ HelloRequest_name L (cd_request cd)) (cd_reply cd)\<rparr>;
                  cd2 = cd1\<lparr>cd_status := FINISH\<rparr>
              in Inr (s1\<lparr>heap := (heap s1)(this \<mapsto> cd2), finishing := finishing s1 @ [(this, cd_reply cd2)]\<rparr>))
           else if cd_status cd \<noteq> FINISH then Inl Assertion_failed
           else Inr (s\<lparr>heap := (heap s)(this := None)\<rparr>)))"

section \<open>\<open>HandleRpcs\<close>\<close>

text \<open>Before the loop: the first object.\<close>

definition HandleRpcs_begin ::
  "('p, 'f) protobuf_lib \<Rightarrow> nat \<Rightarrow> ('p, 'f) greeter_server" where
  "HandleRpcs_begin L a =
     CallData L a \<lparr>heap = Map.empty, requested = [], finishing = [], events = [], answered = []\<rparr>"

text \<open>
  One round: \<open>next\<close> is what \<open>Next\<close> returned, an event or (\<open>None\<close>) \<open>false\<close>. Both assertions are
  the code's own.
\<close>

definition HandleRpcs_round ::
  "('p, 'f) protobuf_lib \<Rightarrow> nat \<Rightarrow> (nat \<times> bool) option \<Rightarrow> ('p, 'f) greeter_server
    \<Rightarrow> call_error + ('p, 'f) greeter_server" where
  "HandleRpcs_round L a next s =
     (case next of
        None \<Rightarrow> Inl Assertion_failed
      | Some (tag, ok) \<Rightarrow> if \<not> ok then Inl Assertion_failed else Proceed L a tag s)"

section \<open>The server in its environment\<close>

inductive server_step ::
  "('p, 'f) protobuf_lib \<Rightarrow> ('p, 'f) greeter_server \<Rightarrow> ('p, 'f) greeter_server \<Rightarrow> bool" for L where
  arrive: "t \<in> set (requested s) \<Longrightarrow> heap s t = Some cd \<Longrightarrow>
    server_step L s (s\<lparr>requested := remove1 t (requested s),
      heap := (heap s)(t \<mapsto> cd\<lparr>cd_request := req\<rparr>), events := events s @ [(t, True)]\<rparr>)"
| sent: "(t, r) \<in> set (finishing s) \<Longrightarrow> heap s t = Some cd \<Longrightarrow>
    server_step L s (s\<lparr>finishing := remove1 (t, r) (finishing s), events := events s @ [(t, True)],
      answered := answered s @ [(HelloRequest_name L (cd_request cd), HelloReply_message L r)]\<rparr>)"
| call_dead: "(t, r) \<in> set (finishing s) \<Longrightarrow>
    server_step L s (s\<lparr>finishing := remove1 (t, r) (finishing s), events := events s @ [(t, False)]\<rparr>)"
| handle: "(t, ok) \<in> set (events s) \<Longrightarrow> heap s a = None \<Longrightarrow>
    HandleRpcs_round L a (Some (t, ok)) (s\<lparr>events := remove1 (t, ok) (events s)\<rparr>) = Inr s' \<Longrightarrow>
    server_step L s s'"

inductive server_reachable ::
  "('p, 'f) protobuf_lib \<Rightarrow> ('p, 'f) greeter_server \<Rightarrow> bool" for L where
  init: "server_reachable L (HandleRpcs_begin L a)"
| step: "server_reachable L s \<Longrightarrow> server_step L s s' \<Longrightarrow> server_reachable L s'"

section \<open>Invariant\<close>

text \<open>The tags of everything outstanding: each is an operation or an event of one object.\<close>

definition tags :: "('p, 'f) greeter_server \<Rightarrow> nat multiset" where
  "tags s = mset (requested s) + mset (map fst (finishing s)) + mset (map fst (events s))"

text \<open>What an object in \<open>FINISH\<close> holds as its reply.\<close>

definition answers :: "('p, 'f) protobuf_lib \<Rightarrow> ('p, 'f) call_data \<Rightarrow> bool" where
  "answers L cd \<longleftrightarrow>
     HelloReply_message L (cd_reply cd) = ''Hello '' @ HelloRequest_name L (cd_request cd)"

text \<open>Every live object has one operation or event outstanding, and nothing else is outstanding.\<close>

definition one_tag_each :: "('p, 'f) greeter_server \<Rightarrow> bool" where
  "one_tag_each s \<longleftrightarrow> (\<forall>t. count (tags s) t = (if heap s t = None then 0 else 1))"

definition in_status :: "('p, 'f) greeter_server \<Rightarrow> call_status \<Rightarrow> nat \<Rightarrow> bool" where
  "in_status s st t \<longleftrightarrow> (case heap s t of None \<Rightarrow> False | Some cd \<Rightarrow> cd_status cd = st)"

definition one_acceptor :: "('p, 'f) greeter_server \<Rightarrow> bool" where
  "one_acceptor s \<longleftrightarrow>
     (\<exists>t0. in_status s PROCESS t0 \<and> (\<forall>t. heap s t \<noteq> None \<longrightarrow> t \<noteq> t0 \<longrightarrow> in_status s FINISH t))"

definition replies_ok :: "('p, 'f) protobuf_lib \<Rightarrow> ('p, 'f) greeter_server \<Rightarrow> bool" where
  "replies_ok L s \<longleftrightarrow>
     (\<forall>t cd. heap s t = Some cd \<longrightarrow> cd_status cd = FINISH \<longrightarrow> answers L cd)
     \<and> (\<forall>t\<in>set (requested s). in_status s PROCESS t)
     \<and> (\<forall>(t, r)\<in>set (finishing s). \<exists>cd. heap s t = Some cd \<and> cd_status cd = FINISH \<and> r = cd_reply cd)
     \<and> (\<forall>(n, m)\<in>set (answered s). m = ''Hello '' @ n)"

definition server_inv :: "('p, 'f) protobuf_lib \<Rightarrow> ('p, 'f) greeter_server \<Rightarrow> bool" where
  "server_inv L s \<longleftrightarrow> one_tag_each s \<and> one_acceptor s \<and> replies_ok L s"

lemmas server_inv_defs = server_inv_def one_tag_each_def one_acceptor_def replies_ok_def in_status_def

lemma mset_fst_remove1:
  "(t, r) \<in> set xs \<Longrightarrow> mset (map fst xs) = add_mset t (mset (map fst (remove1 (t, r) xs)))"
  by (induction xs) auto

lemma set_remove1_mem: "x \<in> set (remove1 y xs) \<Longrightarrow> x \<in> set xs"
  by (metis notin_set_remove1)

text \<open>\<open>CallData\<close> and \<open>Proceed\<close>, branch by branch.\<close>

lemma CallData_eq:
  "CallData L a s = s\<lparr>heap := (heap s)(a \<mapsto>
       \<lparr>cd_status = PROCESS, cd_request = HelloRequest L None, cd_reply = HelloReply L None\<rparr>),
     requested := requested s @ [a]\<rparr>"
  by (simp add: CallData_def proceed_create_def Let_def)

lemma Proceed_process:
  assumes "heap s t = Some cd" and "cd_status cd = PROCESS" and "a \<noteq> t"
  shows "Proceed L a t s =
    (let r = HelloReply_set_message L (''Hello '' @ HelloRequest_name L (cd_request cd)) (cd_reply cd)
     in Inr (s\<lparr>heap := (heap s)(a \<mapsto> \<lparr>cd_status = PROCESS, cd_request = HelloRequest L None,
                  cd_reply = HelloReply L None\<rparr>, t \<mapsto> cd\<lparr>cd_reply := r, cd_status := FINISH\<rparr>),
               requested := requested s @ [a], finishing := finishing s @ [(t, r)]\<rparr>))"
  using assms by (cases s; cases cd) (simp add: Proceed_def CallData_eq Let_def)

lemma Proceed_finish:
  "heap s t = Some cd \<Longrightarrow> cd_status cd = FINISH \<Longrightarrow> Proceed L a t s = Inr (s\<lparr>heap := (heap s)(t := None)\<rparr>)"
  by (simp add: Proceed_def)

lemma HandleRpcs_begin_inv: "server_inv L (HandleRpcs_begin L a)"
  by (auto simp: HandleRpcs_begin_def CallData_eq server_inv_defs tags_def)

text \<open>An outstanding tag is a live object, and in one place only.\<close>

lemma tag_live: "one_tag_each s \<Longrightarrow> t \<in># tags s \<Longrightarrow> heap s t \<noteq> None"
  by (metis count_eq_zero_iff one_tag_each_def)

lemma tag_once: "one_tag_each s \<Longrightarrow> tags s = add_mset t m \<Longrightarrow> t \<notin># m"
  unfolding one_tag_each_def
  by (metis count_add_mset count_eq_zero_iff nat.inject One_nat_def zero_neq_one add_0 old.nat.distinct(1))

lemma tags_live: "one_tag_each s \<Longrightarrow> set_mset (tags s) = dom (heap s)"
proof (rule set_eqI)
  fix t
  assume "one_tag_each s"
  then have "count (tags s) t = (if heap s t = None then 0 else 1)" by (simp add: one_tag_each_def)
  then show "t \<in># tags s \<longleftrightarrow> t \<in> dom (heap s)"
    by (simp add: dom_def flip: count_greater_zero_iff)
qed

lemma server_heap_finite: "server_inv L s \<Longrightarrow> finite (dom (heap s))"
  by (metis finite_set_mset server_inv_def tags_live)

text \<open>The steps of the environment keep the invariant.\<close>

lemma arrive_inv:
  assumes "server_inv L s" and "t \<in> set (requested s)" and "heap s t = Some cd"
  shows "server_inv L (s\<lparr>requested := remove1 t (requested s),
      heap := (heap s)(t \<mapsto> cd\<lparr>cd_request := req\<rparr>), events := events s @ [(t, True)]\<rparr>)" (is "server_inv L ?s")
proof -
  have "mset (requested s) = add_mset t (mset (remove1 t (requested s)))"
    using assms(2) by simp
  then have "tags ?s = tags s" by (simp add: tags_def)
  moreover have "cd_status cd = PROCESS"
    using assms by (auto simp: server_inv_def replies_ok_def in_status_def)
  moreover have live: "heap ?s u = None \<longleftrightarrow> heap s u = None" for u
    using assms(3) by simp
  moreover have st: "in_status ?s st u = in_status s st u" for st u
    using assms(3) by (simp add: in_status_def)
  moreover have "replies_ok L ?s"
    unfolding replies_ok_def
  proof (intro conjI)
    show "\<forall>u c. heap ?s u = Some c \<longrightarrow> cd_status c = FINISH \<longrightarrow> answers L c"
      using assms \<open>cd_status cd = PROCESS\<close> by (simp add: server_inv_def replies_ok_def)
    show "\<forall>(u, r)\<in>set (finishing ?s). \<exists>c. heap ?s u = Some c \<and> cd_status c = FINISH \<and> r = cd_reply c"
      using assms \<open>cd_status cd = PROCESS\<close> by (auto simp: server_inv_def replies_ok_def split_beta)
  qed (use assms st in \<open>auto simp: server_inv_def replies_ok_def dest: set_remove1_mem\<close>)
  ultimately show ?thesis
    using assms(1,3) unfolding server_inv_def one_tag_each_def one_acceptor_def
    by (simp only: live) simp
qed

text \<open>\<open>Finish\<close> completing: with a reply sent, or with a dead call.\<close>

lemma finishing_done_inv:
  assumes "server_inv L s" and "(t, r) \<in> set (finishing s)"
    and "\<forall>(n, m)\<in>set ans. m = ''Hello '' @ n"
  shows "server_inv L (s\<lparr>finishing := remove1 (t, r) (finishing s), events := events s @ [(t, ok)],
      answered := answered s @ ans\<rparr>)" (is "server_inv L ?s")
proof -
  have "tags ?s = tags s" using mset_fst_remove1 [OF assms(2)] by (simp add: tags_def)
  moreover have "in_status ?s st u = in_status s st u" for st u by (simp add: in_status_def)
  ultimately show ?thesis
    using assms(1,3)
    by (auto simp: server_inv_def one_tag_each_def one_acceptor_def replies_ok_def dest!: set_remove1_mem)
qed

lemma sent_answer:
  assumes "server_inv L s" and "(t, r) \<in> set (finishing s)" and "heap s t = Some cd"
  shows "HelloReply_message L r = ''Hello '' @ HelloRequest_name L (cd_request cd)"
  using assms by (fastforce simp: server_inv_def replies_ok_def answers_def)

text \<open>Taking an event and letting its object proceed.\<close>

definition taken :: "('p, 'f) greeter_server \<Rightarrow> nat \<Rightarrow> bool \<Rightarrow> ('p, 'f) greeter_server" where
  "taken s t ok = s\<lparr>events := remove1 (t, ok) (events s)\<rparr>"

lemma taken_simps [simp]:
  "heap (taken s t ok) = heap s" "requested (taken s t ok) = requested s"
  "finishing (taken s t ok) = finishing s" "answered (taken s t ok) = answered s"
  by (simp_all add: taken_def)

lemma taken_tags:
  "(t, ok) \<in> set (events s) \<Longrightarrow> tags s = add_mset t (tags (taken s t ok))"
  using mset_fst_remove1 [of t ok "events s"] by (simp add: tags_def taken_def)

lemma finishing_status:
  assumes "server_inv L s" and "(t, r) \<in> set (finishing s)"
  shows "in_status s FINISH t" and "\<not> in_status s PROCESS t"
proof -
  show "in_status s FINISH t" using assms by (fastforce simp: server_inv_def replies_ok_def in_status_def)
  then show "\<not> in_status s PROCESS t" by (auto simp: in_status_def split: option.splits)
qed

lemma event_out:
  assumes "server_inv L s" and "(t, ok) \<in> set (events s)"
  shows "t \<notin># tags (taken s t ok)"
  using assms(1) by (intro tag_once [OF _ taken_tags [OF assms(2)]]) (simp add: server_inv_def)

lemma event_status:
  assumes "server_inv L s" and "(t, ok) \<in> set (events s)"
  shows "in_status s PROCESS t \<or> in_status s FINISH t"
proof -
  have "heap s t \<noteq> None"
    using assms taken_tags [OF assms(2)] by (intro tag_live) (auto simp: server_inv_def)
  then show ?thesis using assms(1) by (fastforce simp: server_inv_def one_acceptor_def)
qed

text \<open>The object in \<open>PROCESS\<close> is the only one; when its event has come, no call is asked for.\<close>

lemma acceptor_alone:
  assumes "server_inv L s" and "in_status s PROCESS t" and "u \<noteq> t" and "heap s u \<noteq> None"
  shows "in_status s FINISH u"
proof -
  obtain t0 where t0: "\<forall>v. heap s v \<noteq> None \<longrightarrow> v \<noteq> t0 \<longrightarrow> in_status s FINISH v"
    using assms(1) by (auto simp: server_inv_def one_acceptor_def)
  have "\<not> in_status s FINISH t" "heap s t \<noteq> None"
    using assms(2) by (auto simp: in_status_def split: option.splits)
  with t0 have "t0 = t" by blast
  with t0 assms(3,4) show ?thesis by simp
qed

lemma acceptor_event_requested:
  assumes "server_inv L s" and "(t, ok) \<in> set (events s)" and "in_status s PROCESS t"
  shows "requested s = []"
proof (rule ccontr)
  assume "requested s \<noteq> []"
  then obtain u where u: "u \<in> set (requested s)" using hd_in_set by blast
  then have "in_status s PROCESS u" using assms(1) by (simp add: server_inv_def replies_ok_def)
  with acceptor_alone [OF assms(1,3), of u] have "u = t" by (force simp: in_status_def split: option.splits)
  with u event_out [OF assms(1,2)] show False by (simp add: tags_def)
qed

lemma process_event_result:
  assumes "heap s t = Some cd" and "cd_status cd = PROCESS" and "heap s a = None"
    and "Proceed L a t (taken s t ok) = Inr s'"
  shows "s' = (taken s t ok)\<lparr>heap := (heap s)(a \<mapsto> \<lparr>cd_status = PROCESS,
        cd_request = HelloRequest L None, cd_reply = HelloReply L None\<rparr>,
        t \<mapsto> cd\<lparr>cd_reply := HelloReply_set_message L (''Hello '' @ HelloRequest_name L (cd_request cd)) (cd_reply cd),
          cd_status := FINISH\<rparr>),
      requested := requested s @ [a],
      finishing := finishing s @ [(t, HelloReply_set_message L (''Hello '' @ HelloRequest_name L (cd_request cd)) (cd_reply cd))]\<rparr>"
proof -
  have "a \<noteq> t" using assms(1,3) by auto
  then show ?thesis using assms(4) Proceed_process [of "taken s t ok" t cd a L] assms(1,2) by (simp add: Let_def)
qed

lemma process_event_replies:
  assumes inv: "server_inv L s" and ev: "(t, ok) \<in> set (events s)" and fresh: "heap s a = None"
    and cd: "heap s t = Some cd" "cd_status cd = PROCESS" and L: "cell_ok L"
    and run: "Proceed L a t (taken s t ok) = Inr s'"
  shows "replies_ok L s'"
  unfolding replies_ok_def
proof (intro conjI)
  note s' = process_event_result [OF cd fresh run]
  have at: "a \<noteq> t" using fresh cd by auto
  have req: "requested s = []" using acceptor_event_requested [OF inv ev] cd by (simp add: in_status_def)
  show "\<forall>u c. heap s' u = Some c \<longrightarrow> cd_status c = FINISH \<longrightarrow> answers L c"
    using inv L by (simp add: s' server_inv_def replies_ok_def answers_def
        HelloReply_message_def HelloReply_set_message_def cell_ok_def)
  show "\<forall>u\<in>set (requested s'). in_status s' PROCESS u" using req at by (simp add: s' in_status_def)
  show "\<forall>(n, m)\<in>set (answered s'). m = ''Hello '' @ n" using inv by (simp add: s' server_inv_def replies_ok_def)
  show "\<forall>(u, r)\<in>set (finishing s'). \<exists>c. heap s' u = Some c \<and> cd_status c = FINISH \<and> r = cd_reply c"
  proof (rule ballI, clarify)
    fix u r
    assume "(u, r) \<in> set (finishing s')"
    then consider "(u, r) \<in> set (finishing s)" | "u = t" "r = cd_reply (the (heap s' t))" by (auto simp: s')
    then show "\<exists>c. heap s' u = Some c \<and> cd_status c = FINISH \<and> r = cd_reply c"
    proof cases
      case 1
      then obtain c where "heap s u = Some c" "cd_status c = FINISH" "r = cd_reply c"
        using inv by (fastforce simp: server_inv_def replies_ok_def)
      then show ?thesis using fresh cd by (auto simp: s')
    qed (simp add: s')
  qed
qed

lemma process_event_inv:
  assumes inv: "server_inv L s" and ev: "(t, ok) \<in> set (events s)" and fresh: "heap s a = None"
    and cd: "heap s t = Some cd" "cd_status cd = PROCESS" and L: "cell_ok L"
    and run: "Proceed L a t (taken s t ok) = Inr s'"
  shows "server_inv L s'"
proof -
  have at: "a \<noteq> t" using fresh cd by auto
  note s' = process_event_result [OF cd fresh run]
  have tags: "tags s' = add_mset a (add_mset t (tags (taken s t ok)))"
    by (simp add: s' tags_def)
  have "one_tag_each s'"
    unfolding one_tag_each_def
  proof
    fix u
    have "count (tags s) u = (if heap s u = None then 0 else 1)"
      using inv by (simp add: server_inv_def one_tag_each_def)
    then show "count (tags s') u = (if heap s' u = None then 0 else 1)"
      using at fresh cd event_out [OF inv ev] taken_tags [OF ev]
      by (cases "u = t"; cases "u = a") (simp_all add: tags, simp_all add: s' not_in_iff)
  qed
  moreover have st: "in_status s PROCESS t" using cd by (simp add: in_status_def)
  have "one_acceptor s'"
    unfolding one_acceptor_def using acceptor_alone [OF inv st] at cd fresh
    by (intro exI [of _ a]) (auto simp: s' in_status_def)
  ultimately show ?thesis
    using process_event_replies [OF inv ev fresh cd L run] by (simp add: server_inv_def)
qed

lemma finish_event_replies:
  assumes inv: "server_inv L s" and ev: "(t, ok) \<in> set (events s)"
  shows "replies_ok L ((taken s t ok)\<lparr>heap := (heap s)(t := None)\<rparr>)" (is "replies_ok L ?s")
  unfolding replies_ok_def
proof (intro conjI)
  note out = event_out [OF inv ev]
  show "\<forall>u\<in>set (requested ?s). in_status ?s PROCESS u"
    using inv out by (auto simp: in_status_def server_inv_def replies_ok_def tags_def)
  show "\<forall>(u, r)\<in>set (finishing ?s). \<exists>c. heap ?s u = Some c \<and> cd_status c = FINISH \<and> r = cd_reply c"
  proof (rule ballI, clarify)
    fix u r
    assume "(u, r) \<in> set (finishing ?s)"
    then have u: "(u, r) \<in> set (finishing s)" by simp
    then have "u \<noteq> t" using out by (force simp: tags_def)
    moreover obtain c where "heap s u = Some c" "cd_status c = FINISH" "r = cd_reply c"
      using u inv by (fastforce simp: server_inv_def replies_ok_def)
    ultimately show "\<exists>c. heap ?s u = Some c \<and> cd_status c = FINISH \<and> r = cd_reply c" by simp
  qed
qed (use inv in \<open>simp_all add: server_inv_def replies_ok_def\<close>)

lemma finish_event_inv:
  assumes inv: "server_inv L s" and ev: "(t, ok) \<in> set (events s)"
    and cd: "heap s t = Some cd" "cd_status cd = FINISH"
    and run: "Proceed L a t (taken s t ok) = Inr s'"
  shows "server_inv L s'"
proof -
  have s': "s' = (taken s t ok)\<lparr>heap := (heap s)(t := None)\<rparr>"
    using run Proceed_finish [of "taken s t ok" t cd L a] cd by simp
  have tags: "tags s' = tags (taken s t ok)" by (simp add: s' tags_def)
  note out = event_out [OF inv ev]
  have "one_tag_each s'"
    unfolding one_tag_each_def
  proof
    fix u
    have "count (tags s) u = (if heap s u = None then 0 else 1)"
      using inv by (simp add: server_inv_def one_tag_each_def)
    then show "count (tags s') u = (if heap s' u = None then 0 else 1)"
      using out taken_tags [OF ev]
      by (cases "u = t") (simp_all add: tags, simp_all add: s' not_in_iff)
  qed
  moreover have "one_acceptor s'"
  proof -
    obtain t0 where t0: "in_status s PROCESS t0"
      "\<forall>v. heap s v \<noteq> None \<longrightarrow> v \<noteq> t0 \<longrightarrow> in_status s FINISH v"
      using inv by (auto simp: server_inv_def one_acceptor_def)
    with cd have "t0 \<noteq> t" by (auto simp: in_status_def)
    with t0 show ?thesis
      unfolding one_acceptor_def by (intro exI [of _ t0]) (auto simp: s' in_status_def)
  qed
  moreover have "replies_ok L s'" unfolding s' by (rule finish_event_replies [OF inv ev])
  ultimately show ?thesis by (simp add: server_inv_def)
qed

lemma in_status_cases:
  "in_status s st t \<Longrightarrow> (\<And>cd. heap s t = Some cd \<Longrightarrow> cd_status cd = st \<Longrightarrow> thesis) \<Longrightarrow> thesis"
  by (auto simp: in_status_def split: option.splits)

lemma server_step_inv:
  assumes "server_step L s s'" and "server_inv L s" and "cell_ok L"
  shows "server_inv L s'"
  using assms(1)
proof cases
  case (arrive t cd req)
  then show ?thesis using arrive_inv assms(2) by blast
next
  case (sent t r cd)
  show ?thesis
    unfolding sent(1)
    by (rule finishing_done_inv [OF assms(2) sent(2)]) (simp add: sent_answer [OF assms(2) sent(2,3)])
next
  case (call_dead t r)
  then show ?thesis using finishing_done_inv [of L s t r "[]" False] assms(2) by simp
next
  case (handle t ok a)
  from event_status [OF assms(2) handle(1)] show ?thesis
  proof
    assume "in_status s PROCESS t"
    then show ?thesis
      using handle process_event_inv [OF assms(2) handle(1,2) _ _ assms(3)]
      by (auto simp: HandleRpcs_round_def taken_def split: if_splits elim!: in_status_cases)
  next
    assume "in_status s FINISH t"
    then show ?thesis
      using handle finish_event_inv [OF assms(2) handle(1)]
      by (auto simp: HandleRpcs_round_def taken_def split: if_splits elim!: in_status_cases)
  qed
qed

text \<open>While it lives, an object only moves forward through its states.\<close>

inductive_cases server_stepE: "server_step L s s'"

lemma Proceed_forward:
  assumes "Proceed L a t s = Inr s'" and "heap s a = None"
    and "heap s u = Some c" and "heap s' u = Some c'"
  shows "cd_status c \<le> cd_status c'"
  using assms
  by (auto simp: Proceed_def proceed_create_def CallData_eq Let_def less_eq_call_status_def
      split: option.splits if_splits)

lemma status_forward:
  assumes "server_step L s s'" and "heap s u = Some c" and "heap s' u = Some c'"
  shows "cd_status c \<le> cd_status c'"
  using assms(1)
proof (rule server_stepE)
  fix t ok a
  assume "heap s a = None" and run: "HandleRpcs_round L a (Some (t, ok)) (s\<lparr>events := remove1 (t, ok) (events s)\<rparr>) = Inr s'"
  then show ?thesis
    using assms(2,3) Proceed_forward [of L a t "s\<lparr>events := remove1 (t, ok) (events s)\<rparr>" s' u c c']
    by (simp add: HandleRpcs_round_def split: if_splits)
qed (use assms(2,3) in \<open>auto split: if_splits\<close>)

lemma server_reachable_inv: "server_reachable L s \<Longrightarrow> cell_ok L \<Longrightarrow> server_inv L s"
  by (induction rule: server_reachable.induct) (auto intro: HandleRpcs_begin_inv server_step_inv)

section \<open>Properties\<close>

text \<open>
  C9. Object lifetime. In every reachable state, whatever event \<open>Next\<close> returns, its tag points to a
  live object: \<open>Proceed\<close> never runs on a deleted \<open>CallData\<close>, and the loop goes on unless the event
  says \<open>ok = false\<close> (the call was dead), on which the second assertion ends the whole server.
\<close>

theorem server_no_use_after_free:
  assumes "server_reachable L s" and "cell_ok L" and "(t, ok) \<in> set (events s)" and "heap s a = None"
  shows "(case HandleRpcs_round L a (Some (t, ok)) (s\<lparr>events := remove1 (t, ok) (events s)\<rparr>) of
            Inl e \<Rightarrow> e = Assertion_failed \<and> \<not> ok
          | Inr s' \<Rightarrow> ok \<and> server_reachable L s')"
proof (cases ok)
  case True
  have "in_status s PROCESS t \<or> in_status s FINISH t"
    using event_status server_reachable_inv assms(1-3) by blast
  then obtain cd where "heap s t = Some cd" "cd_status cd = PROCESS \<or> cd_status cd = FINISH"
    by (auto elim: in_status_cases)
  then obtain s' where s': "HandleRpcs_round L a (Some (t, ok)) (s\<lparr>events := remove1 (t, ok) (events s)\<rparr>) = Inr s'"
    using True by (auto simp: HandleRpcs_round_def Proceed_def Let_def)
  then have "server_reachable L s'"
    using server_step.handle assms by (blast intro: server_reachable.step)
  with s' True show ?thesis by simp
qed (simp add: HandleRpcs_round_def)

text \<open>A state for the witnesses: the first call has arrived.\<close>

definition first_call :: "bytes \<Rightarrow> (bytes, bool) greeter_server" where
  "first_call name = (HandleRpcs_begin wire_lib 1)\<lparr>requested := [],
     heap := [1 \<mapsto> \<lparr>cd_status = PROCESS,
       cd_request = HelloRequest_set_name wire_lib name (HelloRequest wire_lib None),
       cd_reply = HelloReply wire_lib None\<rparr>],
     events := [(1, True)]\<rparr>"

lemma first_call_reachable: "server_reachable wire_lib (first_call name)"
  using server_reachable.step [OF server_reachable.init [of wire_lib 1]
      server_step.arrive [of 1 "HandleRpcs_begin wire_lib 1" _ wire_lib
        "HelloRequest_set_name wire_lib name (HelloRequest wire_lib None)"]]
  by (simp add: first_call_def HandleRpcs_begin_def CallData_eq)

theorem server_no_use_after_free_witness:
  "\<exists>s'. HandleRpcs_round wire_lib 2 (Some (1, True)) ((first_call ''world'')\<lparr>events := []\<rparr>) = Inr s'
     \<and> server_reachable wire_lib s'"
  using server_no_use_after_free [OF first_call_reachable wire_cell_ok, of 1 True "''world''" 2]
  by (simp add: first_call_def split: sum.splits)

text \<open>
  There is always exactly one object waiting for a call (or about to take the one that came),
  every other live object is finishing the call it answered, and the operations and events
  outstanding are exactly as many as the live objects: no object is leaked or waited for twice.
\<close>

lemma server_one_acceptor:
  assumes "server_reachable L s" and "cell_ok L"
  shows "(\<exists>!t. in_status s PROCESS t) \<and> (\<exists>t0. \<forall>t\<in>dom (heap s) - {t0}. in_status s FINISH t)
     \<and> set_mset (tags s) = dom (heap s) \<and> size (tags s) = card (dom (heap s))"
proof -
  have inv: "server_inv L s" using server_reachable_inv assms by blast
  then obtain t0 where t0: "in_status s PROCESS t0"
    "\<forall>t. heap s t \<noteq> None \<longrightarrow> t \<noteq> t0 \<longrightarrow> in_status s FINISH t"
    by (auto simp: server_inv_def one_acceptor_def)
  have count: "count (tags s) t = (if heap s t = None then 0 else 1)" for t
    using inv by (simp add: server_inv_def one_tag_each_def)
  have "t = t0" if "in_status s PROCESS t" for t
    using that t0(2) by (elim in_status_cases) (auto simp: in_status_def)
  with t0(1) have "\<exists>!t. in_status s PROCESS t" by blast
  moreover have "\<forall>t\<in>dom (heap s) - {t0}. in_status s FINISH t" using t0(2) by (simp add: domIff)
  moreover have dom: "set_mset (tags s) = dom (heap s)"
    using inv tags_live by (auto simp: server_inv_def)
  moreover have "size (tags s) = card (dom (heap s))"
  proof -
    have "size (tags s) = (\<Sum>t\<in>dom (heap s). count (tags s) t)"
      unfolding size_multiset_overloaded_eq dom ..
    also have "\<dots> = (\<Sum>t\<in>dom (heap s). 1)"
      by (rule sum.cong [OF refl]) (subst count, simp add: domIff)
    finally show ?thesis by simp
  qed
  ultimately show ?thesis by blast
qed

text \<open>Every reply that goes out says \<open>Hello\<close> to the name in the request it answers.\<close>

lemma server_answers_hello:
  assumes "server_reachable L s" and "cell_ok L" and "(name, message) \<in> set (answered s)"
  shows "message = ''Hello '' @ name"
  using server_reachable_inv [OF assms(1,2)] assms(3) by (auto simp: server_inv_def replies_ok_def)

text \<open>The steps that serve a call, for the next property.\<close>

lemma serve_steps:
  assumes "server_inv L s" and "cell_ok L" and "t \<in> set (requested s)" and "heap s a = None"
  shows "\<exists>s'. (server_step L)\<^sup>*\<^sup>* s s' \<and> heap s' t = None \<and> in_status s' PROCESS a \<and> a \<in> set (requested s')
     \<and> answered s' = answered s @ [(HelloRequest_name L req, ''Hello '' @ HelloRequest_name L req)]"
proof -
  obtain cd where cd: "heap s t = Some cd" "cd_status cd = PROCESS"
    using assms(1,3) unfolding server_inv_def replies_ok_def by (meson in_status_cases)
  have at: "a \<noteq> t" using cd assms(4) by auto
  let ?cd = "cd\<lparr>cd_request := req\<rparr>"
  let ?r = "HelloReply_set_message L (''Hello '' @ HelloRequest_name L req) (cd_reply cd)"
  let ?new = "\<lparr>cd_status = PROCESS, cd_request = HelloRequest L None, cd_reply = HelloReply L None\<rparr>"
  let ?s1 = "s\<lparr>requested := remove1 t (requested s), heap := (heap s)(t \<mapsto> ?cd), events := events s @ [(t, True)]\<rparr>"
  have 1: "server_step L s ?s1" by (rule arrive) fact+
  have inv1: "server_inv L ?s1" using server_step_inv [OF 1 assms(1,2)] .
  obtain s2 where 2: "Proceed L a t (taken ?s1 t True) = Inr s2"
    and s2: "heap s2 = (heap s)(a \<mapsto> ?new, t \<mapsto> ?cd\<lparr>cd_reply := ?r, cd_status := FINISH\<rparr>)"
      "requested s2 = remove1 t (requested s) @ [a]" "finishing s2 = finishing s @ [(t, ?r)]"
      "answered s2 = answered s"
    using Proceed_process [of "taken ?s1 t True" t ?cd a L] cd at by (simp add: Let_def)
  have 3: "server_step L ?s1 s2"
    using 2 assms(4) at by (intro handle [of t True _ a]) (simp_all add: HandleRpcs_round_def taken_def)
  have inv2: "server_inv L s2" using server_step_inv [OF 3 inv1 assms(2)] .
  let ?s3 = "s2\<lparr>finishing := remove1 (t, ?r) (finishing s2), events := events s2 @ [(t, True)],
      answered := answered s2 @ [(HelloRequest_name L req, HelloReply_message L ?r)]\<rparr>"
  have 4: "server_step L s2 ?s3" using sent [of t ?r s2 "the (heap s2 t)" L] s2 by simp
  have "heap s2 t \<noteq> None" using s2(1) by simp
  have inv3: "server_inv L ?s3" using server_step_inv [OF 4 inv2 assms(2)] .
  obtain b where b: "heap ?s3 b = None"
    using server_heap_finite [OF inv3] ex_new_if_finite [of "dom (heap ?s3)"] by auto
  obtain s4 where 5: "Proceed L b t (taken ?s3 t True) = Inr s4"
    and s4: "heap s4 = (heap s2)(t := None)" "requested s4 = requested s2" "answered s4 = answered ?s3"
    using Proceed_finish [of "taken ?s3 t True" t] s2 by auto
  have 6: "server_step L ?s3 s4"
    using 5 b by (intro handle [of t True _ b]) (simp_all add: HandleRpcs_round_def taken_def)
  have "(server_step L)\<^sup>*\<^sup>* s s4" using 1 3 4 6 by (meson r_into_rtranclp rtranclp.rtrancl_into_rtrancl)
  moreover have "HelloReply_message L ?r = ''Hello '' @ HelloRequest_name L req"
    using assms(2) by (simp add: HelloReply_message_def HelloReply_set_message_def cell_ok_def)
  ultimately show ?thesis
    using s4 s2 at by (intro exI [of _ s4]) (simp add: in_status_def)
qed

text \<open>
  A call is served: from any reachable state, whatever request comes in for the waiting object,
  there is a run that sends one more reply, \<open>Hello\<close> and the name, deletes the object that served
  the call and leaves a new object at a fresh address, waiting for the next call.
\<close>

lemma server_serves_call:
  assumes "server_reachable L s" and "cell_ok L" and "t \<in> set (requested s)" and "heap s a = None"
  shows "\<exists>s'. (server_step L)\<^sup>*\<^sup>* s s' \<and> heap s' t = None \<and> in_status s' PROCESS a \<and> a \<in> set (requested s')
     \<and> answered s' = answered s @ [(HelloRequest_name L req, ''Hello '' @ HelloRequest_name L req)]"
  using serve_steps server_reachable_inv assms by blast

end
