(* ===== verification/Greeter_Spec.thy ===== *)
theory Greeter_Spec
  imports Simulation Greeter_Server
begin

text \<open>
  What the asynchronous server of \<open>include/greeter_async_server.h\<close> promises, without objects, tags
  and queues: a service that holds the names of the calls it has accepted and the replies it has
  sent. The server refines it, under the abstraction function \<open>abs_server\<close>; the locale
  \<open>abstraction\<close> carries the steps over to runs.
\<close>

section \<open>The abstract service\<close>

record greeting_service =
  in_service :: "bytes multiset"
  replied :: "(bytes \<times> bytes) list"

inductive greeting_step :: "greeting_service \<Rightarrow> greeting_service \<Rightarrow> bool" where
  accept: "greeting_step g (g\<lparr>in_service := add_mset n (in_service g)\<rparr>)"
| answer: "in_service g = add_mset n m \<Longrightarrow>
    greeting_step g (g\<lparr>in_service := m, replied := replied g @ [(n, ''Hello '' @ n)]\<rparr>)"
| drop_call: "in_service g = add_mset n m \<Longrightarrow> greeting_step g (g\<lparr>in_service := m\<rparr>)"

definition idle_service :: greeting_service where
  "idle_service = \<lparr>in_service = {#}, replied = []\<rparr>"

section \<open>The abstraction\<close>

definition name_at :: "('p, 'f) protobuf_lib \<Rightarrow> ('p, 'f) greeter_server \<Rightarrow> nat \<Rightarrow> bytes" where
  "name_at L s t = (case heap s t of None \<Rightarrow> [] | Some cd \<Rightarrow> HelloRequest_name L (cd_request cd))"

text \<open>
  A call is in service from the moment its event is in the queue (its object is still in \<open>PROCESS\<close>)
  until the operation started by \<open>Finish\<close> completes.
\<close>

definition serving :: "('p, 'f) greeter_server \<Rightarrow> nat multiset" where
  "serving s = filter_mset (in_status s PROCESS) (mset (map fst (events s))) + mset (map fst (finishing s))"

definition abs_server :: "('p, 'f) protobuf_lib \<Rightarrow> ('p, 'f) greeter_server \<Rightarrow> greeting_service" where
  "abs_server L s = \<lparr>in_service = image_mset (name_at L s) (serving s), replied = answered s\<rparr>"

lemma abs_server_begin: "abs_server L (HandleRpcs_begin L a) = idle_service"
  by (simp add: abs_server_def serving_def idle_service_def HandleRpcs_begin_def CallData_eq)

lemma filter_status_cong:
  "(\<And>u. u \<in># M \<Longrightarrow> in_status s' PROCESS u = in_status s PROCESS u) \<Longrightarrow>
   filter_mset (in_status s' PROCESS) M = filter_mset (in_status s PROCESS) M"
  by (rule filter_mset_cong) simp_all

lemma names_cong:
  "(\<And>u. u \<in># M \<Longrightarrow> heap s' u = heap s u) \<Longrightarrow> image_mset (name_at L s') M = image_mset (name_at L s) M"
  by (rule image_mset_cong) (simp add: name_at_def)

section \<open>The server refines the service\<close>

lemma arrive_refines:
  assumes "server_inv L s" and "t \<in> set (requested s)" and cd: "heap s t = Some cd"
  shows "greeting_step (abs_server L s) (abs_server L (s\<lparr>requested := remove1 t (requested s),
      heap := (heap s)(t \<mapsto> cd\<lparr>cd_request := req\<rparr>), events := events s @ [(t, True)]\<rparr>))" (is "greeting_step _ (abs_server L ?s)")
proof -
  have st: "in_status s PROCESS t" using assms(1,2) by (simp add: server_inv_def replies_ok_def)
  have "tags s = add_mset t (mset (remove1 t (requested s)) + mset (map fst (finishing s)) + mset (map fst (events s)))"
    using assms(2) by (simp add: tags_def)
  then have "t \<notin># mset (remove1 t (requested s)) + mset (map fst (finishing s)) + mset (map fst (events s))"
    using assms(1) by (intro tag_once) (simp_all only: server_inv_def)
  then have out: "t \<notin># mset (map fst (finishing s))" "t \<notin># mset (map fst (events s))"
    by simp_all
  have status: "in_status ?s PROCESS = in_status s PROCESS"
    using st cd by (auto simp: in_status_def fun_eq_iff)
  have "serving ?s = add_mset t (serving s)"
    unfolding serving_def status using st by simp
  moreover have "image_mset (name_at L ?s) (serving s) = image_mset (name_at L s) (serving s)"
    by (rule names_cong) (use out in \<open>auto simp: serving_def\<close>)
  moreover have "name_at L ?s t = HelloRequest_name L req" by (simp add: name_at_def)
  ultimately have "abs_server L ?s = (abs_server L s)\<lparr>in_service :=
      add_mset (HelloRequest_name L req) (in_service (abs_server L s))\<rparr>"
    by (simp add: abs_server_def)
  then show ?thesis by (simp add: greeting_step.accept)
qed

text \<open>\<open>Finish\<close> completing takes its call out of service, whatever the completion says.\<close>

lemma finishing_done_service:
  assumes "(t, r) \<in> set (finishing s)" and inv: "server_inv L s"
  shows "in_service (abs_server L s) = add_mset (name_at L s t)
    (in_service (abs_server L (s\<lparr>finishing := remove1 (t, r) (finishing s), events := events s @ [(t, ok)], answered := x\<rparr>)))"
    (is "_ = add_mset _ (in_service (abs_server L ?s))")
proof -
  have "\<not> in_status s PROCESS t" by (rule finishing_status(2) [OF inv assms(1)])
  moreover have "in_status ?s = in_status s" by (simp add: in_status_def fun_eq_iff)
  ultimately have "serving s = add_mset t (serving ?s)"
    using mset_fst_remove1 [OF assms(1)] by (simp add: serving_def)
  moreover have "name_at L ?s = name_at L s" by (simp add: name_at_def fun_eq_iff)
  ultimately show ?thesis by (simp add: abs_server_def)
qed

lemma sent_refines:
  assumes "server_inv L s" and "(t, r) \<in> set (finishing s)" and "heap s t = Some cd"
  shows "greeting_step (abs_server L s) (abs_server L (s\<lparr>finishing := remove1 (t, r) (finishing s),
    events := events s @ [(t, True)],
    answered := answered s @ [(HelloRequest_name L (cd_request cd), HelloReply_message L r)]\<rparr>))"
    (is "greeting_step _ (abs_server L ?s)")
proof -
  let ?n = "HelloRequest_name L (cd_request cd)"
  have "name_at L s t = ?n" using assms(3) by (simp add: name_at_def)
  with finishing_done_service [OF assms(2,1), where ok = True] have
    "in_service (abs_server L s) = add_mset ?n (in_service (abs_server L ?s))" by simp
  from greeting_step.answer [OF this] show ?thesis
    using sent_answer [OF assms] by (simp add: abs_server_def)
qed

lemma dead_refines:
  assumes "server_inv L s" and "(t, r) \<in> set (finishing s)"
  shows "greeting_step (abs_server L s)
    (abs_server L (s\<lparr>finishing := remove1 (t, r) (finishing s), events := events s @ [(t, False)]\<rparr>))"
  using greeting_step.drop_call [OF finishing_done_service [OF assms(2,1), where ok = False and x = "answered s"]]
  by (simp add: abs_server_def serving_def)

text \<open>Letting an object proceed changes nothing in the service.\<close>

lemma process_invisible:
  assumes inv: "server_inv L s" and ev: "(t, ok) \<in> set (events s)" and fresh: "heap s a = None"
    and cd: "heap s t = Some cd" "cd_status cd = PROCESS"
    and run: "Proceed L a t (taken s t ok) = Inr s'"
  shows "abs_server L s' = abs_server L s"
proof -
  have at: "a \<noteq> t" using fresh cd by auto
  note s' = run [unfolded Proceed_process [of "taken s t ok" t cd a L, simplified, OF cd at] Let_def]
  let ?E = "mset (map fst (events (taken s t ok)))" and ?F = "mset (map fst (finishing s))"
  have ev': "image_mset fst (mset (events s)) = add_mset t ?E"
    using mset_fst_remove1 [OF ev] by (simp add: taken_def)
  have "one_tag_each s" using inv by (simp add: server_inv_def)
  then have out: "t \<notin># ?E + ?F" "a \<notin># ?E + ?F"
    using tag_once [of s t] taken_tags [OF ev] tag_live [of s a] fresh by (auto simp: tags_def)
  have same: "heap s' u = heap s u" if u: "u \<in># ?E + ?F" for u
  proof -
    have "u \<noteq> t" "u \<noteq> a" using u out by blast+
    then show ?thesis using s' by auto
  qed
  have "events s' = events (taken s t ok)" "map fst (finishing s') = map fst (finishing s) @ [t]"
    using s' by auto
  moreover have "filter_mset (in_status s' PROCESS) ?E = filter_mset (in_status s PROCESS) ?E"
    by (rule filter_status_cong) (simp add: in_status_def same)
  moreover have "in_status s PROCESS t" using cd by (simp add: in_status_def)
  ultimately have serving: "serving s' = serving s" by (simp add: serving_def ev')
  have "name_at L s' u = name_at L s u" if "u \<in># serving s" for u
  proof (cases "u = t")
    case True
    with s' cd show ?thesis by (auto simp: name_at_def)
  next
    case False
    with that have "u \<in># ?E + ?F" by (auto simp: serving_def ev' split: if_splits)
    then show ?thesis by (simp add: name_at_def same)
  qed
  moreover have "answered s' = answered s" using s' by auto
  ultimately show ?thesis unfolding abs_server_def serving by (simp cong: image_mset_cong)
qed

lemma finish_invisible:
  assumes inv: "server_inv L s" and ev: "(t, ok) \<in> set (events s)"
    and cd: "heap s t = Some cd" "cd_status cd = FINISH"
    and run: "Proceed L a t (taken s t ok) = Inr s'"
  shows "abs_server L s' = abs_server L s"
proof -
  have s': "s' = (taken s t ok)\<lparr>heap := (heap s)(t := None)\<rparr>"
    using run Proceed_finish [of "taken s t ok" t cd L a] cd by simp
  let ?E = "mset (map fst (events (taken s t ok)))" and ?F = "mset (map fst (finishing s))"
  have ev': "image_mset fst (mset (events s)) = add_mset t ?E"
    using mset_fst_remove1 [OF ev] by (simp add: taken_def)
  have "t \<notin># ?E + ?F"
    using event_out [OF inv ev] by (simp add: tags_def)
  then have same: "heap s' u = heap s u" if u: "u \<in># ?E + ?F" for u
    using u by (cases "u = t") (blast, simp add: s')
  have "filter_mset (in_status s' PROCESS) ?E = filter_mset (in_status s PROCESS) ?E"
    by (rule filter_status_cong) (simp add: in_status_def same)
  moreover have "\<not> in_status s PROCESS t" using cd by (simp add: in_status_def)
  ultimately have serving: "serving s' = serving s" by (simp add: serving_def ev' s')
  have "image_mset (name_at L s') (serving s) = image_mset (name_at L s) (serving s)"
  proof (rule names_cong)
    fix u assume "u \<in># serving s"
    then have "u \<in># ?E + ?F" using cd by (auto simp: serving_def ev' in_status_def)
    then show "heap s' u = heap s u" by (rule same)
  qed
  then show ?thesis unfolding abs_server_def serving by (simp add: s')
qed

lemma server_step_refines:
  assumes "server_inv L s" and "server_step L s s'"
  shows "abs_server L s' = abs_server L s \<or> greeting_step (abs_server L s) (abs_server L s')"
  using assms(2)
proof cases
  case (arrive t cd req)
  then show ?thesis using arrive_refines assms(1) by blast
next
  case (sent t r cd)
  then show ?thesis using sent_refines assms(1) by blast
next
  case (call_dead t r)
  then show ?thesis using dead_refines assms(1) by blast
next
  case (handle t ok a)
  from handle(3) have run: "Proceed L a t (taken s t ok) = Inr s'"
    by (auto simp: HandleRpcs_round_def taken_def split: if_splits)
  from event_status [OF assms(1) handle(1)] show ?thesis
    using process_invisible [OF assms(1) handle(1,2) _ _ run]
      finish_invisible [OF assms(1) handle(1) _ _ run] by (auto elim!: in_status_cases)
qed

interpretation greeter: abstraction "server_step L" "\<lambda>s. cell_ok L \<and> server_inv L s" greeting_step "abs_server L" for L
  by unfold_locales (use server_step_inv server_step_refines in blast)+

lemma server_reachable_steps: "server_reachable L s \<Longrightarrow> \<exists>a. (server_step L)\<^sup>*\<^sup>* (HandleRpcs_begin L a) s"
  by (induction rule: server_reachable.induct) (auto intro: rtranclp.rtrancl_into_rtrancl)

text \<open>
  C7. The server refines the abstract service: whatever the runtime and the clients do, what it has
  done so far is a run of a service that accepts names, answers each accepted name at most once,
  with \<open>Hello\<close> and that name, and otherwise only drops calls; the names in service are those of
  the calls whose event is in the queue or whose reply is on its way.
\<close>

theorem server_refines_spec:
  assumes "server_reachable L s" and "cell_ok L"
  shows "greeting_step\<^sup>*\<^sup>* idle_service (abs_server L s)"
  using server_reachable_steps [OF assms(1)] greeter.abs_run assms(2)
  by (metis HandleRpcs_begin_inv abs_server_begin)

theorem server_refines_spec_witness:
  "greeting_step\<^sup>*\<^sup>* idle_service \<lparr>in_service = {#''world''#}, replied = []\<rparr>"
proof -
  have "abs_server wire_lib (first_call ''world'') = \<lparr>in_service = {#''world''#}, replied = []\<rparr>"
    by (simp add: abs_server_def serving_def first_call_def name_at_def in_status_def HandleRpcs_begin_def CallData_eq
        HelloRequest_name_def HelloRequest_set_name_def wire_lib_def)
  then show ?thesis
    using server_refines_spec [OF first_call_reachable wire_cell_ok, of "''world''"] by simp
qed

end
