(* ===== verification/Greeter_Service.thy ===== *)
theory Greeter_Service
  imports Greeter_Server
begin

text \<open>
  The classes \<open>protoc\<close>'s gRPC plugin generated for the \<open>Greeter\<close> service, in
  \<open>include/helloworld.grpc.pb.h\<close> and \<open>src/helloworld.grpc.pb.cc\<close>: the service with its one method
  and the layers that change how the method is served, and the client stub. The gRPC library they
  call is a parameter: \<open>grpc_service_lib\<close> on the server side, \<open>grpc_client_lib\<close> on the client side.
\<close>

section \<open>Service side\<close>

text \<open>How a method is served; \<open>Sync\<close> is how \<open>AddMethod\<close> registers it.\<close>

datatype api = Sync | Async | Callback | Generic | Raw | Raw_callback | Streamed

text \<open>
  \<open>::grpc::Service\<close>: its constructor, \<open>AddMethod\<close>, the \<open>MarkMethod\<close> family, and its methods, where a
  method that is left to the generic service is an empty slot. Not every layer can be put on every
  other: a mark the library refuses is \<open>None\<close>, its failed assertion.
\<close>

record 'svc grpc_service_lib =
  new_service :: 'svc
  AddMethod :: "bytes \<Rightarrow> 'svc \<Rightarrow> 'svc"
  MarkMethod :: "api \<Rightarrow> nat \<Rightarrow> 'svc \<Rightarrow> 'svc option"
  methods :: "'svc \<Rightarrow> (bytes \<times> api) option list"

text \<open>What it does to a method that has just been added; of other marks nothing is said.\<close>

definition service_lib_ok :: "'svc grpc_service_lib \<Rightarrow> bool" where
  "service_lib_ok G \<longleftrightarrow>
     methods G (new_service G) = []
     \<and> (\<forall>n s. methods G (AddMethod G n s) = methods G s @ [Some (n, Sync)])
     \<and> (\<forall>k i s n. k \<noteq> Sync \<longrightarrow> i < length (methods G s) \<longrightarrow> methods G s ! i = Some (n, Sync) \<longrightarrow>
          (\<exists>s'. MarkMethod G k i s = Some s'
              \<and> methods G s' = (methods G s)[i := if k = Generic then None else Some (n, k)]))"

definition service_full_name :: bytes where
  "service_full_name = ''helloworld.Greeter''"

definition Greeter_method_names :: "bytes list" where
  "Greeter_method_names = [''/helloworld.Greeter/SayHello'']"

text \<open>The generated service classes: \<open>Service\<close> and the templates that derive from a base class.\<close>

datatype service_class =
    Service
  | WithAsyncMethod_SayHello service_class
  | WithCallbackMethod_SayHello service_class
  | WithGenericMethod_SayHello service_class
  | WithRawMethod_SayHello service_class
  | WithRawCallbackMethod_SayHello service_class
  | WithStreamedUnaryMethod_SayHello service_class

text \<open>Construction runs the constructor of the base class first.\<close>

primrec service_ctor :: "'svc grpc_service_lib \<Rightarrow> service_class \<Rightarrow> 'svc option" where
  "service_ctor G Service = Some (AddMethod G (Greeter_method_names ! 0) (new_service G))"
| "service_ctor G (WithAsyncMethod_SayHello b) = Option.bind (service_ctor G b) (MarkMethod G Async 0)"
| "service_ctor G (WithCallbackMethod_SayHello b) = Option.bind (service_ctor G b) (MarkMethod G Callback 0)"
| "service_ctor G (WithGenericMethod_SayHello b) = Option.bind (service_ctor G b) (MarkMethod G Generic 0)"
| "service_ctor G (WithRawMethod_SayHello b) = Option.bind (service_ctor G b) (MarkMethod G Raw 0)"
| "service_ctor G (WithRawCallbackMethod_SayHello b) = Option.bind (service_ctor G b) (MarkMethod G Raw_callback 0)"
| "service_ctor G (WithStreamedUnaryMethod_SayHello b) = Option.bind (service_ctor G b) (MarkMethod G Streamed 0)"

text \<open>The synchronous \<open>SayHello\<close>: a status, or \<open>abort()\<close> in every layer that disables it.\<close>

datatype rpc_status = Status_ok | Unimplemented | Failed_status

primrec service_SayHello :: "service_class \<Rightarrow> proc_outcome + rpc_status" where
  "service_SayHello Service = Inr Unimplemented"
| "service_SayHello (WithAsyncMethod_SayHello b) = Inl Terminate"
| "service_SayHello (WithCallbackMethod_SayHello b) = Inl Terminate"
| "service_SayHello (WithGenericMethod_SayHello b) = Inl Terminate"
| "service_SayHello (WithRawMethod_SayHello b) = Inl Terminate"
| "service_SayHello (WithRawCallbackMethod_SayHello b) = Inl Terminate"
| "service_SayHello (WithStreamedUnaryMethod_SayHello b) = Inl Terminate"

definition AsyncService :: service_class where
  "AsyncService = WithAsyncMethod_SayHello Service"

text \<open>The kind the outermost layer gives the method.\<close>

fun served_as :: "service_class \<Rightarrow> api" where
  "served_as Service = Sync"
| "served_as (WithAsyncMethod_SayHello b) = Async"
| "served_as (WithCallbackMethod_SayHello b) = Callback"
| "served_as (WithGenericMethod_SayHello b) = Generic"
| "served_as (WithRawMethod_SayHello b) = Raw"
| "served_as (WithRawCallbackMethod_SayHello b) = Raw_callback"
| "served_as (WithStreamedUnaryMethod_SayHello b) = Streamed"

text \<open>The service classes the header itself names: \<open>Service\<close> and one layer on it.\<close>

fun base_class :: "service_class \<Rightarrow> service_class option" where
  "base_class Service = None"
| "base_class (WithAsyncMethod_SayHello b) = Some b"
| "base_class (WithCallbackMethod_SayHello b) = Some b"
| "base_class (WithGenericMethod_SayHello b) = Some b"
| "base_class (WithRawMethod_SayHello b) = Some b"
| "base_class (WithRawCallbackMethod_SayHello b) = Some b"
| "base_class (WithStreamedUnaryMethod_SayHello b) = Some b"

definition one_layer :: "service_class \<Rightarrow> bool" where
  "one_layer c \<longleftrightarrow> base_class c \<in> {None, Some Service}"

lemma mark_added_method:
  "service_lib_ok G \<Longrightarrow> methods G s = [Some (n, Sync)] \<Longrightarrow> k \<noteq> Sync \<Longrightarrow>
   \<exists>s'. MarkMethod G k 0 s = Some s' \<and> methods G s' = [if k = Generic then None else Some (n, k)]"
  unfolding service_lib_ok_def by (elim conjE, erule allE [of _ k], erule allE [of _ 0], erule allE [of _ s]) simp

lemma service_ctor_layer:
  assumes "service_lib_ok G" and "base_class c = Some Service"
  shows "service_ctor G c = MarkMethod G (served_as c) 0 (the (service_ctor G Service)) \<and> served_as c \<noteq> Sync"
  using assms by (cases c) simp_all

lemma service_ctor_methods:
  assumes "service_lib_ok G" and "one_layer c"
  shows "\<exists>s. service_ctor G c = Some s
     \<and> methods G s = [if served_as c = Generic then None else Some (''/helloworld.Greeter/SayHello'', served_as c)]"
proof (cases "base_class c")
  case None
  then have "c = Service" by (cases c) simp_all
  then show ?thesis using assms(1) by (simp add: service_lib_ok_def Greeter_method_names_def)
next
  case (Some b)
  let ?s = "AddMethod G (Greeter_method_names ! 0) (new_service G)"
  have "methods G ?s = [Some (''/helloworld.Greeter/SayHello'', Sync)]"
    using assms(1) by (simp add: service_lib_ok_def Greeter_method_names_def)
  moreover have c: "service_ctor G c = MarkMethod G (served_as c) 0 ?s" "served_as c \<noteq> Sync"
    using service_ctor_layer [OF assms(1), of c] Some assms(2) by (simp_all add: one_layer_def)
  ultimately obtain s' where "MarkMethod G (served_as c) 0 ?s = Some s'"
    "methods G s' = [if served_as c = Generic then None else Some (''/helloworld.Greeter/SayHello'', served_as c)]"
    using mark_added_method [OF assms(1)] by blast
  then show ?thesis using c(1) by simp
qed

section \<open>Client side\<close>

text \<open>
  What the completion queue returns for a call whose \<open>Finish\<close> was given the object \<open>reply\<close>: what
  \<open>Next\<close> returned and stored, the status of the call and the reply object afterwards.
\<close>

record 'rep completion =
  next_returned :: bool
  got_tag :: nat
  got_ok :: bool
  rpc_status :: rpc_status
  reply_after :: 'rep

record ('ch, 'call, 'req, 'rep) grpc_client_lib =
  reader_create :: "'ch \<Rightarrow> bytes \<Rightarrow> 'req \<Rightarrow> 'call"
  StartCall :: "'call \<Rightarrow> 'call"
  Finish_next :: "'call \<Rightarrow> 'rep \<Rightarrow> nat \<Rightarrow> 'rep completion"
  BlockingUnaryCall :: "'ch \<Rightarrow> bytes \<Rightarrow> 'req \<Rightarrow> 'rep \<Rightarrow> rpc_status \<times> 'rep"

record 'ch stub =
  stub_channel :: 'ch
  rpcmethod_SayHello :: bytes

definition Stub :: "'ch \<Rightarrow> 'ch stub" where
  "Stub channel = \<lparr>stub_channel = channel, rpcmethod_SayHello = Greeter_method_names ! 0\<rparr>"

definition NewStub :: "'ch \<Rightarrow> 'ch stub" where
  "NewStub channel = Stub channel"

definition Stub_SayHello ::
  "('ch, 'call, 'req, 'rep) grpc_client_lib \<Rightarrow> 'ch stub \<Rightarrow> 'req \<Rightarrow> 'rep \<Rightarrow> rpc_status \<times> 'rep" where
  "Stub_SayHello C stub request response =
     BlockingUnaryCall C (stub_channel stub) (rpcmethod_SayHello stub) request response"

definition PrepareAsyncSayHelloRaw ::
  "('ch, 'call, 'req, 'rep) grpc_client_lib \<Rightarrow> 'ch stub \<Rightarrow> 'req \<Rightarrow> 'call" where
  "PrepareAsyncSayHelloRaw C stub request =
     reader_create C (stub_channel stub) (rpcmethod_SayHello stub) request"

definition PrepareAsyncSayHello ::
  "('ch, 'call, 'req, 'rep) grpc_client_lib \<Rightarrow> 'ch stub \<Rightarrow> 'req \<Rightarrow> 'call" where
  "PrepareAsyncSayHello C stub request = PrepareAsyncSayHelloRaw C stub request"

definition AsyncSayHelloRaw ::
  "('ch, 'call, 'req, 'rep) grpc_client_lib \<Rightarrow> 'ch stub \<Rightarrow> 'req \<Rightarrow> 'call" where
  "AsyncSayHelloRaw C stub request =
     (let result = PrepareAsyncSayHelloRaw C stub request in StartCall C result)"

section \<open>Service and stub\<close>

text \<open>
  The generated service and stub agree. \<open>Service\<close> and every service with one layer on it can be
  constructed and has one method, index 0, that \<open>MarkMethod\<close> and \<open>RequestAsyncUnary\<close> refer to; its
  name is the one the stub calls and begins with the service's full name, and it is served the way
  the layer says, or left to the generic service; its synchronous version is disabled exactly when
  there is a layer.
\<close>

lemma Greeter_registration:
  assumes "service_lib_ok G" and "one_layer c"
  shows "\<exists>s. service_ctor G c = Some s
     \<and> methods G s = [if served_as c = Generic then None else Some (rpcmethod_SayHello (NewStub channel), served_as c)]
     \<and> rpcmethod_SayHello (NewStub channel) = ''/'' @ service_full_name @ ''/SayHello''
     \<and> (service_SayHello c = Inl Terminate \<longleftrightarrow> c \<noteq> Service)"
proof -
  have "service_SayHello c = Inl Terminate \<longleftrightarrow> c \<noteq> Service" by (cases c) simp_all
  moreover have "rpcmethod_SayHello (NewStub channel) = ''/helloworld.Greeter/SayHello''"
    by (simp add: NewStub_def Stub_def Greeter_method_names_def)
  ultimately show ?thesis using service_ctor_methods [OF assms] by (auto simp: service_full_name_def simp del: if_split)
qed

text \<open>The laws of the library can hold.\<close>

definition list_service_lib :: "(bytes \<times> api) option list grpc_service_lib" where
  "list_service_lib = \<lparr>new_service = [], AddMethod = (\<lambda>n s. s @ [Some (n, Sync)]),
     MarkMethod = (\<lambda>k i s. case s ! i of
        Some (n, a) \<Rightarrow> if a = Sync then Some (s[i := if k = Generic then None else Some (n, k)]) else None
      | None \<Rightarrow> None),
     methods = (\<lambda>s. s)\<rparr>"

lemma list_service_lib_ok: "service_lib_ok list_service_lib"
  by (simp add: service_lib_ok_def list_service_lib_def)

end
