(* ===== verification/Greeter_Run.thy ===== *)
theory Greeter_Run
  imports Simulation Greeter_Service
begin

text \<open>
  \<open>ServerImpl::Run\<close> and \<open>~ServerImpl\<close> of \<open>include/greeter_async_server.h\<close>: how the server comes
  up, through \<open>grpc::ServerBuilder\<close> as a parameter, and the calls its destructor makes.
\<close>

section \<open>\<open>Run\<close>\<close>

text \<open>
  \<open>grpc::ServerBuilder\<close>: \<open>BuildAndStart\<close> returns a null pointer (\<open>None\<close>) when the server cannot be
  started, for instance because the port is taken.
\<close>

record ('b, 'srv) builder_lib =
  new_builder :: 'b
  AddListeningPort :: "bytes \<Rightarrow> 'b \<Rightarrow> 'b"
  RegisterService :: "service_class \<Rightarrow> 'b \<Rightarrow> 'b"
  AddCompletionQueue :: "'b \<Rightarrow> nat \<times> 'b"
  BuildAndStart :: "'b \<Rightarrow> 'srv option"

text \<open>The members of \<open>ServerImpl\<close>, two of them smart pointers, and the lines it has printed.\<close>

record 'srv server_impl =
  cq_ptr :: "nat option"
  service_member :: service_class
  server_ptr :: "'srv option"
  server_out :: "bytes list"

definition ServerImpl :: "'srv server_impl" where
  "ServerImpl = \<lparr>cq_ptr = None, service_member = AsyncService, server_ptr = None, server_out = []\<rparr>"

definition server_address :: bytes where
  "server_address = ''0.0.0.0:50051''"

definition Run_setup :: "('b, 'srv) builder_lib \<Rightarrow> 'srv server_impl \<Rightarrow> 'srv server_impl" where
  "Run_setup B this =
     (let b1 = AddListeningPort B server_address (new_builder B);
          b2 = RegisterService B (service_member this) b1;
          (cq, b3) = AddCompletionQueue B b2;
          server = BuildAndStart B b3
      in this\<lparr>cq_ptr := Some cq, server_ptr := server,
           server_out := server_out this @ [''Server listening on '' @ server_address]\<rparr>)"

text \<open>
  \<open>HandleRpcs\<close> is entered whatever \<open>BuildAndStart\<close> returned. Asking for a call of a service that no
  server has started is a use of a null server, in the library: \<open>Inl Null_server\<close>.
\<close>

datatype run_error = Null_server | Null_queue

definition Run ::
  "('p, 'f) protobuf_lib \<Rightarrow> ('b, 'srv) builder_lib \<Rightarrow> nat \<Rightarrow> 'srv server_impl
    \<Rightarrow> 'srv server_impl \<times> (run_error + ('p, 'f) greeter_server)" where
  "Run L B a this =
     (let this' = Run_setup B this
      in (this', if server_ptr this' = None then Inl Null_server else Inr (HandleRpcs_begin L a)))"

lemma Run_prints:
  "server_out (fst (Run L B a ServerImpl)) = [''Server listening on 0.0.0.0:50051'']
   \<and> (snd (Run L B a ServerImpl) = Inl Null_server
        \<longleftrightarrow> BuildAndStart B (snd (AddCompletionQueue B (RegisterService B AsyncService
              (AddListeningPort B ''0.0.0.0:50051'' (new_builder B))))) = None)"
  by (simp add: Run_def Run_setup_def ServerImpl_def server_address_def Let_def split: prod.split)

section \<open>\<open>~ServerImpl\<close>\<close>

text \<open>
  The destructor makes two calls, each through a pointer, first the server's: the calls in their
  order, and the null pointer that stops it, if any. What the calls do to a server whose threads are
  in \<open>HandleRpcs\<close> is in \<open>Greeter_Progress\<close>.
\<close>

datatype shutdown_call = Server_Shutdown | Queue_Shutdown

definition ServerImpl_destructor :: "'srv server_impl \<Rightarrow> shutdown_call list \<times> run_error option" where
  "ServerImpl_destructor this =
     (if server_ptr this = None then ([], Some Null_server)
      else if cq_ptr this = None then ([Server_Shutdown], Some Null_queue)
      else ([Server_Shutdown, Queue_Shutdown], None))"

text \<open>What is left to happen to an operation or event, per tag.\<close>

definition event_weight :: "('p, 'f) greeter_server \<Rightarrow> nat \<times> bool \<Rightarrow> nat" where
  "event_weight s e = (if in_status s PROCESS (fst e) \<and> snd e then 5 else 1)"

lemma event_weight_cong:
  "(\<And>u ok. (u, ok) \<in> set es \<Longrightarrow> in_status s' PROCESS u = in_status s PROCESS u) \<Longrightarrow>
   sum_list (map (event_weight s') es) = sum_list (map (event_weight s) es)"
  by (intro arg_cong [where f = sum_list] map_cong) (auto simp: event_weight_def)

end
