(* ===== verification/Greeter_Threads.thy ===== *)
theory Greeter_Threads
  imports Greeter_Spec
begin

text \<open>
  \<open>HandleRpcs\<close> of \<open>include/greeter_async_server.h\<close> says of itself that it can be run in multiple
  threads. Here any number of threads run it on one completion queue, and the body of \<open>Proceed\<close> is
  cut at its accesses to the \<open>CallData\<close> objects and at its calls of the runtime, so that the steps
  of different threads interleave between them. What is shown rests on the order of the code:
  \<open>status_\<close> is set before the call that lets another thread have the object.
\<close>

section \<open>A thread\<close>

text \<open>
  Where a thread stands. \<open>Th_create t k\<close>: in the constructor of the object at \<open>t\<close>; \<open>Th_request t k\<close>:
  before its \<open>RequestSayHello\<close>; \<open>k\<close> is the object whose call is being processed, if it was
  \<open>Proceed\<close> that created the new one. An access to a deleted object is \<open>Th_fault\<close>, a failed
  assertion \<open>Th_abort\<close>, with the object in hand.
\<close>

datatype thread_pc =
    Th_begin
  | Th_create nat "nat option"
  | Th_request nat "nat option"
  | Th_next
  | Th_got nat bool
  | Th_process nat
  | Th_reply nat
  | Th_status nat
  | Th_finish nat
  | Th_delete nat
  | Th_abort nat
  | Th_fault

text \<open>An access to the object at \<open>t\<close>.\<close>

definition at_object ::
  "('p, 'f) greeter_server \<Rightarrow> nat \<Rightarrow> (('p, 'f) call_data \<Rightarrow> thread_pc \<times> ('p, 'f) greeter_server)
    \<Rightarrow> thread_pc \<times> ('p, 'f) greeter_server" where
  "at_object s t f = (case heap s t of None \<Rightarrow> (Th_fault, s) | Some cd \<Rightarrow> f cd)"

definition put :: "nat \<Rightarrow> ('p, 'f) call_data \<Rightarrow> ('p, 'f) greeter_server \<Rightarrow> ('p, 'f) greeter_server" where
  "put t cd s = s\<lparr>heap := (heap s)(t \<mapsto> cd)\<rparr>"

definition new_object :: "('p, 'f) protobuf_lib \<Rightarrow> ('p, 'f) call_data" where
  "new_object L = \<lparr>cd_status = CREATE, cd_request = HelloRequest L None, cd_reply = HelloReply L None\<rparr>"

text \<open>
  One step of a thread; \<open>a\<close> is the address that \<open>new\<close> returns in this step. A thread in \<open>Next\<close>
  waits for an event.
\<close>

fun thread_step ::
  "('p, 'f) protobuf_lib \<Rightarrow> nat \<Rightarrow> thread_pc \<Rightarrow> ('p, 'f) greeter_server \<Rightarrow> thread_pc \<times> ('p, 'f) greeter_server" where
  "thread_step L a Th_begin s = (Th_create a None, put a (new_object L) s)"
| "thread_step L a (Th_create t k) s =
     at_object s t (\<lambda>cd. (Th_request t k, put t (cd\<lparr>cd_status := PROCESS\<rparr>) s))"
| "thread_step L a (Th_request t k) s =
     (case k of None \<Rightarrow> Th_next | Some u \<Rightarrow> Th_reply u, s\<lparr>requested := requested s @ [t]\<rparr>)"
| "thread_step L a (Th_got t ok) s =
     (if \<not> ok then (Th_abort t, s)
      else at_object s t (\<lambda>cd.
        (if cd_status cd = CREATE then Th_create t None
         else if cd_status cd = PROCESS then Th_process t
         else if cd_status cd \<noteq> FINISH then Th_abort t
         else Th_delete t, s)))"
| "thread_step L a (Th_process t) s = (Th_create a (Some t), put a (new_object L) s)"
| "thread_step L a (Th_reply t) s =
     at_object s t (\<lambda>cd. (Th_status t, put t
       (cd\<lparr>cd_reply := HelloReply_set_message L (''Hello '' @ HelloRequest_name L (cd_request cd)) (cd_reply cd)\<rparr>) s))"
| "thread_step L a (Th_status t) s =
     at_object s t (\<lambda>cd. (Th_finish t, put t (cd\<lparr>cd_status := FINISH\<rparr>) s))"
| "thread_step L a (Th_finish t) s =
     at_object s t (\<lambda>cd. (Th_next, s\<lparr>finishing := finishing s @ [(t, cd_reply cd)]\<rparr>))"
| "thread_step L a (Th_delete t) s = at_object s t (\<lambda>cd. (Th_next, s\<lparr>heap := (heap s)(t := None)\<rparr>))"
| "thread_step L a pc s = (pc, s)"

text \<open>Some steps; the list has the address that \<open>new\<close> would return in each.\<close>

fun thread_steps ::
  "('p, 'f) protobuf_lib \<Rightarrow> nat list \<Rightarrow> thread_pc \<times> ('p, 'f) greeter_server \<Rightarrow> thread_pc \<times> ('p, 'f) greeter_server" where
  "thread_steps L [] ps = ps"
| "thread_steps L (a # as) (pc, s) = thread_steps L as (thread_step L a pc s)"

section \<open>The threads together\<close>

record ('p, 'f) threads_sys =
  mt_server :: "('p, 'f) greeter_server"
  mt_pcs :: "thread_pc list"

definition empty_server :: "('p, 'f) greeter_server" where
  "empty_server = \<lparr>heap = Map.empty, requested = [], finishing = [], events = [], answered = []\<rparr>"

definition aborted :: "thread_pc list \<Rightarrow> bool" where
  "aborted pcs \<longleftrightarrow> list_ex (\<lambda>pc. case pc of Th_abort t \<Rightarrow> True | _ \<Rightarrow> False) pcs"

text \<open>\<open>n\<close> threads call \<open>HandleRpcs\<close>.\<close>

definition threads_begin :: "nat \<Rightarrow> ('p, 'f) threads_sys" where
  "threads_begin n = \<lparr>mt_server = empty_server, mt_pcs = replicate n Th_begin\<rparr>"

text \<open>A thread takes an event or runs. A failed assertion aborts the process, and with it all threads.\<close>

inductive threads_move ::
  "('p, 'f) protobuf_lib \<Rightarrow> ('p, 'f) threads_sys \<Rightarrow> ('p, 'f) threads_sys \<Rightarrow> bool" for L where
  take_event: "i < length (mt_pcs s) \<Longrightarrow> mt_pcs s ! i = Th_next \<Longrightarrow> (t, ok) \<in> set (events (mt_server s)) \<Longrightarrow>
    \<not> aborted (mt_pcs s) \<Longrightarrow>
    threads_move L s (s\<lparr>mt_server := taken (mt_server s) t ok, mt_pcs := (mt_pcs s)[i := Th_got t ok]\<rparr>)"
| run: "i < length (mt_pcs s) \<Longrightarrow> heap (mt_server s) a = None \<Longrightarrow> \<not> aborted (mt_pcs s) \<Longrightarrow>
    thread_step L a (mt_pcs s ! i) (mt_server s) = (pc, srv) \<Longrightarrow>
    threads_move L s (s\<lparr>mt_server := srv, mt_pcs := (mt_pcs s)[i := pc]\<rparr>)"

text \<open>The runtime lets calls arrive and operations end as in \<open>server_step\<close>.\<close>

definition call_arrives ::
  "nat \<Rightarrow> ('p, 'f) hello_request \<Rightarrow> ('p, 'f) call_data \<Rightarrow> ('p, 'f) threads_sys \<Rightarrow> ('p, 'f) threads_sys" where
  "call_arrives t req cd s = s\<lparr>mt_server := (mt_server s)\<lparr>requested := remove1 t (requested (mt_server s)),
      heap := (heap (mt_server s))(t \<mapsto> cd\<lparr>cd_request := req\<rparr>), events := events (mt_server s) @ [(t, True)]\<rparr>\<rparr>"

definition reply_done ::
  "nat \<Rightarrow> ('p, 'f) hello_reply \<Rightarrow> bool \<Rightarrow> (bytes \<times> bytes) list \<Rightarrow> ('p, 'f) threads_sys \<Rightarrow> ('p, 'f) threads_sys" where
  "reply_done t r ok ans s = s\<lparr>mt_server := (mt_server s)\<lparr>finishing := remove1 (t, r) (finishing (mt_server s)),
      events := events (mt_server s) @ [(t, ok)], answered := answered (mt_server s) @ ans\<rparr>\<rparr>"

inductive threads_step ::
  "('p, 'f) protobuf_lib \<Rightarrow> ('p, 'f) threads_sys \<Rightarrow> ('p, 'f) threads_sys \<Rightarrow> bool" for L where
  arrive: "t \<in> set (requested (mt_server s)) \<Longrightarrow> heap (mt_server s) t = Some cd \<Longrightarrow>
    threads_step L s (call_arrives t req cd s)"
| sent: "(t, r) \<in> set (finishing (mt_server s)) \<Longrightarrow> heap (mt_server s) t = Some cd \<Longrightarrow>
    threads_step L s (reply_done t r True [(HelloRequest_name L (cd_request cd), HelloReply_message L r)] s)"
| call_dead: "(t, r) \<in> set (finishing (mt_server s)) \<Longrightarrow> threads_step L s (reply_done t r False [] s)"
| move: "threads_move L s s' \<Longrightarrow> threads_step L s s'"

section \<open>One thread alone\<close>

text \<open>
  With nobody in between, the steps of a thread from an event to the next \<open>Next\<close> are a round of
  \<open>HandleRpcs_round\<close>, the coarser model of the same code.
\<close>

lemma round_steps:
  assumes "heap s t = Some cd" and "heap s a = None" and "cd_status cd \<noteq> CREATE"
  shows "thread_steps L (replicate 8 a) (Th_got t ok, s) =
    (case HandleRpcs_round L a (Some (t, ok)) s of Inl e \<Rightarrow> (Th_abort t, s) | Inr s' \<Rightarrow> (Th_next, s'))"
proof -
  have at: "a \<noteq> t" using assms by auto
  consider "\<not> ok" | "ok" "cd_status cd = PROCESS" | "ok" "cd_status cd = FINISH"
    using assms(3) by (cases "cd_status cd") auto
  then show ?thesis
  proof cases
    case 1
    then show ?thesis by (simp add: numeral_eq_Suc HandleRpcs_round_def)
  next
    case 2
    then show ?thesis
      using assms at by (cases s; cases cd)
        (simp add: numeral_eq_Suc HandleRpcs_round_def Proceed_process at_object_def put_def new_object_def Let_def fun_upd_twist)
  next
    case 3
    then show ?thesis
      using assms by (simp add: numeral_eq_Suc HandleRpcs_round_def Proceed_finish at_object_def)
  qed
qed

lemma begin_steps: "thread_steps L (replicate 3 a) (Th_begin, empty_server) = (Th_next, HandleRpcs_begin L a)"
  by (simp add: numeral_eq_Suc at_object_def put_def new_object_def HandleRpcs_begin_def CallData_eq empty_server_def)

text \<open>A thread that is the only one can take its steps in the system.\<close>

fun steps_allowed :: "('p, 'f) protobuf_lib \<Rightarrow> nat list \<Rightarrow> thread_pc \<times> ('p, 'f) greeter_server \<Rightarrow> bool" where
  "steps_allowed L [] ps \<longleftrightarrow> True"
| "steps_allowed L (a # as) (pc, s) \<longleftrightarrow> heap s a = None \<and> \<not> aborted [pc] \<and> steps_allowed L as (thread_step L a pc s)"

lemma alone_moves:
  assumes "steps_allowed L as (pc, srv)" and "thread_steps L as (pc, srv) = (pc', srv')"
  shows "(threads_move L)\<^sup>*\<^sup>* \<lparr>mt_server = srv, mt_pcs = [pc]\<rparr> \<lparr>mt_server = srv', mt_pcs = [pc']\<rparr>"
  using assms
proof (induction as arbitrary: pc srv)
  case (Cons a as)
  obtain pc1 srv1 where step: "thread_step L a pc srv = (pc1, srv1)" by fastforce
  have "threads_move L \<lparr>mt_server = srv, mt_pcs = [pc]\<rparr> \<lparr>mt_server = srv1, mt_pcs = [pc1]\<rparr>"
    using threads_move.run [of 0 "\<lparr>mt_server = srv, mt_pcs = [pc]\<rparr>" a L pc1 srv1] Cons.prems(1) step by simp
  moreover have "(threads_move L)\<^sup>*\<^sup>* \<lparr>mt_server = srv1, mt_pcs = [pc1]\<rparr> \<lparr>mt_server = srv', mt_pcs = [pc']\<rparr>"
    using Cons step by simp
  ultimately show ?case by (rule converse_rtranclp_into_rtranclp)
qed simp

section \<open>Ownership\<close>

text \<open>
  The objects a thread may access. A live object is either owned by one thread or out with the
  runtime, as the tag of one operation or event; nobody owns a deleted one.
\<close>

fun owned :: "thread_pc \<Rightarrow> nat multiset" where
  "owned (Th_create t k) = add_mset t (case k of None \<Rightarrow> {#} | Some u \<Rightarrow> {#u#})"
| "owned (Th_request t k) = add_mset t (case k of None \<Rightarrow> {#} | Some u \<Rightarrow> {#u#})"
| "owned (Th_got t ok) = {#t#}"
| "owned (Th_process t) = {#t#}"
| "owned (Th_reply t) = {#t#}"
| "owned (Th_status t) = {#t#}"
| "owned (Th_finish t) = {#t#}"
| "owned (Th_delete t) = {#t#}"
| "owned (Th_abort t) = {#t#}"
| "owned pc = {#}"

definition owners :: "thread_pc list \<Rightarrow> nat multiset" where
  "owners pcs = (\<Sum>pc\<leftarrow>pcs. owned pc)"

text \<open>The others, when thread \<open>i\<close> moves.\<close>

definition others :: "nat \<Rightarrow> thread_pc list \<Rightarrow> nat multiset" where
  "others i pcs = owners (take i pcs) + owners (drop (Suc i) pcs)"

lemma owners_split: "i < length pcs \<Longrightarrow> owners pcs = owned (pcs ! i) + others i pcs"
  by (subst id_take_nth_drop [of i pcs]) (simp_all add: owners_def others_def del: append_take_drop_id)

lemma owners_update: "i < length pcs \<Longrightarrow> owners (pcs[i := pc]) = owned pc + others i pcs"
  by (simp add: upd_conv_take_nth_drop owners_def others_def)

lemma owned_owners: "pc \<in> set pcs \<Longrightarrow> t \<in># owned pc \<Longrightarrow> t \<in># owners pcs"
  by (induction pcs) (auto simp: owners_def)

lemma owned_others: "j < length pcs \<Longrightarrow> j \<noteq> i \<Longrightarrow> t \<in># owned (pcs ! j) \<Longrightarrow> t \<in># others i pcs"
proof -
  assume j: "j < length pcs" "j \<noteq> i" "t \<in># owned (pcs ! j)"
  have "pcs ! j \<in> set (take i pcs) \<or> pcs ! j \<in> set (drop (Suc i) pcs)"
  proof (cases "j < i")
    case True
    then show ?thesis using j by (metis in_set_conv_nth length_take min_less_iff_conj nth_take)
  next
    case False
    then have "drop (Suc i) pcs ! (j - Suc i) = pcs ! j" "j - Suc i < length (drop (Suc i) pcs)" using j by auto
    then show ?thesis by (metis nth_mem)
  qed
  then show ?thesis using owned_owners j(3) by (auto simp: others_def)
qed

definition held_once :: "('p, 'f) greeter_server \<Rightarrow> nat multiset \<Rightarrow> bool" where
  "held_once s M \<longleftrightarrow> (\<forall>t. count M t = (if heap s t = None then 0 else 1))"

text \<open>What a thread knows of the objects it owns, and what is true of those out with the runtime.\<close>

definition greets :: "('p, 'f) protobuf_lib \<Rightarrow> ('p, 'f) greeter_server \<Rightarrow> nat \<Rightarrow> bool" where
  "greets L s t \<longleftrightarrow> (case heap s t of None \<Rightarrow> False | Some cd \<Rightarrow> answers L cd)"

definition event_status_ok :: "('p, 'f) greeter_server \<Rightarrow> nat \<Rightarrow> bool" where
  "event_status_ok s t \<longleftrightarrow> in_status s PROCESS t \<or> in_status s FINISH t"

fun pc_ok :: "('p, 'f) protobuf_lib \<Rightarrow> ('p, 'f) greeter_server \<Rightarrow> thread_pc \<Rightarrow> bool" where
  "pc_ok L s (Th_create t k) \<longleftrightarrow> in_status s CREATE t \<and> (case k of None \<Rightarrow> True | Some u \<Rightarrow> in_status s PROCESS u)"
| "pc_ok L s (Th_request t k) \<longleftrightarrow> in_status s PROCESS t \<and> (case k of None \<Rightarrow> True | Some u \<Rightarrow> in_status s PROCESS u)"
| "pc_ok L s (Th_got t ok) \<longleftrightarrow> event_status_ok s t"
| "pc_ok L s (Th_process t) \<longleftrightarrow> in_status s PROCESS t"
| "pc_ok L s (Th_reply t) \<longleftrightarrow> in_status s PROCESS t"
| "pc_ok L s (Th_status t) \<longleftrightarrow> in_status s PROCESS t \<and> greets L s t"
| "pc_ok L s (Th_finish t) \<longleftrightarrow> in_status s FINISH t \<and> greets L s t"
| "pc_ok L s (Th_delete t) \<longleftrightarrow> in_status s FINISH t"
| "pc_ok L s (Th_abort t) \<longleftrightarrow> event_status_ok s t"
| "pc_ok L s Th_fault \<longleftrightarrow> False"
| "pc_ok L s pc \<longleftrightarrow> True"

definition reply_out :: "('p, 'f) protobuf_lib \<Rightarrow> ('p, 'f) greeter_server \<Rightarrow> nat \<times> ('p, 'f) hello_reply \<Rightarrow> bool" where
  "reply_out L s tr \<longleftrightarrow>
     (case heap s (fst tr) of None \<Rightarrow> False | Some cd \<Rightarrow> cd_status cd = FINISH \<and> answers L cd \<and> snd tr = cd_reply cd)"

definition runtime_ok :: "('p, 'f) protobuf_lib \<Rightarrow> ('p, 'f) greeter_server \<Rightarrow> bool" where
  "runtime_ok L s \<longleftrightarrow> (\<forall>t\<in>set (requested s). in_status s PROCESS t) \<and> (\<forall>tr\<in>set (finishing s). reply_out L s tr)
     \<and> (\<forall>e\<in>set (events s). event_status_ok s (fst e)) \<and> (\<forall>(n, m)\<in>set (answered s). m = ''Hello '' @ n)"

definition threads_inv :: "('p, 'f) protobuf_lib \<Rightarrow> ('p, 'f) threads_sys \<Rightarrow> bool" where
  "threads_inv L s \<longleftrightarrow> held_once (mt_server s) (tags (mt_server s) + owners (mt_pcs s))
     \<and> runtime_ok L (mt_server s) \<and> (\<forall>pc\<in>set (mt_pcs s). pc_ok L (mt_server s) pc)"

text \<open>Both depend on the objects concerned only.\<close>

lemma pc_ok_cong: "(\<And>t. t \<in># owned pc \<Longrightarrow> heap s' t = heap s t) \<Longrightarrow> pc_ok L s' pc = pc_ok L s pc"
  by (cases pc) (auto simp: in_status_def greets_def event_status_ok_def split: option.splits)

lemma runtime_ok_cong:
  assumes "\<And>t. t \<in># tags s \<Longrightarrow> heap s' t = heap s t"
    and "requested s' = requested s" "finishing s' = finishing s" "events s' = events s" "answered s' = answered s"
  shows "runtime_ok L s' = runtime_ok L s"
proof -
  have same: "t \<in> set (requested s) \<Longrightarrow> heap s' t = heap s t" "tr \<in> set (finishing s) \<Longrightarrow> heap s' (fst tr) = heap s (fst tr)"
    "e \<in> set (events s) \<Longrightarrow> heap s' (fst e) = heap s (fst e)" for t tr e
    by (auto intro!: assms(1) simp: tags_def)
  have "(\<forall>t\<in>set (requested s). in_status s' PROCESS t) = (\<forall>t\<in>set (requested s). in_status s PROCESS t)"
    by (intro ball_cong) (simp_all add: in_status_def same)
  moreover have "(\<forall>tr\<in>set (finishing s). reply_out L s' tr) = (\<forall>tr\<in>set (finishing s). reply_out L s tr)"
    by (intro ball_cong) (simp_all add: reply_out_def same)
  moreover have "(\<forall>e\<in>set (events s). event_status_ok s' (fst e)) = (\<forall>e\<in>set (events s). event_status_ok s (fst e))"
    by (intro ball_cong) (simp_all add: event_status_ok_def in_status_def same)
  ultimately show ?thesis using assms(2-) by (simp add: runtime_ok_def case_prod_unfold)
qed

section \<open>A step keeps it\<close>

lemma put_simps [simp]:
  "heap (put t cd s) = (heap s)(t \<mapsto> cd)" "tags (put t cd s) = tags s"
  by (simp_all add: put_def tags_def)

lemma held_live: "held_once s M \<Longrightarrow> t \<in># M \<Longrightarrow> heap s t \<noteq> None"
  by (metis count_eq_zero_iff held_once_def)

lemma held_alone: "held_once s (add_mset t M) \<Longrightarrow> t \<notin># M"
  unfolding held_once_def by (metis count_add_mset count_eq_zero_iff nat.inject One_nat_def zero_neq_one add_0 old.nat.distinct(1))

lemma held_apart: "held_once s (A + B + C) \<Longrightarrow> t \<in># B \<Longrightarrow> t \<notin># A \<and> t \<notin># C"
proof -
  assume "held_once s (A + B + C)" "t \<in># B"
  then have "count A t + count B t + count C t \<le> 1" "0 < count B t" by (auto simp: held_once_def)
  then have "count A t = 0 \<and> count C t = 0" by linarith
  then show ?thesis by (simp add: not_in_iff)
qed

lemma held_put: "held_once s M \<Longrightarrow> heap s t \<noteq> None \<Longrightarrow> held_once (put t cd s) M"
  by (auto simp: held_once_def)

lemma held_new: "held_once s M \<Longrightarrow> heap s a = None \<Longrightarrow> held_once (put a cd s) (add_mset a M)"
  by (auto simp: held_once_def)

lemma held_delete: "held_once s (add_mset t M) \<Longrightarrow> held_once (s\<lparr>heap := (heap s)(t := None)\<rparr>) M"
  using held_alone [of s t M] by (auto simp: held_once_def not_in_iff split: if_splits)

lemma held_cong: "heap s' = heap s \<Longrightarrow> held_once s' M = held_once s M"
  by (simp add: held_once_def)

lemma runtime_put: "t \<notin># tags s \<Longrightarrow> runtime_ok L (put t cd s) = runtime_ok L s"
  by (intro runtime_ok_cong) (auto simp: put_def)

lemma thread_step_frame:
  "thread_step L a pc s = (pc', s') \<Longrightarrow> t \<noteq> a \<Longrightarrow> t \<notin># owned pc \<Longrightarrow> heap s' t = heap s t"
  by (cases pc) (auto simp: at_object_def split: option.splits if_splits)

lemma pc_ok_live: "pc_ok L s pc \<Longrightarrow> t \<in># owned pc \<Longrightarrow> \<exists>cd. heap s t = Some cd"
  by (cases pc) (auto simp: in_status_def event_status_ok_def split: option.splits)

lemma thread_step_held:
  assumes "thread_step L a pc s = (pc', s')" and "pc_ok L s pc" and "heap s a = None"
    and "held_once s (tags s + owned pc + R)"
  shows "held_once s' (tags s' + owned pc' + R)"
proof (cases pc)
  case Th_begin
  then show ?thesis using assms held_new [of s "tags s + R" a] by (auto simp: ac_simps)
next
  case (Th_create t k)
  then show ?thesis using assms by (auto simp: at_object_def in_status_def intro!: held_put split: option.splits)
next
  case (Th_request t k)
  then have "s' = s\<lparr>requested := requested s @ [t]\<rparr>" "tags s' + owned pc' = tags s + owned pc"
    using assms(1) by (auto simp: tags_def split: option.splits)
  then show ?thesis using assms(4) by (simp add: held_once_def)
next
  case (Th_got t ok)
  then show ?thesis using assms by (auto simp: at_object_def event_status_ok_def in_status_def split: option.splits if_splits)
next
  case (Th_process t)
  then show ?thesis using assms held_new [of s "tags s + {#t#} + R" a] by (auto simp: ac_simps)
next
  case (Th_reply t)
  then show ?thesis using assms by (auto simp: at_object_def in_status_def intro!: held_put split: option.splits)
next
  case (Th_status t)
  then show ?thesis using assms by (auto simp: at_object_def in_status_def intro!: held_put split: option.splits)
next
  case (Th_finish t)
  then have "heap s' = heap s" "tags s' + owned pc' = tags s + owned pc"
    using assms(1,2) by (auto simp: at_object_def in_status_def tags_def split: option.splits)
  then show ?thesis using assms(4) by (simp add: held_once_def)
next
  case (Th_delete t)
  then show ?thesis using assms held_delete [of s t "tags s + R"]
    by (auto simp: at_object_def in_status_def tags_def ac_simps split: option.splits)
qed (use assms in auto)

lemma thread_step_pc:
  assumes "thread_step L a pc s = (pc', s')" and "pc_ok L s pc" and "heap s a = None" and "cell_ok L"
    and "held_once s (tags s + owned pc + R)"
  shows "pc_ok L s' pc'"
proof (cases pc)
  case (Th_reply t)
  then show ?thesis using assms(1,2,4)
    by (auto simp: at_object_def in_status_def greets_def answers_def HelloReply_message_def HelloReply_set_message_def
        cell_ok_def split: option.splits)
next
  case (Th_create t k)
  have "k \<noteq> Some t"
    using assms(5) held_alone [of s t "tags s + (case k of None \<Rightarrow> {#} | Some u \<Rightarrow> {#u#}) + R"] Th_create by (auto simp: ac_simps)
  then show ?thesis using assms(1,2) Th_create by (auto simp: at_object_def in_status_def split: option.splits)
next
  case (Th_process t)
  then show ?thesis using assms(1-3) by (auto simp: in_status_def new_object_def split: option.splits)
qed (use assms(1-3) in \<open>auto simp: at_object_def in_status_def event_status_ok_def greets_def answers_def new_object_def
  split: option.splits if_splits\<close>)

lemma thread_step_put:
  assumes "thread_step L a pc s = (pc', s')"
  obtains "s' = s" | t cd where "t = a \<or> t \<in># owned pc" "s' = put t cd s"
    | t k where "pc = Th_request t k" | t where "pc = Th_finish t" | t where "pc = Th_delete t"
  using assms by (cases pc) (auto simp: at_object_def split: option.splits if_splits)

lemma thread_step_runtime:
  assumes "thread_step L a pc s = (pc', s')" and "pc_ok L s pc" and "heap s a = None" and "runtime_ok L s"
    and "held_once s (tags s + owned pc + R)"
  shows "runtime_ok L s'"
proof -
  have own: "t \<notin># tags s" if "t \<in># owned pc" for t using held_apart [OF assms(5) that] by blast
  have new: "a \<notin># tags s" using assms(3,5) held_live by fastforce
  from assms(1) show ?thesis
  proof (rule thread_step_put)
    fix t k
    assume "pc = Th_request t k"
    then have "s' = s\<lparr>requested := requested s @ [t]\<rparr>" "in_status s PROCESS t" using assms(1,2) by auto
    then show ?thesis using assms(4) by (simp add: runtime_ok_def in_status_def event_status_ok_def reply_out_def)
  next
    fix t
    assume pc: "pc = Th_finish t"
    then obtain cd where cd: "heap s t = Some cd" "cd_status cd = FINISH" "answers L cd"
      using assms(2) by (auto simp: in_status_def greets_def split: option.splits)
    then have "s' = s\<lparr>finishing := finishing s @ [(t, cd_reply cd)]\<rparr>" using assms(1) pc by (simp add: at_object_def)
    then show ?thesis using assms(4) cd by (simp add: runtime_ok_def in_status_def event_status_ok_def reply_out_def)
  next
    fix t
    assume pc: "pc = Th_delete t"
    then have "runtime_ok L (s\<lparr>heap := (heap s)(t := None)\<rparr>) = runtime_ok L s"
      using own by (intro runtime_ok_cong) auto
    then show ?thesis using assms pc by (auto simp: at_object_def in_status_def split: option.splits)
  qed (use assms(4) own new in \<open>auto simp: runtime_put\<close>)
qed

lemma run_frame:
  assumes "threads_inv L s" and "i < length (mt_pcs s)" and "heap (mt_server s) a = None"
    and "thread_step L a (mt_pcs s ! i) (mt_server s) = (pc, srv)"
  shows "t \<in># tags (mt_server s) \<Longrightarrow> heap srv t = heap (mt_server s) t"
    and "j < length (mt_pcs s) \<Longrightarrow> j \<noteq> i \<Longrightarrow> t \<in># owned (mt_pcs s ! j) \<Longrightarrow> heap srv t = heap (mt_server s) t"
proof -
  let ?R = "others i (mt_pcs s)"
  have held: "held_once (mt_server s) (tags (mt_server s) + owned (mt_pcs s ! i) + ?R)"
    using assms(1) owners_split [OF assms(2)] by (simp add: threads_inv_def ac_simps)
  have same: "heap srv t = heap (mt_server s) t" if "t \<in># tags (mt_server s) \<or> t \<in># ?R"
  proof (rule thread_step_frame [OF assms(4)])
    show "t \<notin># owned (mt_pcs s ! i)" using held_apart [OF held] that by blast
    have "heap (mt_server s) t \<noteq> None" using held_live [OF held] that by auto
    then show "t \<noteq> a" using assms(3) by auto
  qed
  then show "t \<in># tags (mt_server s) \<Longrightarrow> heap srv t = heap (mt_server s) t" by blast
  show "j < length (mt_pcs s) \<Longrightarrow> j \<noteq> i \<Longrightarrow> t \<in># owned (mt_pcs s ! j) \<Longrightarrow> heap srv t = heap (mt_server s) t"
    using same owned_others by blast
qed

lemma run_inv:
  assumes "threads_inv L s" and "cell_ok L" and "i < length (mt_pcs s)" and "heap (mt_server s) a = None"
    and "thread_step L a (mt_pcs s ! i) (mt_server s) = (pc, srv)"
  shows "threads_inv L (s\<lparr>mt_server := srv, mt_pcs := (mt_pcs s)[i := pc]\<rparr>)"
proof -
  let ?R = "others i (mt_pcs s)"
  have held: "held_once (mt_server s) (tags (mt_server s) + owned (mt_pcs s ! i) + ?R)"
    using assms(1) owners_split [OF assms(3)] by (simp add: threads_inv_def ac_simps)
  have ok: "pc_ok L (mt_server s) p" if "p \<in> set (mt_pcs s)" for p using assms(1) that by (simp add: threads_inv_def)
  note pc_i = ok [OF nth_mem [OF assms(3)]]
  have "pc_ok L srv ((mt_pcs s)[i := pc] ! j)" if j: "j < length (mt_pcs s)" for j
  proof (cases "j = i")
    case True
    then show ?thesis using thread_step_pc [OF assms(5) pc_i assms(4,2) held] j by simp
  next
    case False
    have "pc_ok L srv (mt_pcs s ! j) = pc_ok L (mt_server s) (mt_pcs s ! j)"
      by (rule pc_ok_cong) (rule run_frame(2) [OF assms(1,3,4,5) j False])
    then show ?thesis using ok [OF nth_mem [OF j]] False by simp
  qed
  then have "\<forall>p\<in>set ((mt_pcs s)[i := pc]). pc_ok L srv p" by (auto simp: set_conv_nth)
  moreover have "held_once srv (tags srv + owners ((mt_pcs s)[i := pc]))"
    using thread_step_held [OF assms(5) pc_i assms(4) held] owners_update [OF assms(3)] by (simp add: ac_simps)
  moreover have "runtime_ok L srv"
    using thread_step_runtime [OF assms(5) pc_i assms(4) _ held] assms(1) by (simp add: threads_inv_def)
  ultimately show ?thesis by (simp add: threads_inv_def)
qed

text \<open>The runtime only writes to objects that are out with it.\<close>

lemma outside_pcs:
  assumes "threads_inv L s" and "t \<in># tags (mt_server s)" and "pc \<in> set (mt_pcs s)"
  shows "t \<notin># owned pc"
proof
  assume "t \<in># owned pc"
  then have "t \<in># owners (mt_pcs s)" using owned_owners assms(3) by blast
  with held_apart [of "mt_server s" "tags (mt_server s)" "owners (mt_pcs s)" "{#}" t] assms(1,2) show False
    by (simp add: threads_inv_def)
qed

lemma runtime_inv:
  assumes "threads_inv L s" and "tags srv = tags (mt_server s)" and "dom (heap srv) = dom (heap (mt_server s))"
    and "\<And>u. u \<notin># tags (mt_server s) \<Longrightarrow> heap srv u = heap (mt_server s) u" and "runtime_ok L srv"
  shows "threads_inv L (s\<lparr>mt_server := srv\<rparr>)"
proof -
  have "heap srv u = None \<longleftrightarrow> heap (mt_server s) u = None" for u using assms(3) by (metis domIff)
  then have "held_once srv (tags srv + owners (mt_pcs s))" using assms(1,2) by (simp add: threads_inv_def held_once_def)
  moreover have "pc_ok L srv pc" if "pc \<in> set (mt_pcs s)" for pc
    using that assms(1) pc_ok_cong [of pc srv "mt_server s" L] assms(4) outside_pcs [OF assms(1) _ that]
    by (metis threads_inv_def)
  ultimately show ?thesis using assms(5) by (simp add: threads_inv_def)
qed

lemma arrive_keeps:
  assumes "threads_inv L s" and "t \<in> set (requested (mt_server s))" and "heap (mt_server s) t = Some cd"
  shows "threads_inv L (call_arrives t req cd s)"
  unfolding call_arrives_def
proof (rule runtime_inv [OF assms(1)])
  let ?s = "mt_server s"
  let ?srv = "?s\<lparr>requested := remove1 t (requested ?s), heap := (heap ?s)(t \<mapsto> cd\<lparr>cd_request := req\<rparr>),
    events := events ?s @ [(t, True)]\<rparr>"
  have rt: "runtime_ok L ?s" using assms(1) by (simp add: threads_inv_def)
  have "mset (requested ?s) = add_mset t (mset (remove1 t (requested ?s)))" using assms(2) by simp
  then show "tags ?srv = tags ?s" by (simp add: tags_def)
  show "dom (heap ?srv) = dom (heap ?s)" using assms(3) by auto
  show "heap ?srv u = heap ?s u" if "u \<notin># tags ?s" for u using that assms(2) by (auto simp: tags_def)
  have pr: "cd_status cd = PROCESS" using rt assms(2,3) by (fastforce simp: runtime_ok_def in_status_def)
  have st: "in_status ?srv = in_status ?s" using assms(3) by (simp add: in_status_def fun_eq_iff)
  have "reply_out L ?srv tr" if "reply_out L ?s tr" for tr
    using that assms(3) pr by (auto simp: reply_out_def)
  then show "runtime_ok L ?srv"
    using rt assms(3) pr unfolding runtime_ok_def event_status_ok_def st
    by (auto simp: in_status_def dest: set_remove1_mem)
qed

lemma finished_keeps:
  assumes "threads_inv L s" and "(t, r) \<in> set (finishing (mt_server s))" and "\<forall>(n, m)\<in>set ans. m = ''Hello '' @ n"
  shows "threads_inv L (reply_done t r ok ans s)"
  unfolding reply_done_def
proof (rule runtime_inv [OF assms(1)])
  let ?s = "mt_server s"
  let ?srv = "?s\<lparr>finishing := remove1 (t, r) (finishing ?s), events := events ?s @ [(t, ok)], answered := answered ?s @ ans\<rparr>"
  have rt: "runtime_ok L ?s" using assms(1) by (simp add: threads_inv_def)
  show "tags ?srv = tags ?s" using mset_fst_remove1 [OF assms(2)] by (simp add: tags_def)
  have st: "in_status ?srv = in_status ?s" "reply_out L ?srv = reply_out L ?s"
    by (simp_all add: in_status_def reply_out_def fun_eq_iff)
  have "in_status ?s FINISH t" using rt assms(2) by (fastforce simp: runtime_ok_def reply_out_def in_status_def split: option.splits)
  then show "runtime_ok L ?srv"
    using rt assms(3) unfolding runtime_ok_def event_status_ok_def st by (auto dest: set_remove1_mem)
qed simp_all

lemma take_event_keeps:
  assumes "threads_inv L s" and "i < length (mt_pcs s)" and "mt_pcs s ! i = Th_next" and "(t, ok) \<in> set (events (mt_server s))"
  shows "threads_inv L (s\<lparr>mt_server := taken (mt_server s) t ok, mt_pcs := (mt_pcs s)[i := Th_got t ok]\<rparr>)"
proof -
  let ?s = "mt_server s" and ?srv = "taken (mt_server s) t ok" and ?pcs = "(mt_pcs s)[i := Th_got t ok]"
  have inv: "held_once ?s (tags ?s + owners (mt_pcs s))" "runtime_ok L ?s" "\<forall>pc\<in>set (mt_pcs s). pc_ok L ?s pc"
    using assms(1) by (simp_all add: threads_inv_def)
  have "tags ?srv + owners ?pcs = tags ?s + owners (mt_pcs s)"
    using owners_split [OF assms(2)] owners_update [OF assms(2)] taken_tags [OF assms(4)] assms(3) by simp
  then have "held_once ?srv (tags ?srv + owners ?pcs)" using inv(1) by (simp add: held_once_def)
  moreover have st: "in_status ?srv = in_status ?s" "reply_out L ?srv = reply_out L ?s"
    by (simp_all add: in_status_def reply_out_def fun_eq_iff)
  have pcs: "pc_ok L ?srv pc = pc_ok L ?s pc" for pc by (rule pc_ok_cong) simp
  have "runtime_ok L ?srv"
    using inv(2) unfolding runtime_ok_def event_status_ok_def st by (auto simp: taken_def dest: set_remove1_mem)
  moreover have "event_status_ok ?s t" using inv(2) assms(4) by (auto simp: runtime_ok_def)
  then have "\<forall>pc\<in>set ?pcs. pc_ok L ?srv pc" using inv(3) set_update_subset_insert [of "mt_pcs s" i "Th_got t ok"] by (auto simp: pcs)
  ultimately show ?thesis by (simp add: threads_inv_def)
qed

lemma reply_out_message:
  assumes "threads_inv L s" and "(t, r) \<in> set (finishing (mt_server s))" and "heap (mt_server s) t = Some cd"
  shows "HelloReply_message L r = ''Hello '' @ HelloRequest_name L (cd_request cd)"
proof -
  have "reply_out L (mt_server s) (t, r)" using assms(1,2) by (auto simp: threads_inv_def runtime_ok_def)
  then show ?thesis using assms(3) by (simp add: reply_out_def answers_def)
qed

lemma threads_move_inv: "threads_move L s s' \<Longrightarrow> threads_inv L s \<Longrightarrow> cell_ok L \<Longrightarrow> threads_inv L s'"
  by (induction rule: threads_move.induct) (auto intro: take_event_keeps run_inv)

lemma threads_step_inv:
  assumes "threads_step L s s'" and "threads_inv L s" and "cell_ok L"
  shows "threads_inv L s'"
  using assms(1)
proof cases
  case (sent t r cd)
  then show ?thesis using finished_keeps [OF assms(2) sent(2)] reply_out_message [OF assms(2) sent(2,3)] by simp
qed (use assms(2,3) arrive_keeps finished_keeps [where ans = "[]"] threads_move_inv in auto)

lemma owners_begin: "owners (replicate n Th_begin) = {#}"
  by (induction n) (simp_all add: owners_def)

lemma threads_begin_inv: "threads_inv L (threads_begin n)"
  by (simp add: threads_inv_def threads_begin_def empty_server_def held_once_def tags_def owners_begin runtime_ok_def)

lemma threads_run_inv: "(threads_step L)\<^sup>*\<^sup>* (threads_begin n) s \<Longrightarrow> cell_ok L \<Longrightarrow> threads_inv L s"
  by (induction rule: rtranclp_induct) (auto intro: threads_begin_inv threads_step_inv)

section \<open>Failed operations\<close>

text \<open>The objects of operations that ended with \<open>ok = false\<close>: in the queue, taken, or at the assertion.\<close>

fun failed_pc :: "thread_pc \<Rightarrow> nat set" where
  "failed_pc (Th_got t ok) = (if ok then {} else {t})"
| "failed_pc (Th_abort t) = {t}"
| "failed_pc pc = {}"

definition failed_events :: "(nat \<times> bool) list \<Rightarrow> nat set" where
  "failed_events es = {t. (t, False) \<in> set es}"

definition failed_objects :: "('p, 'f) threads_sys \<Rightarrow> nat set" where
  "failed_objects s = failed_events (events (mt_server s)) \<union> \<Union> (failed_pc ` set (mt_pcs s))"

lemma failed_events_simps [simp]:
  "failed_events [] = {}" "failed_events (es @ es') = failed_events es \<union> failed_events es'"
  "failed_events [(t, ok)] = (if ok then {} else {t})"
  by (auto simp: failed_events_def)

lemma failed_events_take:
  assumes "(t, ok) \<in> set es"
  shows "failed_events es = failed_events (remove1 (t, ok) es) \<union> failed_pc (Th_got t ok)"
proof (rule set_eqI)
  fix u
  show "u \<in> failed_events es \<longleftrightarrow> u \<in> failed_events (remove1 (t, ok) es) \<union> failed_pc (Th_got t ok)"
    using assms in_set_remove1 [of "(u, False)" "(t, ok)" es] by (cases "(u, False) = (t, ok)") (auto simp: failed_events_def)
qed

lemma failed_pcs_update:
  "i < length pcs \<Longrightarrow> failed_pc pc = failed_pc (pcs ! i) \<union> X \<Longrightarrow>
   \<Union> (failed_pc ` set (pcs[i := pc])) = \<Union> (failed_pc ` set pcs) \<union> X"
  by (subst (2) id_take_nth_drop [of i pcs])
    (auto simp: upd_conv_take_nth_drop simp del: append_take_drop_id)

lemma thread_step_events: "thread_step L a pc s = (pc', s') \<Longrightarrow> events s' = events s \<and> answered s' = answered s"
  by (cases pc) (auto simp: at_object_def put_def split: option.splits if_splits)

lemma last_status: "cd_status cd \<noteq> CREATE \<Longrightarrow> cd_status cd \<noteq> PROCESS \<Longrightarrow> cd_status cd = FINISH"
  by (cases "cd_status cd") auto

lemma thread_step_failed: "thread_step L a pc s = (pc', s') \<Longrightarrow> failed_pc pc' = failed_pc pc"
  by (cases pc) (auto simp: at_object_def split: option.splits if_splits dest: last_status)

text \<open>A failed event stays with the threads until one of them is at the assertion; threads make no others.\<close>

lemma threads_move_failed:
  assumes "threads_move L s s'"
  shows "failed_objects s' = failed_objects s"
  using assms
proof cases
  case (take_event i t ok)
  have "\<Union> (failed_pc ` set ((mt_pcs s)[i := Th_got t ok])) = \<Union> (failed_pc ` set (mt_pcs s)) \<union> failed_pc (Th_got t ok)"
    by (rule failed_pcs_update) (use take_event in simp_all)
  then show ?thesis
    using failed_events_take [OF take_event(4)] by (auto simp: failed_objects_def take_event(1) taken_def)
next
  case (run i a pc srv)
  have "\<Union> (failed_pc ` set ((mt_pcs s)[i := pc])) = \<Union> (failed_pc ` set (mt_pcs s)) \<union> {}"
    by (rule failed_pcs_update) (use run thread_step_failed [OF run(5)] in simp_all)
  then show ?thesis using thread_step_events [OF run(5)] by (simp add: failed_objects_def run(1))
qed

text \<open>Without a shutdown only the sending of a reply can fail.\<close>

definition failed_finished :: "('p, 'f) threads_sys \<Rightarrow> bool" where
  "failed_finished s \<longleftrightarrow> (\<forall>t\<in>failed_objects s. in_status (mt_server s) FINISH t)"

lemma failed_pc_step:
  assumes "thread_step L a pc s = (pc', s')" and "t \<in> failed_pc pc"
  shows "s' = s"
  using assms by (cases pc) (auto split: if_splits)

lemma failed_pc_owned: "t \<in> failed_pc pc \<Longrightarrow> t \<in># owned pc"
  by (cases pc) (auto split: if_splits)

lemma threads_move_finished:
  assumes "threads_move L s s'" and "threads_inv L s" and "failed_finished s"
  shows "failed_finished s'"
proof -
  have "heap (mt_server s') t = heap (mt_server s) t" if t: "t \<in> failed_objects s" for t
    using assms(1)
  proof cases
    case (run i a pc srv)
    note frame = run_frame [OF assms(2) run(2,3,5)]
    consider "t \<in> failed_events (events (mt_server s))" | j where "j < length (mt_pcs s)" "t \<in> failed_pc (mt_pcs s ! j)"
      using t by (fastforce simp: failed_objects_def in_set_conv_nth)
    then show ?thesis
    proof cases
      case 1
      then show ?thesis using frame(1) [of t] by (force simp: run(1) failed_events_def tags_def)
    next
      case (2 j)
      then show ?thesis
        using frame(2) [OF 2(1) _ failed_pc_owned [OF 2(2)]] failed_pc_step [OF run(5)] by (cases "j = i") (auto simp: run(1))
    qed
  qed simp
  then show ?thesis
    using assms(3) threads_move_failed [OF assms(1)] by (simp add: failed_finished_def in_status_def)
qed

lemma threads_step_finished:
  assumes "threads_step L s s'" and "threads_inv L s" and "failed_finished s"
  shows "failed_finished s'"
  using assms(1)
proof cases
  case (arrive t cd req)
  then show ?thesis using assms(3)
    by (auto simp: failed_finished_def failed_objects_def call_arrives_def in_status_def split: option.splits)
next
  case (sent t r cd)
  then show ?thesis using assms(3)
    by (auto simp: failed_finished_def failed_objects_def reply_done_def in_status_def)
next
  case (call_dead t r)
  then have "reply_out L (mt_server s) (t, r)" using assms(2) by (auto simp: threads_inv_def runtime_ok_def)
  then show ?thesis using assms(3)
    by (auto simp: failed_finished_def failed_objects_def reply_done_def in_status_def reply_out_def call_dead(1) split: option.splits)
qed (use assms threads_move_finished in blast)

lemma threads_run_finished:
  assumes "(threads_step L)\<^sup>*\<^sup>* (threads_begin n) s" and "cell_ok L"
  shows "failed_finished s"
  using assms(1)
proof (induction rule: rtranclp_induct)
  case base
  show ?case by (auto simp: failed_finished_def failed_objects_def threads_begin_def empty_server_def)
next
  case (step s s')
  then show ?case using threads_step_finished threads_run_inv [OF _ assms(2)] by blast
qed

section \<open>What is waiting and what is served\<close>

text \<open>The objects that wait for a call: those in a thread's hands before they serve one, and those out.\<close>

fun waiting_pc :: "('p, 'f) greeter_server \<Rightarrow> thread_pc \<Rightarrow> nat multiset" where
  "waiting_pc s (Th_create t k) = {#t#}"
| "waiting_pc s (Th_request t k) = {#t#}"
| "waiting_pc s (Th_got t ok) = filter_mset (in_status s PROCESS) {#t#}"
| "waiting_pc s (Th_process t) = {#t#}"
| "waiting_pc s (Th_abort t) = filter_mset (in_status s PROCESS) {#t#}"
| "waiting_pc s pc = {#}"

text \<open>The objects whose call has come and has not been answered.\<close>

fun serving_pc :: "('p, 'f) greeter_server \<Rightarrow> thread_pc \<Rightarrow> nat multiset" where
  "serving_pc s (Th_create t k) = (case k of None \<Rightarrow> {#} | Some u \<Rightarrow> {#u#})"
| "serving_pc s (Th_request t k) = (case k of None \<Rightarrow> {#} | Some u \<Rightarrow> {#u#})"
| "serving_pc s (Th_got t ok) = filter_mset (in_status s PROCESS) {#t#}"
| "serving_pc s (Th_process t) = {#t#}"
| "serving_pc s (Th_abort t) = filter_mset (in_status s PROCESS) {#t#}"
| "serving_pc s (Th_reply t) = {#t#}"
| "serving_pc s (Th_status t) = {#t#}"
| "serving_pc s (Th_finish t) = {#t#}"
| "serving_pc s pc = {#}"

definition over_threads :: "(thread_pc \<Rightarrow> 'm :: comm_monoid_add) \<Rightarrow> thread_pc list \<Rightarrow> 'm" where
  "over_threads f pcs = (\<Sum>pc\<leftarrow>pcs. f pc)"

definition arrived :: "('p, 'f) greeter_server \<Rightarrow> nat multiset" where
  "arrived s = filter_mset (in_status s PROCESS) (mset (map fst (events s)))"

definition waiting :: "('p, 'f) threads_sys \<Rightarrow> nat multiset" where
  "waiting s = mset (requested (mt_server s)) + arrived (mt_server s) + over_threads (waiting_pc (mt_server s)) (mt_pcs s)"

definition in_hand :: "('p, 'f) threads_sys \<Rightarrow> nat multiset" where
  "in_hand s = arrived (mt_server s) + mset (map fst (finishing (mt_server s)))
     + over_threads (serving_pc (mt_server s)) (mt_pcs s)"

lemma over_threads_update:
  assumes "i < length pcs" and "\<And>j. j < length pcs \<Longrightarrow> j \<noteq> i \<Longrightarrow> g (pcs ! j) = f (pcs ! j)"
  shows "over_threads g (pcs[i := pc]) + f (pcs ! i) = over_threads f pcs + g pc"
proof -
  have "map g (pcs[i := pc]) = (map f pcs)[i := g pc]"
    using assms by (intro nth_equalityI) (auto simp: nth_list_update)
  then show ?thesis
    using sum_list_map_update [of i "map f pcs" "\<lambda>x. x" "g pc"] assms(1) by (simp add: over_threads_def)
qed

lemma pc_sets_cong:
  assumes "\<And>t. t \<in># owned pc \<Longrightarrow> heap s' t = heap s t"
  shows "waiting_pc s' pc = waiting_pc s pc" and "serving_pc s' pc = serving_pc s pc"
  using assms by (cases pc; simp add: in_status_def)+

lemma pc_sets_owned: "t \<in># waiting_pc s pc + serving_pc s pc \<Longrightarrow> t \<in># owned pc"
  by (cases pc) (auto split: option.splits if_splits)

lemma arrived_cong: "events s' = events s \<Longrightarrow> (\<And>t. t \<in># tags s \<Longrightarrow> heap s' t = heap s t) \<Longrightarrow> arrived s' = arrived s"
  unfolding arrived_def by (simp, rule filter_mset_cong) (auto simp: in_status_def tags_def)

text \<open>A step of a thread only moves objects from hand to hand.\<close>

lemma thread_step_moves:
  assumes "thread_step L a pc s = (pc', s')" and "pc_ok L s pc"
  shows "mset (map fst (finishing s')) + serving_pc s' pc' = mset (map fst (finishing s)) + serving_pc s pc"
    and "size (mset (requested s') + waiting_pc s' pc') =
      size (mset (requested s) + waiting_pc s pc) + (if pc = Th_begin then 1 else 0)"
  using assms
  by (cases pc; auto simp: at_object_def put_def in_status_def event_status_ok_def split: option.splits if_splits)+

lemma mset_exchange:
  fixes x :: "'a multiset"
  assumes "x + u = y + v" and "b + v = c + u"
  shows "b + x = c + y"
proof (rule multiset_eqI)
  fix t
  show "count (b + x) t = count (c + y) t"
    using arg_cong [OF assms(1), of "\<lambda>m. count m t"] arg_cong [OF assms(2), of "\<lambda>m. count m t"] by simp
qed

lemma run_moves:
  assumes "threads_inv L s" and "i < length (mt_pcs s)" and "heap (mt_server s) a = None"
    and "thread_step L a (mt_pcs s ! i) (mt_server s) = (pc, srv)"
  defines "s' \<equiv> s\<lparr>mt_server := srv, mt_pcs := (mt_pcs s)[i := pc]\<rparr>"
  shows "in_hand s' = in_hand s"
    and "size (waiting s') = size (waiting s) + (if mt_pcs s ! i = Th_begin then 1 else 0)"
proof -
  let ?pc = "mt_pcs s ! i" and ?s = "mt_server s"
  have pc: "pc_ok L ?s ?pc" using assms(1) nth_mem [OF assms(2)] by (simp add: threads_inv_def)
  note moves = thread_step_moves [OF assms(4) pc] and frame = run_frame [OF assms(1-4)]
  have arr: "arrived srv = arrived ?s"
    by (rule arrived_cong) (use thread_step_events [OF assms(4)] frame(1) in auto)
  have "over_threads (serving_pc srv) ((mt_pcs s)[i := pc]) + serving_pc ?s ?pc
      = over_threads (serving_pc ?s) (mt_pcs s) + serving_pc srv pc"
    by (rule over_threads_update [OF assms(2)]) (rule pc_sets_cong(2), rule frame(2))
  from mset_exchange [OF this moves(1)]
  have "mset (map fst (finishing srv)) + over_threads (serving_pc srv) ((mt_pcs s)[i := pc])
      = mset (map fst (finishing ?s)) + over_threads (serving_pc ?s) (mt_pcs s)" .
  then show "in_hand s' = in_hand s" by (simp add: in_hand_def s'_def arr ac_simps)
  have "over_threads (waiting_pc srv) ((mt_pcs s)[i := pc]) + waiting_pc ?s ?pc
      = over_threads (waiting_pc ?s) (mt_pcs s) + waiting_pc srv pc"
    by (rule over_threads_update [OF assms(2)]) (rule pc_sets_cong(1), rule frame(2))
  from arg_cong [OF this, of size] moves(2)
  show "size (waiting s') = size (waiting s) + (if ?pc = Th_begin then 1 else 0)"
    by (simp add: waiting_def s'_def arr)
qed

lemma take_event_moves:
  assumes "i < length (mt_pcs s)" and "mt_pcs s ! i = Th_next" and "(t, ok) \<in> set (events (mt_server s))"
  defines "s' \<equiv> s\<lparr>mt_server := taken (mt_server s) t ok, mt_pcs := (mt_pcs s)[i := Th_got t ok]\<rparr>"
  shows "in_hand s' = in_hand s" and "waiting s' = waiting s"
proof -
  let ?s = "mt_server s" and ?srv = "taken (mt_server s) t ok" and ?T = "filter_mset (in_status (mt_server s) PROCESS) {#t#}"
  have st: "in_status ?srv = in_status ?s" by (simp add: in_status_def fun_eq_iff)
  have "mset (map fst (events ?s)) = {#t#} + mset (map fst (events ?srv))"
    using mset_fst_remove1 [OF assms(3)] by (simp add: taken_def)
  then have arr: "arrived ?s = ?T + arrived ?srv" by (simp add: arrived_def st)
  have sets: "waiting_pc ?srv pc = waiting_pc ?s pc" "serving_pc ?srv pc = serving_pc ?s pc" for pc
    by (rule pc_sets_cong, simp)+
  have "over_threads (serving_pc ?srv) ((mt_pcs s)[i := Th_got t ok]) = over_threads (serving_pc ?s) (mt_pcs s) + ?T"
    using over_threads_update [OF assms(1), of "serving_pc ?srv" "serving_pc ?s" "Th_got t ok"] sets assms(2)
    by (simp add: st del: filter_mset_add_mset)
  then show "in_hand s' = in_hand s" by (simp add: in_hand_def s'_def arr)
  have "over_threads (waiting_pc ?srv) ((mt_pcs s)[i := Th_got t ok]) = over_threads (waiting_pc ?s) (mt_pcs s) + ?T"
    using over_threads_update [OF assms(1), of "waiting_pc ?srv" "waiting_pc ?s" "Th_got t ok"] sets assms(2)
    by (simp add: st del: filter_mset_add_mset)
  then show "waiting s' = waiting s" by (simp add: waiting_def s'_def arr)
qed

text \<open>Threads that have begun: each has created an object, and keeps one waiting.\<close>

definition begun :: "thread_pc list \<Rightarrow> nat" where
  "begun pcs = length (filter (\<lambda>pc. pc \<noteq> Th_begin) pcs)"

lemma begun_update:
  assumes "i < length pcs" and "pc \<noteq> Th_begin"
  shows "begun (pcs[i := pc]) = begun pcs + (if pcs ! i = Th_begin then 1 else 0)"
proof -
  have "begun pcs = begun (take i pcs) + (if pcs ! i = Th_begin then 0 else 1) + begun (drop (Suc i) pcs)"
    by (subst id_take_nth_drop [OF assms(1)]) (simp add: begun_def del: append_take_drop_id)
  then show ?thesis using assms by (simp add: upd_conv_take_nth_drop begun_def)
qed

lemma thread_step_begun: "thread_step L a pc s = (pc', s') \<Longrightarrow> pc' \<noteq> Th_begin"
  by (cases pc) (auto simp: at_object_def split: option.splits if_splits)

lemma over_threads_cong: "(\<And>pc. pc \<in> set pcs \<Longrightarrow> g pc = f pc) \<Longrightarrow> over_threads g pcs = over_threads f pcs"
  unfolding over_threads_def by (rule arg_cong [where f = sum_list]) simp

lemma pc_sets_status:
  assumes "in_status s' = in_status s"
  shows "waiting_pc s' pc = waiting_pc s pc" and "serving_pc s' pc = serving_pc s pc"
  by (cases pc; simp add: assms)+

lemma over_threads_status:
  assumes "in_status s' = in_status s"
  shows "over_threads (waiting_pc s') pcs = over_threads (waiting_pc s) pcs"
    and "over_threads (serving_pc s') pcs = over_threads (serving_pc s) pcs"
  by (rule over_threads_cong, rule pc_sets_status [OF assms])+

text \<open>The runtime takes an object from those requested, and gives back those whose reply is out.\<close>

lemma arrive_moves:
  fixes req :: "('p, 'f) hello_request"
  assumes "threads_inv L s" and "t \<in> set (requested (mt_server s))" and "heap (mt_server s) t = Some cd"
  defines "s' \<equiv> call_arrives t req cd s"
  shows "in_hand s' = add_mset t (in_hand s)" and "waiting s' = waiting s"
proof -
  let ?s = "mt_server s" and ?srv = "mt_server s'"
  have st: "in_status ?srv = in_status ?s" using assms(3) by (simp add: s'_def call_arrives_def in_status_def fun_eq_iff)
  have "in_status ?s PROCESS t" using assms(1,2) by (simp add: threads_inv_def runtime_ok_def)
  then have arr: "arrived ?srv = add_mset t (arrived ?s)" by (simp add: arrived_def st) (simp add: s'_def call_arrives_def)
  have "over_threads (serving_pc ?srv) (mt_pcs s') = over_threads (serving_pc ?s) (mt_pcs s)"
    "over_threads (waiting_pc ?srv) (mt_pcs s') = over_threads (waiting_pc ?s) (mt_pcs s)"
    using over_threads_status [OF st] by (simp_all add: s'_def call_arrives_def)
  moreover have "mset (requested ?s) = add_mset t (mset (requested ?srv))" using assms(2) by (simp add: s'_def call_arrives_def)
  moreover have "finishing ?srv = finishing ?s" by (simp add: s'_def call_arrives_def)
  ultimately show "in_hand s' = add_mset t (in_hand s)" "waiting s' = waiting s"
    by (simp_all add: in_hand_def waiting_def arr)
qed

lemma finished_moves:
  fixes ok :: bool and ans :: "(bytes \<times> bytes) list"
  assumes "threads_inv L s" and "(t, r) \<in> set (finishing (mt_server s))"
  defines "s' \<equiv> reply_done t r ok ans s"
  shows "in_hand s = add_mset t (in_hand s')" and "waiting s' = waiting s" and "heap (mt_server s') = heap (mt_server s)"
proof -
  let ?s = "mt_server s" and ?srv = "mt_server s'"
  have st: "in_status ?srv = in_status ?s" by (simp add: s'_def reply_done_def in_status_def fun_eq_iff)
  have "reply_out L ?s (t, r)" using assms(1,2) by (auto simp: threads_inv_def runtime_ok_def)
  then have "\<not> in_status ?s PROCESS t" by (auto simp: reply_out_def in_status_def split: option.splits)
  then have arr: "arrived ?srv = arrived ?s" by (simp add: arrived_def st) (simp add: s'_def reply_done_def)
  have "over_threads (serving_pc ?srv) (mt_pcs s') = over_threads (serving_pc ?s) (mt_pcs s)"
    "over_threads (waiting_pc ?srv) (mt_pcs s') = over_threads (waiting_pc ?s) (mt_pcs s)"
    using over_threads_status [OF st] by (simp_all add: s'_def reply_done_def)
  moreover have "mset (map fst (finishing ?s)) = add_mset t (mset (map fst (finishing ?srv)))"
    using mset_fst_remove1 [OF assms(2)] by (simp add: s'_def reply_done_def)
  moreover have "requested ?srv = requested ?s" by (simp add: s'_def reply_done_def)
  ultimately show "in_hand s = add_mset t (in_hand s')" "waiting s' = waiting s"
    by (simp_all add: in_hand_def waiting_def arr)
  show "heap ?srv = heap ?s" by (simp add: s'_def reply_done_def)
qed

lemma threads_move_waiting:
  assumes "threads_move L s s'" and "threads_inv L s" and "size (waiting s) = begun (mt_pcs s)"
  shows "size (waiting s') = begun (mt_pcs s')"
  using assms(1)
proof cases
  case (take_event i t ok)
  then show ?thesis using take_event_moves(2) [OF take_event(2-4)] assms(3) by (simp add: begun_update)
next
  case (run i a pc srv)
  then show ?thesis
    using run_moves(2) [OF assms(2) run(2,3,5)] assms(3) by (simp add: begun_update thread_step_begun [OF run(5)])
qed

lemma threads_step_waiting:
  assumes "threads_step L s s'" and "threads_inv L s" and "size (waiting s) = begun (mt_pcs s)"
  shows "size (waiting s') = begun (mt_pcs s')"
  using assms(1)
proof cases
  case (arrive t cd req)
  then show ?thesis using arrive_moves(2) [OF assms(2) arrive(2,3), of req] assms(3) by (simp add: call_arrives_def)
next
  case (sent t r cd)
  then show ?thesis using finished_moves(2) [OF assms(2) sent(2)] assms(3) by (simp add: reply_done_def)
next
  case (call_dead t r)
  then show ?thesis using finished_moves(2) [OF assms(2) call_dead(2), where ok = False and ans = "[]"] assms(3)
    by (simp add: reply_done_def)
qed (use threads_move_waiting assms(2,3) in blast)

section \<open>The threads refine the service\<close>

definition abs_threads :: "('p, 'f) protobuf_lib \<Rightarrow> ('p, 'f) threads_sys \<Rightarrow> greeting_service" where
  "abs_threads L s = \<lparr>in_service = image_mset (name_at L (mt_server s)) (in_hand s), replied = answered (mt_server s)\<rparr>"

text \<open>What is in hand is alive, so its request is read from a live object.\<close>

lemma in_hand_live:
  assumes "threads_inv L s" and "t \<in># in_hand s"
  shows "heap (mt_server s) t \<noteq> None" and "t \<notin> set (requested (mt_server s))"
proof -
  let ?s = "mt_server s"
  have held: "held_once ?s (mset (requested ?s) + (mset (map fst (finishing ?s)) + mset (map fst (events ?s)) + owners (mt_pcs s)) + {#})"
    using assms(1) by (simp add: threads_inv_def tags_def ac_simps)
  have "t \<in># over_threads (serving_pc ?s) pcs \<Longrightarrow> t \<in># owners pcs" for pcs
    by (induction pcs) (use pc_sets_owned [of t ?s] in \<open>auto simp: over_threads_def owners_def\<close>)
  then have t: "t \<in># mset (map fst (finishing ?s)) + mset (map fst (events ?s)) + owners (mt_pcs s)"
    using assms(2) by (auto simp: in_hand_def arrived_def)
  show "t \<notin> set (requested ?s)" using held_apart [OF held t] by simp
  show "heap ?s t \<noteq> None" using held_live [OF held] t by simp
qed

lemma thread_step_request:
  assumes "thread_step L a pc s = (pc', s')" and "heap s a = None"
    and "heap s t = Some cd" and "heap s' t = Some cd'"
  shows "cd_request cd' = cd_request cd"
  using assms by (cases pc) (auto simp: at_object_def split: option.splits if_splits)

lemma finished_names:
  assumes "heap (mt_server s') = heap (mt_server s)"
  shows "name_at L (mt_server s') = name_at L (mt_server s)"
  by (simp add: name_at_def fun_eq_iff assms)

lemma finished_service:
  assumes "threads_inv L s" and "(t, r) \<in> set (finishing (mt_server s))"
  shows "in_service (abs_threads L s) = add_mset (name_at L (mt_server s) t) (in_service (abs_threads L (reply_done t r ok ans s)))"
proof -
  note moves = finished_moves [OF assms, where ok = ok and ans = ans]
  show ?thesis by (simp add: abs_threads_def moves(1) finished_names [OF moves(3)])
qed

text \<open>The calls in hand keep their names while threads move.\<close>

lemma threads_move_hand:
  assumes "threads_move L s s'" and "threads_inv L s" and "cell_ok L"
  shows "in_hand s' = in_hand s" and "u \<in># in_hand s \<Longrightarrow> name_at L (mt_server s') u = name_at L (mt_server s) u"
    and "answered (mt_server s') = answered (mt_server s)"
proof -
  note inv' = threads_move_inv [OF assms]
  have "in_hand s' = in_hand s \<and> answered (mt_server s') = answered (mt_server s)
      \<and> (\<forall>cd cd'. heap (mt_server s) u = Some cd \<longrightarrow> heap (mt_server s') u = Some cd' \<longrightarrow> cd_request cd' = cd_request cd)"
    using assms(1)
  proof cases
    case (take_event i t ok)
    then show ?thesis using take_event_moves(1) [OF take_event(2-4)] by simp
  next
    case (run i a pc srv)
    then show ?thesis
      using run_moves(1) [OF assms(2) run(2,3,5)] thread_step_events [OF run(5)] thread_step_request [OF run(5,3)] by simp
  qed
  then show hand: "in_hand s' = in_hand s" and "answered (mt_server s') = answered (mt_server s)"
    and "u \<in># in_hand s \<Longrightarrow> name_at L (mt_server s') u = name_at L (mt_server s) u"
    using in_hand_live(1) [OF assms(2), of u] in_hand_live(1) [OF inv', of u]
    by (auto simp: name_at_def HelloRequest_name_def)
qed

lemma arrive_hand:
  assumes "threads_inv L s" and "t \<in> set (requested (mt_server s))" and "heap (mt_server s) t = Some cd"
  shows "t \<notin># in_hand s"
    and "name_at L (mt_server (call_arrives t req cd s)) u = (if u = t then HelloRequest_name L req else name_at L (mt_server s) u)"
  using in_hand_live(2) [OF assms(1)] assms(2) by (auto simp: call_arrives_def name_at_def)

lemma threads_step_refines:
  assumes "threads_inv L s" and "cell_ok L" and "threads_step L s s'"
  shows "abs_threads L s' = abs_threads L s \<or> greeting_step (abs_threads L s) (abs_threads L s')"
  using assms(3)
proof cases
  case (arrive t cd req)
  note moves = arrive_moves(1) [OF assms(1) arrive(2,3), of req]
    and names = arrive_hand(1) [OF assms(1) arrive(2,3)] arrive_hand(2) [OF assms(1) arrive(2,3), of req]
  have "image_mset (name_at L (mt_server s')) (in_hand s) = image_mset (name_at L (mt_server s)) (in_hand s)"
    by (intro image_mset_cong) (use names in \<open>auto simp: arrive(1)\<close>)
  then have "abs_threads L s' = (abs_threads L s)\<lparr>in_service :=
      add_mset (HelloRequest_name L req) (in_service (abs_threads L s))\<rparr>"
    by (simp add: abs_threads_def arrive(1) moves names) (simp add: call_arrives_def)
  then show ?thesis by (simp add: greeting_step.accept)
next
  case (sent t r cd)
  let ?n = "HelloRequest_name L (cd_request cd)"
  have "name_at L (mt_server s) t = ?n" using sent(3) by (simp add: name_at_def)
  with finished_service [OF assms(1) sent(2)] have
    "in_service (abs_threads L s) = add_mset ?n (in_service (abs_threads L s'))" by (simp add: sent(1))
  from greeting_step.answer [OF this] reply_out_message [OF assms(1) sent(2,3)] show ?thesis
    by (simp add: abs_threads_def sent(1)) (simp add: reply_done_def)
next
  case (call_dead t r)
  from greeting_step.drop_call [OF finished_service [OF assms(1) call_dead(2), where ok = False and ans = "[]"]]
  show ?thesis by (simp add: abs_threads_def call_dead(1)) (simp add: reply_done_def)
next
  case move
  note hand = threads_move_hand [OF move assms(1,2)]
  have "image_mset (name_at L (mt_server s')) (in_hand s) = image_mset (name_at L (mt_server s)) (in_hand s)"
    by (intro image_mset_cong hand(2))
  then show ?thesis by (simp add: abs_threads_def hand(1,3))
qed

interpretation greeter_threads:
  abstraction "threads_step L" "\<lambda>s. cell_ok L \<and> threads_inv L s" greeting_step "abs_threads L" for L
  by unfold_locales (use threads_step_inv threads_step_refines in blast)+

lemma over_threads_begin: "f Th_begin = {#} \<Longrightarrow> over_threads f (replicate n Th_begin) = {#}"
  by (induction n) (simp_all add: over_threads_def)

lemma in_hand_begin: "in_hand (threads_begin n) = {#}"
  by (simp add: in_hand_def threads_begin_def empty_server_def arrived_def over_threads_begin)

lemma abs_threads_begin: "abs_threads L (threads_begin n) = idle_service"
  by (simp add: abs_threads_def in_hand_begin idle_service_def) (simp add: threads_begin_def empty_server_def)

lemma waiting_begin: "size (waiting (threads_begin n)) = begun (mt_pcs (threads_begin n))"
  by (simp add: threads_begin_def waiting_def empty_server_def arrived_def begun_def over_threads_begin)

section \<open>Properties\<close>

text \<open>
  C4. \<open>HandleRpcs\<close> can be run in multiple threads: however the steps of any number of threads and of
  the runtime interleave, no thread touches a deleted object, no two threads, and no thread and
  the runtime, have the same object at a time, a thread only stops at an assertion for an event
  with \<open>ok = false\<close> of an object in \<open>FINISH\<close>, and every reply that has gone out greets the name of
  its request.
\<close>

theorem HandleRpcs_threads_safe:
  assumes "(threads_step L)\<^sup>*\<^sup>* (threads_begin n) s" and "cell_ok L"
  shows "Th_fault \<notin> set (mt_pcs s)
     \<and> (\<forall>t. count (owners (mt_pcs s)) t + count (tags (mt_server s)) t = (if heap (mt_server s) t = None then 0 else 1))
     \<and> (\<forall>t. Th_abort t \<in> set (mt_pcs s) \<longrightarrow> in_status (mt_server s) FINISH t)
     \<and> (\<forall>(name, message)\<in>set (answered (mt_server s)). message = ''Hello '' @ name)"
proof -
  have inv: "threads_inv L s" by (rule threads_run_inv [OF assms])
  then have "\<forall>pc\<in>set (mt_pcs s). pc_ok L (mt_server s) pc" by (simp add: threads_inv_def)
  then have "Th_fault \<notin> set (mt_pcs s)" by fastforce
  moreover have "\<forall>t. Th_abort t \<in> set (mt_pcs s) \<longrightarrow> in_status (mt_server s) FINISH t"
    using threads_run_finished [OF assms] by (force simp: failed_finished_def failed_objects_def)
  ultimately show ?thesis using inv by (simp add: threads_inv_def held_once_def runtime_ok_def add.commute)
qed

text \<open>
  C32. With any number of threads there are at any time exactly as many objects waiting for a call,
  requested, on their way to it or just called, as threads that have begun: none is lost, and
  none is created twice.
\<close>

theorem HandleRpcs_threads_waiting:
  assumes "(threads_step L)\<^sup>*\<^sup>* (threads_begin n) s" and "cell_ok L"
  shows "size (waiting s) = begun (mt_pcs s)"
  using assms(1)
proof (induction rule: rtranclp_induct)
  case base
  show ?case by (rule waiting_begin)
next
  case (step s s')
  then show ?case using threads_step_waiting threads_run_inv [OF _ assms(2)] by blast
qed

text \<open>
  C16. Many threads promise the same as one: every run of theirs is a run of the abstract service that
  answers each accepted name at most once, with \<open>Hello\<close> and that name, and otherwise only drops
  calls.
\<close>

theorem HandleRpcs_threads_refine:
  assumes "(threads_step L)\<^sup>*\<^sup>* (threads_begin n) s" and "cell_ok L"
  shows "greeting_step\<^sup>*\<^sup>* idle_service (abs_threads L s)"
  using greeter_threads.abs_run [OF assms(1)] assms(2) threads_begin_inv [of L n] abs_threads_begin [of L n] by simp

text \<open>Two threads: one is in \<open>Next\<close> and its call has arrived, the other is in its first constructor.\<close>

definition two_threads :: "(bytes, bool) threads_sys" where
  "two_threads = \<lparr>mt_server = \<lparr>heap = [1 \<mapsto> \<lparr>cd_status = PROCESS,
       cd_request = HelloRequest_set_name wire_lib ''world'' (HelloRequest wire_lib None), cd_reply = HelloReply wire_lib None\<rparr>,
       2 \<mapsto> new_object wire_lib],
     requested = [], finishing = [], events = [(1, True)], answered = []\<rparr>,
     mt_pcs = [Th_next, Th_create 2 None]\<rparr>"

lemma two_threads_run: "(threads_step wire_lib)\<^sup>*\<^sup>* (threads_begin 2) two_threads"
proof -
  let ?o = "new_object wire_lib" and ?p = "(new_object wire_lib)\<lparr>cd_status := PROCESS\<rparr>"
  let ?s = "\<lambda>pcs h r. \<lparr>mt_server = empty_server\<lparr>heap := h, requested := r\<rparr>, mt_pcs = pcs\<rparr>"
  note defs = empty_server_def at_object_def put_def new_object_def aborted_def
  have "threads_step wire_lib (threads_begin 2) (?s [Th_create 1 None, Th_begin] [1 \<mapsto> ?o] [])"
    using threads_step.move [OF threads_move.run [of 0 "threads_begin 2" 1 wire_lib]] by (simp add: threads_begin_def numeral_eq_Suc defs)
  moreover have "threads_step wire_lib (?s [Th_create 1 None, Th_begin] [1 \<mapsto> ?o] []) (?s [Th_request 1 None, Th_begin] [1 \<mapsto> ?p] [])"
    using threads_step.move [OF threads_move.run [of 0 "?s [Th_create 1 None, Th_begin] [1 \<mapsto> ?o] []" 2 wire_lib]] by (simp add: defs)
  moreover have "threads_step wire_lib (?s [Th_request 1 None, Th_begin] [1 \<mapsto> ?p] []) (?s [Th_next, Th_begin] [1 \<mapsto> ?p] [1])"
    using threads_step.move [OF threads_move.run [of 0 "?s [Th_request 1 None, Th_begin] [1 \<mapsto> ?p] []" 2 wire_lib]] by (simp add: defs)
  moreover have "threads_step wire_lib (?s [Th_next, Th_begin] [1 \<mapsto> ?p] [1]) (?s [Th_next, Th_create 2 None] [1 \<mapsto> ?p, 2 \<mapsto> ?o] [1])"
    using threads_step.move [OF threads_move.run [of 1 "?s [Th_next, Th_begin] [1 \<mapsto> ?p] [1]" 2 wire_lib]] by (simp add: defs)
  moreover have "threads_step wire_lib (?s [Th_next, Th_create 2 None] [1 \<mapsto> ?p, 2 \<mapsto> ?o] [1]) two_threads"
    using threads_step.arrive [of 1 "?s [Th_next, Th_create 2 None] [1 \<mapsto> ?p, 2 \<mapsto> ?o] [1]" ?p wire_lib
        "HelloRequest_set_name wire_lib ''world'' (HelloRequest wire_lib None)"]
    by (simp add: two_threads_def call_arrives_def defs fun_upd_twist)
  ultimately show ?thesis by (meson r_into_rtranclp rtranclp.rtrancl_into_rtrancl)
qed

theorem HandleRpcs_threads_safe_witness:
  "Th_fault \<notin> set (mt_pcs two_threads)
   \<and> count (owners (mt_pcs two_threads)) 2 + count (tags (mt_server two_threads)) 2 = 1"
  using HandleRpcs_threads_safe [OF two_threads_run wire_cell_ok] by (auto simp: two_threads_def)

theorem HandleRpcs_threads_waiting_witness: "size (waiting two_threads) = 2"
  using HandleRpcs_threads_waiting [OF two_threads_run wire_cell_ok] by (simp add: two_threads_def begun_def)

theorem HandleRpcs_threads_refine_witness:
  "greeting_step\<^sup>*\<^sup>* idle_service \<lparr>in_service = {#''world''#}, replied = []\<rparr>"
proof -
  have "abs_threads wire_lib two_threads = \<lparr>in_service = {#''world''#}, replied = []\<rparr>"
    by (simp add: abs_threads_def two_threads_def in_hand_def arrived_def over_threads_def in_status_def name_at_def
        HelloRequest_name_def HelloRequest_set_name_def wire_lib_def)
  then show ?thesis using HandleRpcs_threads_refine [OF two_threads_run wire_cell_ok] by simp
qed

end
