(* ===== verification/Greeter_Callback.thy ===== *)
theory Greeter_Callback
  imports Greeter_Service
begin

text \<open>
  The rest of the generated \<open>Greeter\<close> service of \<open>include/helloworld.grpc.pb.h\<close> and
  \<open>src/helloworld.grpc.pb.cc\<close>: what each layer of the service runs when a call arrives, and the
  client interfaces beside the one \<open>GreeterClient\<close> uses, \<open>AsyncSayHello\<close> and the callbacks of
  \<open>class async\<close>.
\<close>

section \<open>What serves a call\<close>

text \<open>
  The handler a layer's constructor passes to the library: the regular one calls the virtual
  \<open>SayHello\<close>, a callback one the overload for callbacks, a streamed one \<open>StreamedSayHello\<close>. The
  asynchronous, raw and generic layers pass none; their calls are taken from a queue, after
  \<open>RequestSayHello\<close> has asked for one of method 0.
\<close>

datatype method_handler = Calls_SayHello | Calls_callback_SayHello | Calls_StreamedSayHello | Taken_from_queue

primrec layer_handler :: "service_class \<Rightarrow> method_handler" where
  "layer_handler Service = Calls_SayHello"
| "layer_handler (WithAsyncMethod_SayHello b) = Taken_from_queue"
| "layer_handler (WithCallbackMethod_SayHello b) = Calls_callback_SayHello"
| "layer_handler (WithGenericMethod_SayHello b) = Taken_from_queue"
| "layer_handler (WithRawMethod_SayHello b) = Taken_from_queue"
| "layer_handler (WithRawCallbackMethod_SayHello b) = Calls_callback_SayHello"
| "layer_handler (WithStreamedUnaryMethod_SayHello b) = Calls_StreamedSayHello"

text \<open>
  The index \<open>RequestSayHello\<close> passes on. Two layers define it; the others inherit it from their base
  class, if that has it.
\<close>

primrec RequestSayHello :: "service_class \<Rightarrow> nat option" where
  "RequestSayHello Service = None"
| "RequestSayHello (WithAsyncMethod_SayHello b) = Some 0"
| "RequestSayHello (WithCallbackMethod_SayHello b) = RequestSayHello b"
| "RequestSayHello (WithGenericMethod_SayHello b) = RequestSayHello b"
| "RequestSayHello (WithRawMethod_SayHello b) = Some 0"
| "RequestSayHello (WithRawCallbackMethod_SayHello b) = RequestSayHello b"
| "RequestSayHello (WithStreamedUnaryMethod_SayHello b) = RequestSayHello b"

text \<open>The callback overload of a layer returns a null reactor until it is overridden.\<close>

fun callback_SayHello :: "service_class \<Rightarrow> nat option" where
  "callback_SayHello c = None"

text \<open>\<open>StreamedSayHello\<close> is pure virtual: a class with such a layer has no objects of its own.\<close>

primrec abstract_class :: "service_class \<Rightarrow> bool" where
  "abstract_class Service = False"
| "abstract_class (WithAsyncMethod_SayHello b) = abstract_class b"
| "abstract_class (WithCallbackMethod_SayHello b) = abstract_class b"
| "abstract_class (WithGenericMethod_SayHello b) = abstract_class b"
| "abstract_class (WithRawMethod_SayHello b) = abstract_class b"
| "abstract_class (WithRawCallbackMethod_SayHello b) = abstract_class b"
| "abstract_class (WithStreamedUnaryMethod_SayHello b) = True"

text \<open>
  A call arriving at an object of the class, where the library lets one be constructed: the handler
  of the outermost layer runs.
\<close>

datatype served = Returned rpc_status | Aborted | Reactor "nat option" | Queued | Pure_virtual

definition serve_call :: "service_class \<Rightarrow> served" where
  "serve_call c =
     (case layer_handler c of
        Calls_SayHello \<Rightarrow> (case service_SayHello c of Inl e \<Rightarrow> Aborted | Inr st \<Rightarrow> Returned st)
      | Calls_callback_SayHello \<Rightarrow> Reactor (callback_SayHello c)
      | Calls_StreamedSayHello \<Rightarrow> Pure_virtual
      | Taken_from_queue \<Rightarrow> Queued)"

section \<open>The client interfaces\<close>

text \<open>The two library functions behind \<open>class async\<close>; \<open>'k\<close> is what is called back.\<close>

record ('ch, 'req, 'rep, 'f, 'k, 'e) callback_lib =
  CallbackUnaryCall :: "'ch \<Rightarrow> bytes \<Rightarrow> 'req \<Rightarrow> 'rep \<Rightarrow> 'f \<Rightarrow> 'e"
  ClientCallbackUnaryFactory_Create :: "'ch \<Rightarrow> bytes \<Rightarrow> 'req \<Rightarrow> 'rep \<Rightarrow> 'k \<Rightarrow> 'e"

text \<open>\<open>class async\<close> refers to the stub it is a member of.\<close>

record 'ch stub_async =
  async_stub :: "'ch stub"

definition Stub_async :: "'ch stub \<Rightarrow> 'ch stub_async" where
  "Stub_async stub = \<lparr>async_stub = stub\<rparr>"

definition async_SayHello_function ::
  "('ch, 'req, 'rep, 'f, 'k, 'e) callback_lib \<Rightarrow> 'ch stub_async \<Rightarrow> 'req \<Rightarrow> 'rep \<Rightarrow> 'f \<Rightarrow> 'e" where
  "async_SayHello_function K a request response f =
     CallbackUnaryCall K (stub_channel (async_stub a)) (rpcmethod_SayHello (async_stub a)) request response f"

definition async_SayHello_reactor ::
  "('ch, 'req, 'rep, 'f, 'k, 'e) callback_lib \<Rightarrow> 'ch stub_async \<Rightarrow> 'req \<Rightarrow> 'rep \<Rightarrow> 'k \<Rightarrow> 'e" where
  "async_SayHello_reactor K a request response reactor =
     ClientCallbackUnaryFactory_Create K (stub_channel (async_stub a)) (rpcmethod_SayHello (async_stub a)) request response reactor"

definition AsyncSayHello ::
  "('ch, 'call, 'req, 'rep) grpc_client_lib \<Rightarrow> 'ch stub \<Rightarrow> 'req \<Rightarrow> 'call" where
  "AsyncSayHello C stub request = AsyncSayHelloRaw C stub request"

section \<open>Who calls, and who serves\<close>

lemmas client_interfaces = Stub_SayHello_def AsyncSayHello_def AsyncSayHelloRaw_def PrepareAsyncSayHello_def
  PrepareAsyncSayHelloRaw_def async_SayHello_function_def async_SayHello_reactor_def Stub_async_def
  NewStub_def Stub_def Let_def

text \<open>The five client interfaces call one method, on the stub's channel.\<close>

lemma client_interfaces_call:
  fixes name defines "name \<equiv> ''/helloworld.Greeter/SayHello''"
  shows "Stub_SayHello C (NewStub ch) req rep = BlockingUnaryCall C ch name req rep
     \<and> PrepareAsyncSayHello C (NewStub ch) req = reader_create C ch name req
     \<and> AsyncSayHello C (NewStub ch) req = StartCall C (reader_create C ch name req)
     \<and> async_SayHello_function K (Stub_async (NewStub ch)) req rep f = CallbackUnaryCall K ch name req rep f
     \<and> async_SayHello_reactor K (Stub_async (NewStub ch)) req rep k = ClientCallbackUnaryFactory_Create K ch name req rep k"
  by (simp add: name_def client_interfaces Greeter_method_names_def)

text \<open>
  Where a class on \<open>Service\<close> asks for calls itself they come through the queue, and no call reaches
  one of the synchronous versions that the layers disable with \<open>abort\<close>, nor, in a class that can
  have objects, a pure virtual function. A layer over an asynchronous one inherits \<open>RequestSayHello\<close>
  although its calls do not come through the queue.
\<close>

lemma layers_serve:
  "one_layer c \<Longrightarrow> RequestSayHello c \<noteq> None \<Longrightarrow> serve_call c = Queued"
  "serve_call c \<noteq> Aborted" "serve_call c = Pure_virtual \<Longrightarrow> abstract_class c"
  "RequestSayHello (WithCallbackMethod_SayHello AsyncService) = Some 0"
  "serve_call (WithCallbackMethod_SayHello AsyncService) = Reactor None"
  by ((cases c)?; simp add: serve_call_def one_layer_def AsyncService_def)+

end
