(* ===== verification/Greeter_Client.thy ===== *)
theory Greeter_Client
  imports Greeter_Service
begin

text \<open>
  \<open>class GreeterClient\<close> of \<open>include/greeter_async_client.h\<close>: one unary call through the stub and a
  completion queue of its own, which it waits on. The client is then run against the server of
  \<open>Greeter_Server\<close>, with the messages carried as bytes in the wire format.
\<close>

section \<open>\<open>SayHello\<close>\<close>

record 'ch greeter_client =
  client_stub :: "'ch stub"

definition GreeterClient :: "'ch \<Rightarrow> 'ch greeter_client" where
  "GreeterClient channel = \<lparr>client_stub = NewStub channel\<rparr>"

text \<open>The three assertions of the code abort the process: \<open>Inl Terminate\<close>.\<close>

definition SayHello ::
  "('p, 'f) protobuf_lib \<Rightarrow> ('ch, 'call, ('p, 'f) hello_request, ('p, 'f) hello_reply) grpc_client_lib
    \<Rightarrow> 'ch greeter_client \<Rightarrow> bytes \<Rightarrow> proc_outcome + bytes" where
  "SayHello L C client user =
     (let request = HelloRequest_set_name L user (HelloRequest L None);
          reply = HelloReply L None;
          rpc = StartCall C (PrepareAsyncSayHello C (client_stub client) request);
          c = Finish_next C rpc reply 1
      in if \<not> next_returned c then Inl Terminate
         else if got_tag c \<noteq> 1 then Inl Terminate
         else if \<not> got_ok c then Inl Terminate
         else if rpc_status c = Status_ok then Inr (HelloReply_message L (reply_after c))
         else Inr ''RPC failed'')"

section \<open>The gRPC runtime between the two\<close>

text \<open>
  What the client relies on: \<open>Finish\<close> is completed by one event with its tag and \<open>ok = true\<close> (for a
  unary call on the client side \<open>ok\<close> is always true), also when the call failed.
\<close>

definition completes ::
  "('ch, 'call, 'req, 'rep) grpc_client_lib \<Rightarrow> bool" where
  "completes C \<longleftrightarrow> (\<forall>ch m req reply tag.
     let c = Finish_next C (StartCall C (reader_create C ch m req)) reply tag
     in next_returned c \<and> got_tag c = tag \<and> got_ok c)"

text \<open>
  What an \<open>OK\<close> status of the method means: the server parsed the bytes the request serializes to
  into a fresh object, sent a reply for that object, and the client parsed the bytes of that reply
  into its own.
\<close>

definition delivers ::
  "('p, 'f) protobuf_lib \<Rightarrow> ('ch, 'call, ('p, 'f) hello_request, ('p, 'f) hello_reply) grpc_client_lib \<Rightarrow> bool" where
  "delivers L C \<longleftrightarrow> (\<forall>ch req reply tag.
     let c = Finish_next C (StartCall C (reader_create C ch (Greeter_method_names ! 0) req)) reply tag
     in rpc_status c = Status_ok \<longrightarrow>
        (\<exists>s fuel req' r t1 t2 e1 e2.
           server_reachable L s
           \<and> HelloRequest_InternalParse L fuel (HelloRequest L None) (HelloRequest_InternalSerialize L req []) = Some (req', Some e1, t1)
           \<and> (HelloRequest_name L req', HelloReply_message L r) \<in> set (answered s)
           \<and> HelloReply_InternalParse L fuel reply (HelloReply_InternalSerialize L r []) = Some (reply_after c, Some e2, t2)))"

text \<open>
  A message that is text of a size a string field can carry arrives: with enough fuel the parser
  returns it with its field, and whatever fuel it returns with, it has read the input to its end.
\<close>

lemma request_parses:
  assumes "lib_ok L" and "fits user" and "verify_utf8 L user"
    and "bs = HelloRequest_InternalSerialize L (HelloRequest_set_name L user (HelloRequest L None)) []"
  shows "\<exists>m. HelloRequest_InternalParse L (Suc (length bs)) (HelloRequest L None) bs = Some (m, Some [], None)
     \<and> HelloRequest_name L m = user"
proof -
  let ?m = "HelloRequest_set_name L user (HelloRequest L None)"
  have cell: "cell_ok L" using assms(1) by (simp add: lib_ok_def)
  then have "HelloRequest_name L ?m = user"
    by (simp add: HelloRequest_name_def HelloRequest_set_name_def cell_ok_def)
  then show ?thesis
    using req.roundtrip [of L ?m "HelloRequest L None" "Suc (length bs)"] assms cell
    by (auto simp: req.sendable_def req.same_def HelloRequest_new)
qed

lemma request_on_wire:
  assumes "lib_ok L" and "fits user" and "verify_utf8 L user"
    and "bs = HelloRequest_InternalSerialize L (HelloRequest_set_name L user (HelloRequest L None)) []"
    and "HelloRequest_InternalParse L fuel (HelloRequest L None) bs = Some (req', e)"
  shows "HelloRequest_name L req' = user" and "e = (Some [], None)"
proof -
  obtain m where m: "HelloRequest_InternalParse L (Suc (length bs)) (HelloRequest L None) bs = Some (m, Some [], None)"
    "HelloRequest_name L m = user"
    using request_parses [OF assms(1-4)] by blast
  have "HelloRequest_InternalParse L (Suc (length bs) + fuel) (HelloRequest L None) bs = Some (m, Some [], None)"
    using req.parse_more_fuel m(1) by blast
  moreover have "HelloRequest_InternalParse L (fuel + Suc (length bs)) (HelloRequest L None) bs = Some (req', e)"
    using req.parse_more_fuel assms(5) by blast
  ultimately show "HelloRequest_name L req' = user" and "e = (Some [], None)" using m(2) by (simp_all add: add.commute)
qed

lemma reply_parses:
  assumes "lib_ok L" and "fits (HelloReply_message L r)" and "verify_utf8 L (HelloReply_message L r)"
    and "bs = HelloReply_InternalSerialize L r []"
  shows "\<exists>m. HelloReply_InternalParse L (Suc (length bs)) (HelloReply L None) bs = Some (m, Some [], None)
     \<and> HelloReply_message L m = HelloReply_message L r"
proof -
  have "cell_ok L" using assms(1) by (simp add: lib_ok_def)
  then show ?thesis
    using rep.roundtrip [of L r "HelloReply L None" "Suc (length bs)"] assms
    by (auto simp: rep.sendable_def rep.same_def HelloReply_new)
qed

lemma reply_on_wire:
  assumes "lib_ok L" and "fits (HelloReply_message L r)" and "verify_utf8 L (HelloReply_message L r)"
    and "bs = HelloReply_InternalSerialize L r []"
    and "HelloReply_InternalParse L fuel (HelloReply L None) bs = Some (r', e)"
  shows "HelloReply_message L r' = HelloReply_message L r" and "e = (Some [], None)"
proof -
  obtain m where m: "HelloReply_InternalParse L (Suc (length bs)) (HelloReply L None) bs = Some (m, Some [], None)"
    "HelloReply_message L m = HelloReply_message L r"
    using reply_parses [OF assms(1-4)] by blast
  have "HelloReply_InternalParse L (Suc (length bs) + fuel) (HelloReply L None) bs = Some (m, Some [], None)"
    using rep.parse_more_fuel m(1) by blast
  moreover have "HelloReply_InternalParse L (fuel + Suc (length bs)) (HelloReply L None) bs = Some (r', e)"
    using rep.parse_more_fuel assms(5) by blast
  ultimately show "HelloReply_message L r' = HelloReply_message L r" and "e = (Some [], None)"
    using m(2) by (simp_all add: add.commute)
qed

section \<open>Properties\<close>

text \<open>
  End to end: over a runtime that carries the bytes, \<open>SayHello\<close> against the asynchronous server
  returns \<open>Hello\<close> and the user's name exactly when the call succeeds, \<open>RPC failed\<close> otherwise, and
  none of its assertions fails. The name must be text, and it and the greeting of a size a string
  field can carry.
\<close>

lemma SayHello_end_to_end:
  assumes L: "lib_ok L" and C: "completes C" "delivers L C"
    and user: "fits (''Hello '' @ user)" "verify_utf8 L user" "verify_utf8 L (''Hello '' @ user)"
  shows "SayHello L C (GreeterClient channel) user =
    (if rpc_status (Finish_next C (StartCall C (PrepareAsyncSayHello C (NewStub channel)
          (HelloRequest_set_name L user (HelloRequest L None)))) (HelloReply L None) 1) = Status_ok
     then Inr (''Hello '' @ user) else Inr ''RPC failed'')"
proof -
  let ?req = "HelloRequest_set_name L user (HelloRequest L None)"
  let ?c = "Finish_next C (StartCall C (PrepareAsyncSayHello C (NewStub channel) ?req)) (HelloReply L None) 1"
  have c_eq: "?c = Finish_next C (StartCall C (reader_create C channel (Greeter_method_names ! 0) ?req)) (HelloReply L None) 1"
    by (simp add: PrepareAsyncSayHello_def PrepareAsyncSayHelloRaw_def NewStub_def Stub_def)
  have "next_returned ?c \<and> got_tag ?c = 1 \<and> got_ok ?c"
    unfolding c_eq using C(1) unfolding completes_def Let_def by blast
  moreover have "HelloReply_message L (reply_after ?c) = ''Hello '' @ user" if ok: "rpc_status ?c = Status_ok"
  proof -
    obtain s fuel req' r t1 t2 e1 e2 where s: "server_reachable L s"
      and req': "HelloRequest_InternalParse L fuel (HelloRequest L None) (HelloRequest_InternalSerialize L ?req []) = Some (req', Some e1, t1)"
      and ans: "(HelloRequest_name L req', HelloReply_message L r) \<in> set (answered s)"
      and rep: "HelloReply_InternalParse L fuel (HelloReply L None) (HelloReply_InternalSerialize L r []) = Some (reply_after ?c, Some e2, t2)"
      using C(2) ok unfolding delivers_def Let_def c_eq by blast
    have "fits user" using user(1) by (simp add: fits_def)
    then have "HelloRequest_name L req' = user" using request_on_wire(1) L user(2) req' by blast
    moreover have "server_inv L s" using server_reachable_inv [OF s] L by (simp add: lib_ok_def)
    ultimately have "HelloReply_message L r = ''Hello '' @ user"
      using ans by (auto simp: server_inv_def replies_ok_def)
    then show ?thesis using reply_on_wire(1) [OF L _ _ refl rep] user(1,3) by simp
  qed
  ultimately show ?thesis by (simp add: SayHello_def GreeterClient_def Let_def)
qed

text \<open>
  A runtime for the witness: the one request it can deliver is the one for \<open>world\<close>; every other call
  fails.
\<close>

definition world_request :: "(bytes, bool) hello_request" where
  "world_request = HelloRequest_set_name wire_lib ''world'' (HelloRequest wire_lib None)"

definition world_reply :: "(bytes, bool) hello_reply" where
  "world_reply = HelloReply_set_message wire_lib ''Hello world'' (HelloReply wire_lib None)"

definition world_client_lib ::
  "(unit, (bytes, bool) hello_request, (bytes, bool) hello_request, (bytes, bool) hello_reply) grpc_client_lib" where
  "world_client_lib = \<lparr>reader_create = (\<lambda>ch m req. req), StartCall = (\<lambda>c. c),
     Finish_next = (\<lambda>req reply tag. \<lparr>next_returned = True, got_tag = tag, got_ok = True,
        rpc_status = (if req = world_request then Status_ok else Failed_status),
        reply_after = fst (the (HelloReply_InternalParse wire_lib 20 reply (HelloReply_InternalSerialize wire_lib world_reply [])))\<rparr>),
     BlockingUnaryCall = (\<lambda>ch m req reply. (Failed_status, reply))\<rparr>"

lemma world_answered: "\<exists>s. server_reachable wire_lib s \<and> (''world'', ''Hello world'') \<in> set (answered s)"
proof -
  obtain s where "(server_step wire_lib)\<^sup>*\<^sup>* (HandleRpcs_begin wire_lib 1) s"
    "answered s = answered (HandleRpcs_begin wire_lib 1)
       @ [(HelloRequest_name wire_lib world_request, ''Hello '' @ HelloRequest_name wire_lib world_request)]"
    using serve_steps [OF HandleRpcs_begin_inv [of wire_lib 1] wire_cell_ok, of 1 2 world_request]
    by (auto simp: HandleRpcs_begin_def CallData_eq)
  moreover from this(1) have "server_reachable wire_lib s"
    by (induction rule: rtranclp_induct) (auto intro: server_reachable.intros)
  moreover have "HelloRequest_name wire_lib world_request = ''world''"
    by (simp add: world_request_def HelloRequest_name_def HelloRequest_set_name_def wire_lib_def)
  ultimately show ?thesis by auto
qed

lemma world_reply_parses:
  "\<exists>m1. HelloReply_InternalParse wire_lib 20 reply (HelloReply_InternalSerialize wire_lib world_reply []) = Some (m1, Some [], None)"
proof -
  have "rep.sendable wire_lib world_reply" "rep.rounds wire_lib world_reply = 1"
    by (simp_all add: rep.sendable_def rep.rounds_def world_reply_def HelloReply_message_def HelloReply_set_message_def
        HelloReply_new wire_lib_def fits_def ascii_def)
  then show ?thesis
    using rep.parse_serialized [OF wire_lib_ok, of world_reply 19 reply "[]"] rep.parse_end [OF wire_wire_ok, of 18]
    by (auto simp: numeral_eq_Suc)
qed

lemma world_request_parses:
  "\<exists>m1. HelloRequest_InternalParse wire_lib 20 (HelloRequest wire_lib None) (HelloRequest_InternalSerialize wire_lib world_request [])
     = Some (m1, Some [], None) \<and> HelloRequest_name wire_lib m1 = ''world''"
  using req.roundtrip [OF wire_lib_ok, of world_request "HelloRequest wire_lib None" 20]
  by (auto simp: req.sendable_def req.same_def world_request_def HelloRequest_name_def HelloRequest_set_name_def
      HelloRequest_new HelloRequest_InternalSerialize_def wire_lib_def fits_def ascii_def put_varint.simps HelloRequest_def
      HelloRequest_SharedCtor_def)

lemma world_delivers: "delivers wire_lib world_client_lib"
proof -
  obtain s where s: "server_reachable wire_lib s" "(''world'', ''Hello world'') \<in> set (answered s)"
    using world_answered by blast
  obtain m1 where m1: "HelloRequest_InternalParse wire_lib 20 (HelloRequest wire_lib None)
      (HelloRequest_InternalSerialize wire_lib world_request []) = Some (m1, Some [], None)"
    "HelloRequest_name wire_lib m1 = ''world''"
    using world_request_parses by blast
  have r: "HelloReply_message wire_lib world_reply = ''Hello world''"
    by (simp add: world_reply_def HelloReply_message_def HelloReply_set_message_def wire_lib_def)
  show ?thesis
    unfolding delivers_def Let_def
  proof (intro allI impI)
    fix ch :: unit and req reply tag
    let ?c = "Finish_next world_client_lib (StartCall world_client_lib
        (reader_create world_client_lib ch (Greeter_method_names ! 0) req)) reply tag"
    assume "rpc_status ?c = Status_ok"
    then have req: "req = world_request" by (simp add: world_client_lib_def split: if_splits)
    obtain m2 where m2: "HelloReply_InternalParse wire_lib 20 reply
        (HelloReply_InternalSerialize wire_lib world_reply []) = Some (m2, Some [], None)"
      using world_reply_parses by blast
    then have "reply_after ?c = m2" by (simp add: world_client_lib_def)
    with s m1 m2 r req show "\<exists>s fuel req' r t1 t2 e1 e2. server_reachable wire_lib s
       \<and> HelloRequest_InternalParse wire_lib fuel (HelloRequest wire_lib None)
           (HelloRequest_InternalSerialize wire_lib req []) = Some (req', Some e1, t1)
       \<and> (HelloRequest_name wire_lib req', HelloReply_message wire_lib r) \<in> set (answered s)
       \<and> HelloReply_InternalParse wire_lib fuel reply (HelloReply_InternalSerialize wire_lib r [])
           = Some (reply_after ?c, Some e2, t2)"
      by (intro exI [of _ s] exI [of _ 20] exI [of _ m1] exI [of _ world_reply] exI [of _ None] exI [of _ "[]"]) simp
  qed
qed

end
