(* ===== verification/Greeter_Network.thy ===== *)
theory Greeter_Network
  imports Greeter_Threads Greeter_Client
begin

text \<open>
  Any number of clients of \<open>include/greeter_async_client.h\<close> against the server of
  \<open>include/greeter_async_server.h\<close> in any number of threads, with the messages on the wire as bytes.
  The runtime chooses the object that gets a call, may lose a call at any time, and hands the bytes
  of a reply to the call it was sent for. A message that its parser does not read to the end, with
  a pointer that is not null, makes the call fail: an unreadable request never gets to an object. What \<open>Greeter_Client\<close> takes as a hypothesis on the runtime
  for one call, that an answer is one a reachable server has sent, holds here by construction.
\<close>

section \<open>Calls\<close>

text \<open>
  Where a call is: its request on the way to the server; with the object at \<open>t\<close>; there, but given up
  by its client; its reply on the way back; answered, with the client's parsed reply; failed.
\<close>

datatype 'r call_phase =
    On_way bytes
  | At_server nat
  | Given_up nat
  | Coming_back bytes
  | Answered 'r
  | Rpc_failed

record 'r call =
  call_user :: bytes
  call_phase :: "'r call_phase"

record ('p, 'f) greeter_net =
  gn_server :: "('p, 'f) threads_sys"
  gn_calls :: "('p, 'f) hello_reply call list"

definition request_for :: "('p, 'f) protobuf_lib \<Rightarrow> bytes \<Rightarrow> ('p, 'f) hello_request" where
  "request_for L user = HelloRequest_set_name L user (HelloRequest L None)"

text \<open>\<open>SayHello(user)\<close> up to \<open>StartCall\<close>: the serialized request leaves.\<close>

definition start_call :: "('p, 'f) protobuf_lib \<Rightarrow> bytes \<Rightarrow> ('p, 'f) greeter_net \<Rightarrow> ('p, 'f) greeter_net" where
  "start_call L user n = n\<lparr>gn_calls := gn_calls n @
     [\<lparr>call_user = user, call_phase = On_way (HelloRequest_InternalSerialize L (request_for L user) [])\<rparr>]\<rparr>"

definition set_phase :: "nat \<Rightarrow> ('p, 'f) hello_reply call_phase \<Rightarrow> ('p, 'f) greeter_net \<Rightarrow> ('p, 'f) greeter_net" where
  "set_phase k ph n = n\<lparr>gn_calls := (gn_calls n)[k := (gn_calls n ! k)\<lparr>call_phase := ph\<rparr>]\<rparr>"

abbreviation phase_of :: "('p, 'f) greeter_net \<Rightarrow> nat \<Rightarrow> ('p, 'f) hello_reply call_phase" where
  "phase_of n k \<equiv> call_phase (gn_calls n ! k)"

section \<open>The steps\<close>

text \<open>\<open>ParseFromZeroCopyStream\<close> accepts a message of which \<open>_InternalParse\<close> has left this pointer and tag.\<close>

definition parsed_whole :: "bytes option \<times> u32 option \<Rightarrow> bool" where
  "parsed_whole e \<longleftrightarrow> e = (Some [], None)"

inductive gn_step ::
  "('p, 'f) protobuf_lib \<Rightarrow> ('p, 'f) greeter_net \<Rightarrow> ('p, 'f) greeter_net \<Rightarrow> bool" for L where
  start: "gn_step L n (start_call L user n)"
| arrive: "k < length (gn_calls n) \<Longrightarrow> phase_of n k = On_way bs \<Longrightarrow>
    t \<in> set (requested (mt_server (gn_server n))) \<Longrightarrow> heap (mt_server (gn_server n)) t = Some cd \<Longrightarrow>
    HelloRequest_InternalParse L fuel (HelloRequest L None) bs = Some (req, e) \<Longrightarrow> parsed_whole e \<Longrightarrow>
    gn_step L n ((set_phase k (At_server t) n)\<lparr>gn_server := call_arrives t req cd (gn_server n)\<rparr>)"
| reject: "k < length (gn_calls n) \<Longrightarrow> phase_of n k = On_way bs \<Longrightarrow>
    t \<in> set (requested (mt_server (gn_server n))) \<Longrightarrow>
    HelloRequest_InternalParse L fuel (HelloRequest L None) bs = Some (req, e) \<Longrightarrow> \<not> parsed_whole e \<Longrightarrow>
    gn_step L n (set_phase k Rpc_failed n)"
| threads: "threads_move L (gn_server n) s \<Longrightarrow> gn_step L n (n\<lparr>gn_server := s\<rparr>)"
| sent: "k < length (gn_calls n) \<Longrightarrow> phase_of n k \<in> {At_server t, Given_up t} \<Longrightarrow>
    (t, r) \<in> set (finishing (mt_server (gn_server n))) \<Longrightarrow> heap (mt_server (gn_server n)) t = Some cd \<Longrightarrow>
    gn_step L n ((set_phase k
        (if phase_of n k = At_server t then Coming_back (HelloReply_InternalSerialize L r []) else Rpc_failed) n)
      \<lparr>gn_server := reply_done t r True [(HelloRequest_name L (cd_request cd), HelloReply_message L r)] (gn_server n)\<rparr>)"
| call_dead: "k < length (gn_calls n) \<Longrightarrow> phase_of n k \<in> {At_server t, Given_up t} \<Longrightarrow>
    (t, r) \<in> set (finishing (mt_server (gn_server n))) \<Longrightarrow>
    gn_step L n ((set_phase k Rpc_failed n)\<lparr>gn_server := reply_done t r False [] (gn_server n)\<rparr>)"
| deliver: "k < length (gn_calls n) \<Longrightarrow> phase_of n k = Coming_back bs \<Longrightarrow>
    HelloReply_InternalParse L fuel (HelloReply L None) bs = Some (r, e) \<Longrightarrow>
    gn_step L n (set_phase k (if parsed_whole e then Answered r else Rpc_failed) n)"
| give_up: "k < length (gn_calls n) \<Longrightarrow> phase_of n k = At_server t \<Longrightarrow> gn_step L n (set_phase k (Given_up t) n)"
| lose: "k < length (gn_calls n) \<Longrightarrow> phase_of n k \<in> {On_way bs, Coming_back bs} \<Longrightarrow>
    gn_step L n (set_phase k Rpc_failed n)"

definition gn_begin :: "nat \<Rightarrow> ('p, 'f) greeter_net" where
  "gn_begin threads = \<lparr>gn_server = threads_begin threads, gn_calls = []\<rparr>"

section \<open>Invariant\<close>

text \<open>A user name that is text and, with the greeting, of a size a string field can carry.\<close>

definition good_user :: "('p, 'f) protobuf_lib \<Rightarrow> bytes \<Rightarrow> bool" where
  "good_user L user \<longleftrightarrow> fits (''Hello '' @ user) \<and> verify_utf8 L user \<and> verify_utf8 L (''Hello '' @ user)"

fun phase_ok :: "('p, 'f) protobuf_lib \<Rightarrow> ('p, 'f) greeter_server \<Rightarrow> bytes \<Rightarrow> ('p, 'f) hello_reply call_phase \<Rightarrow> bool" where
  "phase_ok L s user (On_way bs) \<longleftrightarrow> bs = HelloRequest_InternalSerialize L (request_for L user) []"
| "phase_ok L s user (At_server t) \<longleftrightarrow> name_at L s t = user"
| "phase_ok L s user (Coming_back bs) \<longleftrightarrow>
     (\<exists>r. bs = HelloReply_InternalSerialize L r [] \<and> HelloReply_message L r = ''Hello '' @ user)"
| "phase_ok L s user (Answered r) \<longleftrightarrow> HelloReply_message L r = ''Hello '' @ user"
| "phase_ok L s user ph \<longleftrightarrow> True"

text \<open>The parsers read the messages of a good user to the end.\<close>

lemma good_request_read:
  assumes "lib_ok L" and "good_user L user" and "phase_ok L s user (On_way bs)"
    and "HelloRequest_InternalParse L fuel (HelloRequest L None) bs = Some (req, e)"
  shows "parsed_whole e"
proof -
  have "bs = HelloRequest_InternalSerialize L (HelloRequest_set_name L user (HelloRequest L None)) []"
    using assms(3) by (simp add: request_for_def)
  moreover have "fits user" "verify_utf8 L user" using assms(2) by (simp_all add: good_user_def fits_def)
  ultimately show ?thesis using request_on_wire(2) assms(1,4) unfolding parsed_whole_def by blast
qed

lemma good_reply_read:
  assumes "lib_ok L" and "good_user L user" and "phase_ok L s user (Coming_back bs)"
    and "HelloReply_InternalParse L fuel (HelloReply L None) bs = Some (r, e)"
  shows "parsed_whole e"
proof -
  obtain r' where r': "bs = HelloReply_InternalSerialize L r' []" "HelloReply_message L r' = ''Hello '' @ user"
    using assms(3) by auto
  then have "fits (HelloReply_message L r')" "verify_utf8 L (HelloReply_message L r')"
    using assms(2) by (simp_all only: good_user_def)
  then show ?thesis using reply_on_wire(2) assms(1,4) r'(1) unfolding parsed_whole_def by blast
qed

fun phase_tag :: "'r call_phase \<Rightarrow> nat multiset" where
  "phase_tag (At_server t) = {#t#}"
| "phase_tag (Given_up t) = {#t#}"
| "phase_tag ph = {#}"

definition call_tags :: "'r call list \<Rightarrow> nat multiset" where
  "call_tags cs = (\<Sum>c\<leftarrow>cs. phase_tag (call_phase c))"

text \<open>
  The objects that serve a call and the calls at the server are the same, one to one, and a call is
  with the object that has its user's name.
\<close>

definition gn_inv :: "('p, 'f) protobuf_lib \<Rightarrow> ('p, 'f) greeter_net \<Rightarrow> bool" where
  "gn_inv L n \<longleftrightarrow> threads_inv L (gn_server n) \<and> call_tags (gn_calls n) = in_hand (gn_server n)
     \<and> (\<forall>c\<in>set (gn_calls n). good_user L (call_user c) \<longrightarrow> phase_ok L (mt_server (gn_server n)) (call_user c) (call_phase c))"

lemma call_tags_mem: "c \<in> set cs \<Longrightarrow> t \<in># phase_tag (call_phase c) \<Longrightarrow> t \<in># call_tags cs"
  by (induction cs) (auto simp: call_tags_def)

lemma call_tags_update:
  "k < length cs \<Longrightarrow> call_tags (cs[k := c]) + phase_tag (call_phase (cs ! k)) = call_tags cs + phase_tag (call_phase c)"
  unfolding call_tags_def by (rule sum_list_map_update)

lemma phase_ok_cong:
  "(\<And>t. t \<in># phase_tag ph \<Longrightarrow> name_at L s' t = name_at L s t) \<Longrightarrow> phase_ok L s' user ph = phase_ok L s user ph"
  by (cases ph) auto

text \<open>One call changes its phase, perhaps together with the server.\<close>

lemma gn_inv_change:
  assumes inv: "gn_inv L n" and k: "k < length (gn_calls n)" and "threads_inv L srv"
    and tags: "in_hand srv + phase_tag (phase_of n k) = in_hand (gn_server n) + phase_tag ph"
    and names: "\<And>t. t \<in># in_hand (gn_server n) \<Longrightarrow> name_at L (mt_server srv) t = name_at L (mt_server (gn_server n)) t"
    and ph: "good_user L (call_user (gn_calls n ! k)) \<Longrightarrow> phase_ok L (mt_server (gn_server n)) (call_user (gn_calls n ! k)) (phase_of n k) \<Longrightarrow>
      phase_ok L (mt_server srv) (call_user (gn_calls n ! k)) ph"
  shows "gn_inv L ((set_phase k ph n)\<lparr>gn_server := srv\<rparr>)"
proof -
  let ?c = "gn_calls n ! k" and ?cs = "(gn_calls n)[k := (gn_calls n ! k)\<lparr>call_phase := ph\<rparr>]"
  have old: "phase_ok L (mt_server (gn_server n)) (call_user c) (call_phase c)"
    if "c \<in> set (gn_calls n)" "good_user L (call_user c)" for c
    using inv that by (simp add: gn_inv_def)
  have "phase_ok L (mt_server srv) (call_user c) (call_phase c)"
    if "c \<in> set (gn_calls n)" "good_user L (call_user c)" for c
  proof -
    have "phase_ok L (mt_server srv) (call_user c) (call_phase c) = phase_ok L (mt_server (gn_server n)) (call_user c) (call_phase c)"
      using inv call_tags_mem [OF that(1)] by (intro phase_ok_cong names) (simp add: gn_inv_def)
    then show ?thesis using old that by simp
  qed
  moreover have "good_user L (call_user ?c) \<Longrightarrow> phase_ok L (mt_server srv) (call_user ?c) ph"
    using ph old [OF nth_mem [OF k]] by blast
  ultimately have "\<forall>c\<in>set ?cs. good_user L (call_user c) \<longrightarrow> phase_ok L (mt_server srv) (call_user c) (call_phase c)"
    using set_update_subset_insert [of "gn_calls n" k "?c\<lparr>call_phase := ph\<rparr>"] by auto
  moreover have "call_tags ?cs = in_hand srv"
    using call_tags_update [OF k, of "?c\<lparr>call_phase := ph\<rparr>"] tags inv by (simp add: gn_inv_def)
      (metis add_right_cancel)
  ultimately show ?thesis using assms(3) by (simp add: gn_inv_def set_phase_def)
qed

text \<open>A client's own step leaves the server alone.\<close>

lemma gn_inv_client:
  assumes "gn_inv L n" and "k < length (gn_calls n)" and "phase_tag ph = phase_tag (phase_of n k)"
    and "good_user L (call_user (gn_calls n ! k)) \<Longrightarrow> phase_ok L (mt_server (gn_server n)) (call_user (gn_calls n ! k)) (phase_of n k) \<Longrightarrow>
      phase_ok L (mt_server (gn_server n)) (call_user (gn_calls n ! k)) ph"
  shows "gn_inv L (set_phase k ph n)"
proof -
  have "gn_inv L ((set_phase k ph n)\<lparr>gn_server := gn_server n\<rparr>)"
    using assms by (intro gn_inv_change) (simp_all add: gn_inv_def)
  then show ?thesis by (simp add: set_phase_def)
qed

lemma gn_arrive_inv:
  assumes inv: "gn_inv L n" and L: "lib_ok L" and k: "k < length (gn_calls n)" and ph: "phase_of n k = On_way bs"
    and t: "t \<in> set (requested (mt_server (gn_server n)))" "heap (mt_server (gn_server n)) t = Some cd"
    and parse: "HelloRequest_InternalParse L fuel (HelloRequest L None) bs = Some (req, e)"
  shows "gn_inv L ((set_phase k (At_server t) n)\<lparr>gn_server := call_arrives t req cd (gn_server n)\<rparr>)"
proof (rule gn_inv_change [OF inv k])
  have threads: "threads_inv L (gn_server n)" using inv by (simp add: gn_inv_def)
  show "threads_inv L (call_arrives t req cd (gn_server n))" by (rule arrive_keeps [OF threads t])
  note hand = arrive_hand(1) [OF threads t] arrive_hand(2) [OF threads t, of req]
  show "in_hand (call_arrives t req cd (gn_server n)) + phase_tag (phase_of n k) = in_hand (gn_server n) + phase_tag (At_server t)"
    by (simp add: arrive_moves(1) [OF threads t] ph)
  show "name_at L (mt_server (call_arrives t req cd (gn_server n))) u = name_at L (mt_server (gn_server n)) u"
    if "u \<in># in_hand (gn_server n)" for u using hand that by auto
  assume good: "good_user L (call_user (gn_calls n ! k))"
    and "phase_ok L (mt_server (gn_server n)) (call_user (gn_calls n ! k)) (phase_of n k)"
  then have "bs = HelloRequest_InternalSerialize L (request_for L (call_user (gn_calls n ! k))) []" by (simp add: ph)
  with parse request_on_wire(1) [OF L, of "call_user (gn_calls n ! k)" bs fuel req e] good
  have "HelloRequest_name L req = call_user (gn_calls n ! k)" by (simp add: good_user_def request_for_def fits_def)
  then show "phase_ok L (mt_server (call_arrives t req cd (gn_server n))) (call_user (gn_calls n ! k)) (At_server t)"
    by (simp add: hand(2))
qed

lemma gn_finish_inv:
  assumes inv: "gn_inv L n" and k: "k < length (gn_calls n)" and at: "phase_tag (phase_of n k) = {#t#}"
    and t: "(t, r) \<in> set (finishing (mt_server (gn_server n)))" and ans: "\<forall>(n, m)\<in>set ans. m = ''Hello '' @ n"
    and ph: "phase_tag ph = {#}" "good_user L (call_user (gn_calls n ! k)) \<Longrightarrow>
      phase_ok L (mt_server (gn_server n)) (call_user (gn_calls n ! k)) (phase_of n k) \<Longrightarrow> phase_ok L srv (call_user (gn_calls n ! k)) ph"
  shows "gn_inv L ((set_phase k ph n)\<lparr>gn_server := reply_done t r ok ans (gn_server n)\<rparr>)"
proof (rule gn_inv_change [OF inv k])
  have threads: "threads_inv L (gn_server n)" using inv by (simp add: gn_inv_def)
  note moves = finished_moves [OF threads t, where ok = ok and ans = ans]
  show "threads_inv L (reply_done t r ok ans (gn_server n))" by (rule finished_keeps [OF threads t ans])
  show "in_hand (reply_done t r ok ans (gn_server n)) + phase_tag (phase_of n k) = in_hand (gn_server n) + phase_tag ph"
    by (simp add: at ph(1) moves(1))
  show "name_at L (mt_server (reply_done t r ok ans (gn_server n))) u = name_at L (mt_server (gn_server n)) u" for u
    by (simp add: finished_names [OF moves(3)])
  show "phase_ok L (mt_server (reply_done t r ok ans (gn_server n))) (call_user (gn_calls n ! k)) ph"
    if "good_user L (call_user (gn_calls n ! k))"
      "phase_ok L (mt_server (gn_server n)) (call_user (gn_calls n ! k)) (phase_of n k)"
    using ph(2) [OF that] phase_ok_cong [of ph L "mt_server (reply_done t r ok ans (gn_server n))" srv] ph(1) by simp
qed

lemma gn_step_inv:
  assumes "gn_step L n n'" and inv: "gn_inv L n" and L: "lib_ok L"
  shows "gn_inv L n'"
  using assms(1)
proof cases
  case (start user)
  then show ?thesis using inv by (simp add: start_call_def gn_inv_def call_tags_def)
next
  case (arrive k bs t cd fuel req e)
  then show ?thesis using gn_arrive_inv inv L by blast
next
  case (reject k bs t fuel req e)
  then show ?thesis unfolding reject(1) by (intro gn_inv_client [OF inv reject(2)]) auto
next
  case (threads s)
  have "threads_inv L (gn_server n)" "cell_ok L" using inv L by (simp_all add: gn_inv_def lib_ok_def)
  note hand = threads_move_hand [OF threads(2) this] and inv' = threads_move_inv [OF threads(2) this]
  have "phase_ok L (mt_server s) (call_user c) (call_phase c) = phase_ok L (mt_server (gn_server n)) (call_user c) (call_phase c)"
    if "c \<in> set (gn_calls n)" for c
    using inv call_tags_mem [OF that] by (intro phase_ok_cong hand(2)) (simp add: gn_inv_def)
  then show ?thesis using inv inv' hand(1) by (simp add: threads(1) gn_inv_def)
next
  case (sent k t r cd)
  have "threads_inv L (gn_server n)" using inv by (simp add: gn_inv_def)
  note message = reply_out_message [OF this sent(4,5)]
  have "name_at L (mt_server (gn_server n)) t = HelloRequest_name L (cd_request cd)" using sent(5) by (simp add: name_at_def)
  with message sent(3) show ?thesis unfolding sent(1)
    by (intro gn_finish_inv [OF inv sent(2) _ sent(4), where srv = "mt_server (gn_server n)"]) auto
next
  case (call_dead k t r)
  then show ?thesis unfolding call_dead(1)
    by (intro gn_finish_inv [OF inv call_dead(2) _ call_dead(4), where srv = "mt_server (gn_server n)"]) auto
next
  case (deliver k bs fuel r e)
  have "HelloReply_message L r = ''Hello '' @ user"
    if "good_user L user" and "bs = HelloReply_InternalSerialize L r' []" and "HelloReply_message L r' = ''Hello '' @ user" for user r'
    using reply_on_wire(1) [OF L, of r' bs fuel r e] deliver(4) that by (simp add: good_user_def)
  with deliver(3) show ?thesis unfolding deliver(1) by (intro gn_inv_client [OF inv deliver(2)]) auto
next
  case (give_up k t)
  then show ?thesis using gn_inv_client [OF inv give_up(2)] by simp
next
  case (lose k bs)
  then show ?thesis unfolding lose(1) by (intro gn_inv_client [OF inv lose(2)]) auto
qed

lemma gn_begin_inv: "gn_inv L (gn_begin threads)"
  using threads_begin_inv [of L threads] by (simp add: gn_inv_def gn_begin_def call_tags_def in_hand_begin)

lemma gn_run_inv: "(gn_step L)\<^sup>*\<^sup>* (gn_begin threads) n \<Longrightarrow> lib_ok L \<Longrightarrow> gn_inv L n"
  by (induction rule: rtranclp_induct) (auto intro: gn_begin_inv gn_step_inv)

section \<open>What \<open>SayHello\<close> returns\<close>

text \<open>
  The runtime as one call sees it, when it is over: \<open>Finish\<close> of the client completes with the tag
  and \<open>ok = true\<close>, with the status and, if that is good, with the parsed reply.
\<close>

definition call_over :: "'r call_phase \<Rightarrow> bool" where
  "call_over ph \<longleftrightarrow> (case ph of Answered r \<Rightarrow> True | Given_up t \<Rightarrow> True | Rpc_failed \<Rightarrow> True | _ \<Rightarrow> False)"

definition call_runtime :: "'rep call_phase \<Rightarrow> (unit, 'req, 'req, 'rep) grpc_client_lib" where
  "call_runtime ph = \<lparr>reader_create = (\<lambda>ch m req. req), StartCall = (\<lambda>c. c),
     Finish_next = (\<lambda>req reply tag. \<lparr>next_returned = True, got_tag = tag, got_ok = True,
        rpc_status = (case ph of Answered r \<Rightarrow> Status_ok | _ \<Rightarrow> Failed_status),
        reply_after = (case ph of Answered r \<Rightarrow> r | _ \<Rightarrow> reply)\<rparr>),
     BlockingUnaryCall = (\<lambda>ch m req reply. (Failed_status, reply))\<rparr>"

lemma SayHello_over:
  assumes "call_over ph"
  shows "SayHello L (call_runtime ph) (GreeterClient ()) user =
    Inr (case ph of Answered r \<Rightarrow> HelloReply_message L r | _ \<Rightarrow> ''RPC failed'')"
  using assms
  by (cases ph) (simp_all add: SayHello_def Let_def call_runtime_def call_over_def)

section \<open>Properties\<close>

text \<open>
  C2. End to end for all: whatever any number of clients, the threads of the server and the runtime
  do, \<open>SayHello\<close> of every call that is over has returned \<open>Hello\<close> and the call's own user if it was
  answered, and \<open>RPC failed\<close> otherwise; no client gets the greeting of another.
\<close>

theorem every_call_answered_with_its_name:
  assumes "lib_ok L" and "(gn_step L)\<^sup>*\<^sup>* (gn_begin threads) n" and "c \<in> set (gn_calls n)"
    and "good_user L (call_user c)" and "call_over (call_phase c)"
  shows "SayHello L (call_runtime (call_phase c)) (GreeterClient ()) (call_user c) =
    Inr (case call_phase c of Answered r \<Rightarrow> ''Hello '' @ call_user c | _ \<Rightarrow> ''RPC failed'')"
proof -
  have "phase_ok L (mt_server (gn_server n)) (call_user c) (call_phase c)"
    using gn_run_inv [OF assms(2,1)] assms(3,4) by (simp add: gn_inv_def)
  then show ?thesis using SayHello_over [OF assms(5), of L] by (cases "call_phase c") simp_all
qed

text \<open>
  C21. The calls at the server and the objects that serve them are matched one to one: an object serves
  at most one call, every call that has come and is not answered is with a live object, and no
  object serves a call that is not there.
\<close>

theorem calls_matched_with_objects:
  assumes "lib_ok L" and "(gn_step L)\<^sup>*\<^sup>* (gn_begin threads) n"
  shows "call_tags (gn_calls n) = in_hand (gn_server n)
     \<and> (\<forall>t. count (call_tags (gn_calls n)) t \<le> (if heap (mt_server (gn_server n)) t = None then 0 else 1))"
proof -
  let ?s = "mt_server (gn_server n)" and ?pcs = "mt_pcs (gn_server n)"
  have inv: "threads_inv L (gn_server n)" and tags: "call_tags (gn_calls n) = in_hand (gn_server n)"
    using gn_run_inv [OF assms(2,1)] by (simp_all add: gn_inv_def)
  have "over_threads (serving_pc ?s) pcs \<subseteq># owners pcs" for pcs
  proof (induction pcs)
    case (Cons pc pcs)
    have "serving_pc ?s pc \<subseteq># owned pc" by (cases pc) (simp_all split: option.splits)
    then show ?case using Cons by (simp add: over_threads_def owners_def subset_mset.add_mono)
  qed (simp add: over_threads_def)
  then have threads: "count (over_threads (serving_pc ?s) ?pcs) t \<le> count (owners ?pcs) t" for t by (rule mset_subset_eq_count)
  have "count (call_tags (gn_calls n)) t \<le> count (tags ?s + owners ?pcs) t" for t
  proof -
    have "count (arrived ?s) t \<le> count (mset (map fst (events ?s))) t" by (simp add: arrived_def)
    with threads [of t] show ?thesis unfolding tags in_hand_def tags_def count_union by linarith
  qed
  then show ?thesis using inv tags by (simp add: threads_inv_def held_once_def)
qed

subsection \<open>Names that are not text\<close>

text \<open>The request with such a name is one that the parser gives up.\<close>

definition bad_user :: "('p, 'f) protobuf_lib \<Rightarrow> bytes \<Rightarrow> bool" where
  "bad_user L user \<longleftrightarrow> fits user \<and> user \<noteq> [] \<and> \<not> verify_utf8 L user"

lemma bad_request_given_up:
  assumes "lib_ok L" and "bad_user L user"
    and "HelloRequest_InternalParse L fuel (HelloRequest L None) (HelloRequest_InternalSerialize L (request_for L user) []) = Some (req, e)"
  shows "\<not> parsed_whole e"
proof -
  have L: "cell_ok L" "wire_ok L" using assms(1) by (simp_all add: lib_ok_def)
  then have "HelloRequest_InternalSerialize L (request_for L user) [] = write_string L 1 user @ []"
    using assms(2) by (simp add: HelloRequest_InternalSerialize_def HelloRequest_name_def request_for_def HelloRequest_set_name_def
        HelloRequest_def HelloRequest_SharedCtor_def cell_ok_def bad_user_def)
  then show ?thesis
    using assms(2,3) HelloRequest_rejects_bad_utf8 [OF L(2), of user _ "HelloRequest L None" "[]"]
    by (cases fuel) (auto simp: bad_user_def parsed_whole_def)
qed

definition bad_kept :: "('p, 'f) protobuf_lib \<Rightarrow> ('p, 'f) hello_reply call \<Rightarrow> bool" where
  "bad_kept L c \<longleftrightarrow> (bad_user L (call_user c) \<longrightarrow>
     call_phase c \<in> {On_way (HelloRequest_InternalSerialize L (request_for L (call_user c)) []), Rpc_failed})"

lemma bad_kept_phase:
  assumes "\<forall>c\<in>set (gn_calls n). bad_kept L c" and "k < length (gn_calls n)"
    and "bad_user L (call_user (gn_calls n ! k)) \<Longrightarrow> bad_kept L (gn_calls n ! k) \<Longrightarrow> ph = Rpc_failed"
  shows "\<forall>c\<in>set (gn_calls (set_phase k ph n)). bad_kept L c"
proof -
  have "bad_kept L ((gn_calls n ! k)\<lparr>call_phase := ph\<rparr>)"
    using assms(3) assms(1) nth_mem [OF assms(2)] by (auto simp: bad_kept_def)
  then show ?thesis
    using assms(1) set_update_subset_insert [of "gn_calls n" k] by (auto simp: set_phase_def)
qed

lemma bad_kept_step:
  assumes "gn_step L n n'" and "\<forall>c\<in>set (gn_calls n). bad_kept L c" and L: "lib_ok L"
  shows "\<forall>c\<in>set (gn_calls n'). bad_kept L c"
  using assms(1)
proof cases
  case (start user)
  then show ?thesis using assms(2) by (auto simp: start_call_def bad_kept_def)
next
  case (arrive k bs t cd fuel req e)
  have "\<forall>c\<in>set (gn_calls (set_phase k (At_server t) n)). bad_kept L c"
    using bad_request_given_up [OF L] arrive by (intro bad_kept_phase [OF assms(2) arrive(2)]) (fastforce simp: bad_kept_def)
  then show ?thesis by (simp add: arrive(1))
next
  case (reject k bs t fuel req e)
  then show ?thesis using bad_kept_phase [OF assms(2) reject(2)] by simp
next
  case (threads s)
  then show ?thesis using assms(2) by simp
next
  case (sent k t r cd)
  have "\<forall>c\<in>set (gn_calls (set_phase k (if phase_of n k = At_server t then Coming_back (HelloReply_InternalSerialize L r []) else Rpc_failed) n)).
      bad_kept L c"
    using sent(3) by (intro bad_kept_phase [OF assms(2) sent(2)]) (auto simp: bad_kept_def)
  then show ?thesis by (simp add: sent(1))
next
  case (call_dead k t r)
  then show ?thesis using bad_kept_phase [OF assms(2) call_dead(2), of Rpc_failed] by simp
next
  case (deliver k bs fuel r e)
  then show ?thesis unfolding deliver(1) by (intro bad_kept_phase [OF assms(2) deliver(2)]) (auto simp: bad_kept_def)
next
  case (give_up k t)
  then show ?thesis unfolding give_up(1) by (intro bad_kept_phase [OF assms(2) give_up(2)]) (auto simp: bad_kept_def)
next
  case (lose k bs)
  then show ?thesis using bad_kept_phase [OF assms(2) lose(2)] by simp
qed

text \<open>
  C34. A name that is not text fails its call: whatever clients, threads and runtime do, a request with
  such a name is never handed to an object of the server; it is on its way or has failed, and then
  \<open>SayHello\<close> has returned \<open>RPC failed\<close>.
\<close>

theorem bad_name_never_served:
  assumes "lib_ok L" and "(gn_step L)\<^sup>*\<^sup>* (gn_begin threads) n" and "c \<in> set (gn_calls n)"
    and "fits (call_user c)" and "call_user c \<noteq> []" and "\<not> verify_utf8 L (call_user c)"
  shows "(\<exists>bs. call_phase c = On_way bs)
     \<or> call_phase c = Rpc_failed \<and> SayHello L (call_runtime (call_phase c)) (GreeterClient ()) (call_user c) = Inr ''RPC failed''"
proof -
  from assms(2) have "\<forall>c\<in>set (gn_calls n). bad_kept L c"
    by (induction rule: rtranclp_induct) (simp add: gn_begin_def, use bad_kept_step assms(1) in blast)
  then have "call_phase c \<in> {On_way (HelloRequest_InternalSerialize L (request_for L (call_user c)) []), Rpc_failed}"
    using assms(3-6) by (simp add: bad_kept_def bad_user_def)
  then show ?thesis using SayHello_over [of Rpc_failed L "call_user c"] by (auto simp: call_over_def)
qed

text \<open>One thread and one call, from the first step to the answer: a run for the witnesses.\<close>

lemma gn_moves:
  "(threads_move L)\<^sup>*\<^sup>* s s' \<Longrightarrow> (gn_step L)\<^sup>*\<^sup>* \<lparr>gn_server = s, gn_calls = cs\<rparr> \<lparr>gn_server = s', gn_calls = cs\<rparr>"
proof (induction rule: rtranclp_induct)
  case (step y z)
  then show ?case using gn_step.threads [of L "\<lparr>gn_server = y, gn_calls = cs\<rparr>" z] by (auto intro: rtranclp.rtrancl_into_rtrancl)
qed simp

lemma one_thread_ready:
  "(threads_move wire_lib)\<^sup>*\<^sup>* (threads_begin 1) \<lparr>mt_server = HandleRpcs_begin wire_lib 1, mt_pcs = [Th_next]\<rparr>"
proof -
  have "steps_allowed wire_lib [1, 2, 2] (Th_begin, empty_server)"
    by (simp add: empty_server_def aborted_def new_object_def at_object_def put_def)
  moreover have "thread_steps wire_lib [1, 2, 2] (Th_begin, empty_server) = (Th_next, HandleRpcs_begin wire_lib 1)"
    by (simp add: at_object_def put_def new_object_def HandleRpcs_begin_def CallData_eq empty_server_def)
  ultimately show ?thesis
    using alone_moves by (fastforce simp: threads_begin_def)
qed

lemma world_served:
  assumes m1: "HelloRequest_name wire_lib m1 = ''world''"
  shows "\<exists>srv. (threads_move wire_lib)\<^sup>*\<^sup>*
      (call_arrives 1 m1 ((new_object wire_lib)\<lparr>cd_status := PROCESS\<rparr>) \<lparr>mt_server = HandleRpcs_begin wire_lib 1, mt_pcs = [Th_next]\<rparr>)
      \<lparr>mt_server = srv, mt_pcs = [Th_next]\<rparr>
    \<and> (1, world_reply) \<in> set (finishing srv) \<and> heap srv 1 \<noteq> None"
proof -
  let ?cd = "(new_object wire_lib)\<lparr>cd_status := PROCESS, cd_request := m1\<rparr>"
  let ?start = "call_arrives 1 m1 ((new_object wire_lib)\<lparr>cd_status := PROCESS\<rparr>) \<lparr>mt_server = HandleRpcs_begin wire_lib 1, mt_pcs = [Th_next]\<rparr>"
  let ?s = "\<lparr>heap = [1 \<mapsto> ?cd], requested = [], finishing = [], events = [], answered = []\<rparr>"
  note defs = HandleRpcs_begin_def CallData_eq call_arrives_def new_object_def at_object_def put_def aborted_def
  have "threads_move wire_lib ?start \<lparr>mt_server = ?s, mt_pcs = [Th_got 1 True]\<rparr>"
    using threads_move.take_event [of 0 ?start 1 True wire_lib] by (simp add: defs taken_def)
  moreover obtain srv where run: "thread_steps wire_lib [3, 2, 3, 3, 3, 3, 3] (Th_got 1 True, ?s) = (Th_next, srv)"
    and fin: "finishing srv = [(1, HelloReply_set_message wire_lib (''Hello '' @ HelloRequest_name wire_lib m1) (HelloReply wire_lib None))]"
      "heap srv 1 \<noteq> None"
    by (simp add: defs)
  have "steps_allowed wire_lib [3, 2, 3, 3, 3, 3, 3] (Th_got 1 True, ?s)" by (simp add: defs)
  from alone_moves [OF this run] have "(threads_move wire_lib)\<^sup>*\<^sup>* \<lparr>mt_server = ?s, mt_pcs = [Th_got 1 True]\<rparr> \<lparr>mt_server = srv, mt_pcs = [Th_next]\<rparr>" .
  ultimately show ?thesis using fin m1 by (auto simp: world_reply_def intro: converse_rtranclp_into_rtranclp)
qed

lemma world_call_arrives:
  assumes m1: "HelloRequest_InternalParse wire_lib 20 (HelloRequest wire_lib None)
      (HelloRequest_InternalSerialize wire_lib world_request []) = Some (m1, Some [], None)"
  shows "(gn_step wire_lib)\<^sup>*\<^sup>* (gn_begin 1)
    \<lparr>gn_server = call_arrives 1 m1 ((new_object wire_lib)\<lparr>cd_status := PROCESS\<rparr>)
        \<lparr>mt_server = HandleRpcs_begin wire_lib 1, mt_pcs = [Th_next]\<rparr>,
     gn_calls = [\<lparr>call_user = ''world'', call_phase = At_server 1\<rparr>]\<rparr>"
proof -
  let ?bs = "HelloRequest_InternalSerialize wire_lib world_request []"
  let ?n = "\<lambda>s ph. \<lparr>gn_server = s, gn_calls = [\<lparr>call_user = ''world'', call_phase = ph\<rparr>]\<rparr>"
  let ?s1 = "\<lparr>mt_server = HandleRpcs_begin wire_lib 1, mt_pcs = [Th_next]\<rparr>"
  let ?cd = "(new_object wire_lib)\<lparr>cd_status := PROCESS\<rparr>"
  have "(gn_step wire_lib)\<^sup>*\<^sup>* (gn_begin 1) \<lparr>gn_server = ?s1, gn_calls = []\<rparr>"
    using gn_moves [OF one_thread_ready] by (simp add: gn_begin_def)
  moreover have "gn_step wire_lib \<lparr>gn_server = ?s1, gn_calls = []\<rparr> (?n ?s1 (On_way ?bs))"
    using gn_step.start [of wire_lib "\<lparr>gn_server = ?s1, gn_calls = []\<rparr>" "''world''"]
    by (simp add: start_call_def request_for_def world_request_def)
  moreover have "gn_step wire_lib (?n ?s1 (On_way ?bs)) (?n (call_arrives 1 m1 ?cd ?s1) (At_server 1))"
    using gn_step.arrive [of 0 "?n ?s1 (On_way ?bs)" ?bs 1 ?cd wire_lib 20 m1 "(Some [], None)"] m1
    by (simp add: set_phase_def HandleRpcs_begin_def CallData_eq new_object_def parsed_whole_def)
  ultimately show ?thesis by (meson rtranclp.rtrancl_into_rtrancl)
qed

lemma world_call_runs:
  "\<exists>n r. (gn_step wire_lib)\<^sup>*\<^sup>* (gn_begin 1) n \<and> gn_calls n = [\<lparr>call_user = ''world'', call_phase = Answered r\<rparr>]"
proof -
  let ?bs = "HelloRequest_InternalSerialize wire_lib world_request []"
  let ?c = "\<lambda>ph. [\<lparr>call_user = ''world'', call_phase = ph\<rparr>]"
  let ?n = "\<lambda>s ph. \<lparr>gn_server = s, gn_calls = ?c ph\<rparr>"
  let ?s1 = "\<lparr>mt_server = HandleRpcs_begin wire_lib 1, mt_pcs = [Th_next]\<rparr>"
  let ?cd = "(new_object wire_lib)\<lparr>cd_status := PROCESS\<rparr>"
  obtain m1 where m1: "HelloRequest_InternalParse wire_lib 20 (HelloRequest wire_lib None) ?bs = Some (m1, Some [], None)"
    "HelloRequest_name wire_lib m1 = ''world''"
    using world_request_parses by blast
  obtain srv where served: "(threads_move wire_lib)\<^sup>*\<^sup>* (call_arrives 1 m1 ?cd ?s1) \<lparr>mt_server = srv, mt_pcs = [Th_next]\<rparr>"
    and fin: "(1, world_reply) \<in> set (finishing srv)" "heap srv 1 \<noteq> None"
    using world_served [OF m1(2)] by blast
  obtain m2 where m2: "HelloReply_InternalParse wire_lib 20 (HelloReply wire_lib None)
      (HelloReply_InternalSerialize wire_lib world_reply []) = Some (m2, Some [], None)"
    using world_reply_parses by blast
  obtain cd where cd: "heap srv 1 = Some cd" using fin(2) by blast
  have "(gn_step wire_lib)\<^sup>*\<^sup>* (gn_begin 1) (?n (call_arrives 1 m1 ?cd ?s1) (At_server 1))"
    by (rule world_call_arrives [OF m1(1)])
  moreover have "(gn_step wire_lib)\<^sup>*\<^sup>* (?n (call_arrives 1 m1 ?cd ?s1) (At_server 1)) (?n \<lparr>mt_server = srv, mt_pcs = [Th_next]\<rparr> (At_server 1))"
    by (rule gn_moves [OF served])
  moreover obtain s2 where "gn_step wire_lib (?n \<lparr>mt_server = srv, mt_pcs = [Th_next]\<rparr> (At_server 1))
      (?n s2 (Coming_back (HelloReply_InternalSerialize wire_lib world_reply [])))"
    using gn_step.sent [of 0 "?n \<lparr>mt_server = srv, mt_pcs = [Th_next]\<rparr> (At_server 1)" 1 world_reply cd wire_lib] fin(1) cd
    by (fastforce simp: set_phase_def)
  moreover have "gn_step wire_lib (?n s2 (Coming_back (HelloReply_InternalSerialize wire_lib world_reply []))) (?n s2 (Answered m2))"
    using gn_step.deliver [of 0 "?n s2 (Coming_back (HelloReply_InternalSerialize wire_lib world_reply []))"
        "HelloReply_InternalSerialize wire_lib world_reply []" wire_lib 20 m2 "(Some [], None)"] m2
    by (simp add: set_phase_def parsed_whole_def)
  ultimately have "(gn_step wire_lib)\<^sup>*\<^sup>* (gn_begin 1) (?n s2 (Answered m2))"
    by (meson rtranclp.rtrancl_into_rtrancl rtranclp_trans)
  then show ?thesis by (intro exI [of _ "?n s2 (Answered m2)"] exI [of _ m2]) simp
qed

theorem every_call_answered_with_its_name_witness:
  "\<exists>r. SayHello wire_lib (call_runtime (Answered r)) (GreeterClient ()) ''world'' = Inr ''Hello world''"
proof -
  obtain n r where n: "(gn_step wire_lib)\<^sup>*\<^sup>* (gn_begin 1) n" "gn_calls n = [\<lparr>call_user = ''world'', call_phase = Answered r\<rparr>]"
    using world_call_runs by blast
  from every_call_answered_with_its_name [OF wire_lib_ok n(1), of "\<lparr>call_user = ''world'', call_phase = Answered r\<rparr>"] n(2)
  show ?thesis by (intro exI [of _ r]) (simp add: good_user_def fits_def wire_lib_def ascii_def call_over_def)
qed

theorem bad_name_never_served_witness:
  "\<exists>n. (gn_step wire_lib)\<^sup>*\<^sup>* (gn_begin 1) n \<and> phase_of n 0 = Rpc_failed
     \<and> SayHello wire_lib (call_runtime (phase_of n 0)) (GreeterClient ()) [CHR 0xFF] = Inr ''RPC failed''"
proof -
  let ?s1 = "\<lparr>mt_server = HandleRpcs_begin wire_lib 1, mt_pcs = [Th_next]\<rparr>"
  let ?n0 = "\<lparr>gn_server = ?s1, gn_calls = []\<rparr>"
  let ?n1 = "start_call wire_lib [CHR 0xFF] ?n0" and ?bs = "HelloRequest_InternalSerialize wire_lib (request_for wire_lib [CHR 0xFF]) []"
  let ?n2 = "set_phase 0 Rpc_failed ?n1"
  have bad: "bad_user wire_lib [CHR 0xFF]" by (simp add: bad_user_def fits_def wire_lib_def ascii_def)
  obtain req e where parse: "HelloRequest_InternalParse wire_lib (Suc (length ?bs)) (HelloRequest wire_lib None) ?bs = Some (req, e)"
    using req.parse_terminates [OF wire_progress_ok, of ?bs "Suc (length ?bs)" "HelloRequest wire_lib None"] by auto
  have "gn_step wire_lib ?n1 ?n2"
    using bad_request_given_up [OF wire_lib_ok bad parse]
    by (intro gn_step.reject [OF _ _ _ parse, of _ _ 1]) (simp_all add: start_call_def HandleRpcs_begin_def CallData_eq)
  moreover have "(gn_step wire_lib)\<^sup>*\<^sup>* (gn_begin 1) ?n0" using gn_moves [OF one_thread_ready] by (simp add: gn_begin_def)
  ultimately have run: "(gn_step wire_lib)\<^sup>*\<^sup>* (gn_begin 1) ?n2"
    using gn_step.start [of wire_lib ?n0 "[CHR 0xFF]"] by (meson rtranclp.rtrancl_into_rtrancl)
  have c: "gn_calls ?n2 = [\<lparr>call_user = [CHR 0xFF], call_phase = Rpc_failed\<rparr>]" by (simp add: start_call_def set_phase_def)
  with bad_name_never_served [OF wire_lib_ok run, of "\<lparr>call_user = [CHR 0xFF], call_phase = Rpc_failed\<rparr>"] bad run show ?thesis
    by (intro exI [of _ ?n2]) (simp add: bad_user_def)
qed

theorem calls_matched_with_objects_witness:
  "\<exists>n. (gn_step wire_lib)\<^sup>*\<^sup>* (gn_begin 1) n \<and> call_tags (gn_calls n) = {#1#} \<and> in_hand (gn_server n) = {#1#}"
proof -
  obtain m1 where m1: "HelloRequest_InternalParse wire_lib 20 (HelloRequest wire_lib None)
      (HelloRequest_InternalSerialize wire_lib world_request []) = Some (m1, Some [], None)"
    using world_request_parses by blast
  let ?n = "\<lparr>gn_server = call_arrives 1 m1 ((new_object wire_lib)\<lparr>cd_status := PROCESS\<rparr>)
        \<lparr>mt_server = HandleRpcs_begin wire_lib 1, mt_pcs = [Th_next]\<rparr>,
     gn_calls = [\<lparr>call_user = ''world'', call_phase = At_server 1\<rparr>]\<rparr>"
  have "call_tags (gn_calls ?n) = {#1#}" by (simp add: call_tags_def)
  moreover from this have "in_hand (gn_server ?n) = {#1#}"
    using calls_matched_with_objects [OF wire_lib_ok world_call_arrives [OF m1]] by simp
  ultimately show ?thesis using world_call_arrives [OF m1] by blast
qed

end
