(* ===== verification/Greeter_Progress.thy ===== *)
theory Greeter_Progress
  imports Greeter_Network Greeter_Run
begin

text \<open>
  What the threads of \<open>HandleRpcs\<close> in \<open>include/greeter_async_server.h\<close> get done, whatever the
  scheduling: left alone they come to rest after a bounded number of steps, with every call
  processed; the calls of the clients can always be answered; and once the destructor of
  \<open>ServerImpl\<close> shuts the server down, which the header says it does not handle, every run ends at an
  assertion of \<open>HandleRpcs\<close>, in whatever thread.
\<close>

section \<open>The work that is left\<close>

text \<open>For a thread, and, in \<open>event_weight\<close>, for an event.\<close>

fun pc_work :: "('p, 'f) greeter_server \<Rightarrow> thread_pc \<Rightarrow> nat" where
  "pc_work s Th_begin = 8"
| "pc_work s (Th_create t k) = (case k of None \<Rightarrow> 7 | Some u \<Rightarrow> 15)"
| "pc_work s (Th_request t k) = (case k of None \<Rightarrow> 6 | Some u \<Rightarrow> 14)"
| "pc_work s (Th_got t ok) = (if ok \<and> in_status s PROCESS t then 17 else 2)"
| "pc_work s (Th_process t) = 16"
| "pc_work s (Th_reply t) = 8"
| "pc_work s (Th_status t) = 7"
| "pc_work s (Th_finish t) = 6"
| "pc_work s (Th_delete t) = 1"
| "pc_work s pc = 0"

definition threads_work :: "('p, 'f) threads_sys \<Rightarrow> nat" where
  "threads_work s = over_threads (pc_work (mt_server s)) (mt_pcs s)
     + 5 * length (requested (mt_server s)) + 5 * length (finishing (mt_server s))
     + 4 * sum_list (map (event_weight (mt_server s)) (events (mt_server s)))"

text \<open>A thread that neither waits nor has stopped.\<close>

fun busy :: "thread_pc \<Rightarrow> bool" where
  "busy Th_next \<longleftrightarrow> False"
| "busy (Th_abort t) \<longleftrightarrow> False"
| "busy Th_fault \<longleftrightarrow> False"
| "busy pc \<longleftrightarrow> True"

lemma thread_step_idle: "\<not> busy pc \<Longrightarrow> thread_step L a pc s = (pc, s)"
  by (cases pc) simp_all

lemma thread_step_work:
  assumes "thread_step L a pc s = (pc', s')" and "pc_ok L s pc" and "busy pc"
  shows "pc_work s' pc' + 5 * length (requested s') + 5 * length (finishing s')
    < pc_work s pc + 5 * length (requested s) + 5 * length (finishing s)"
  using assms
  by (cases pc) (auto simp: at_object_def put_def in_status_def event_status_ok_def split: option.splits if_splits)

lemma pc_work_cong:
  "(\<And>t. t \<in># owned pc \<Longrightarrow> heap s' t = heap s t) \<Longrightarrow> pc_work s' pc = pc_work s pc"
  by (cases pc) (simp_all add: in_status_def)

lemma run_work:
  assumes "threads_inv L s" and "i < length (mt_pcs s)" and "heap (mt_server s) a = None"
    and "thread_step L a (mt_pcs s ! i) (mt_server s) = (pc, srv)" and "busy (mt_pcs s ! i)"
  shows "threads_work (s\<lparr>mt_server := srv, mt_pcs := (mt_pcs s)[i := pc]\<rparr>) < threads_work s"
proof -
  let ?s = "mt_server s"
  note frame = run_frame [OF assms(1-4)] and same = thread_step_events [OF assms(4)]
  have "pc_ok L ?s (mt_pcs s ! i)" using assms(1) nth_mem [OF assms(2)] by (simp add: threads_inv_def)
  note less = thread_step_work [OF assms(4) this assms(5)]
  have "over_threads (pc_work srv) ((mt_pcs s)[i := pc]) + pc_work ?s (mt_pcs s ! i)
      = over_threads (pc_work ?s) (mt_pcs s) + pc_work srv pc"
    by (rule over_threads_update [OF assms(2)]) (rule pc_work_cong, rule frame(2))
  moreover have "sum_list (map (event_weight srv) (events ?s)) = sum_list (map (event_weight ?s) (events ?s))"
    by (rule event_weight_cong) (use frame(1) in \<open>force simp: in_status_def tags_def\<close>)
  ultimately show ?thesis using less same by (simp add: threads_work_def)
qed

lemma work_status:
  assumes "in_status s' = in_status s"
  shows "over_threads (pc_work s') pcs = over_threads (pc_work s) pcs" and "event_weight s' = event_weight s"
proof -
  have "pc_work s' pc = pc_work s pc" for pc by (cases pc) (simp_all add: assms)
  then show "over_threads (pc_work s') pcs = over_threads (pc_work s) pcs" by (rule over_threads_cong)
  show "event_weight s' = event_weight s" by (simp add: event_weight_def assms fun_eq_iff)
qed

lemma take_event_work:
  assumes "i < length (mt_pcs s)" and "mt_pcs s ! i = Th_next" and "(t, ok) \<in> set (events (mt_server s))"
  shows "threads_work (s\<lparr>mt_server := taken (mt_server s) t ok, mt_pcs := (mt_pcs s)[i := Th_got t ok]\<rparr>) < threads_work s"
proof -
  let ?s = "mt_server s" and ?srv = "taken (mt_server s) t ok"
  have st: "in_status ?srv = in_status ?s" by (simp add: in_status_def fun_eq_iff)
  have "over_threads (pc_work ?srv) ((mt_pcs s)[i := Th_got t ok]) = over_threads (pc_work ?s) (mt_pcs s) + pc_work ?s (Th_got t ok)"
    using over_threads_update [OF assms(1), of "pc_work ?s" "pc_work ?s" "Th_got t ok"] assms(2) by (simp add: work_status(1) [OF st])
  moreover have "sum_list (map (event_weight ?s) (events ?s)) = event_weight ?s (t, ok) + sum_list (map (event_weight ?srv) (events ?srv))"
    using sum_list_remove1 [OF assms(3), of "event_weight ?s"] by (simp add: work_status(2) [OF st]) (simp add: taken_def)
  ultimately show ?thesis by (simp add: threads_work_def) (simp add: taken_def event_weight_def)
qed

section \<open>Threads alone\<close>

text \<open>A thread does something.\<close>

definition threads_act :: "('p, 'f) protobuf_lib \<Rightarrow> ('p, 'f) threads_sys \<Rightarrow> ('p, 'f) threads_sys \<Rightarrow> bool" where
  "threads_act L s s' \<longleftrightarrow> threads_move L s s' \<and> s' \<noteq> s"

lemma threads_act_work:
  assumes "threads_act L s s'" and "threads_inv L s"
  shows "threads_work s' < threads_work s"
proof -
  from assms(1) have "threads_move L s s'" "s' \<noteq> s" by (simp_all add: threads_act_def)
  then show ?thesis
  proof cases
    case (take_event i t ok)
    then show ?thesis using take_event_work by blast
  next
    case (run i a pc srv)
    have "busy (mt_pcs s ! i)"
      using run(1,5) \<open>s' \<noteq> s\<close> thread_step_idle [of "mt_pcs s ! i" L a "mt_server s"] by (cases s) (cases "busy (mt_pcs s ! i)"; auto)
    then show ?thesis using run run_work [OF assms(2) run(2,3,5)] by simp
  qed
qed

definition at_rest :: "('p, 'f) threads_sys \<Rightarrow> bool" where
  "at_rest s \<longleftrightarrow> aborted (mt_pcs s) \<or> set (mt_pcs s) \<subseteq> {Th_next} \<and> (mt_pcs s = [] \<or> events (mt_server s) = [])"

lemma fresh_address:
  assumes "threads_inv L s"
  obtains a where "heap (mt_server s) a = None"
proof -
  let ?M = "tags (mt_server s) + owners (mt_pcs s)"
  have "t \<in># ?M" if "heap (mt_server s) t \<noteq> None" for t
  proof -
    have "count ?M t = 1" using assms that by (simp add: threads_inv_def held_once_def)
    then show ?thesis by (metis count_eq_zero_iff zero_neq_one)
  qed
  then have "{t. heap (mt_server s) t \<noteq> None} \<subseteq> set_mset ?M" by blast
  then have "finite {t. heap (mt_server s) t \<noteq> None}" using finite_subset finite_set_mset by blast
  then show ?thesis using that ex_new_if_finite [of "{t. heap (mt_server s) t \<noteq> None}"] by auto
qed

lemma threads_progress:
  assumes inv: "threads_inv L s" and "\<not> at_rest s"
  shows "\<exists>s'. threads_act L s s'"
proof -
  have up: "\<not> aborted (mt_pcs s)" using assms(2) by (simp add: at_rest_def)
  have no_fault: "Th_fault \<notin> set (mt_pcs s)" using inv by (auto simp: threads_inv_def)
  consider i where "i < length (mt_pcs s)" "busy (mt_pcs s ! i)" | e where "mt_pcs s ! 0 = Th_next" "mt_pcs s \<noteq> []" "e \<in> set (events (mt_server s))"
  proof (cases "\<exists>pc\<in>set (mt_pcs s). busy pc")
    case False
    have "pc = Th_next" if "pc \<in> set (mt_pcs s)" for pc
      using False that no_fault up by (cases pc) (auto simp: aborted_def list_ex_iff)
    moreover from this have "mt_pcs s \<noteq> []" "events (mt_server s) \<noteq> []" using assms(2) by (auto simp: at_rest_def)
    ultimately show ?thesis using that(2) by (metis last_in_set length_greater_0_conv nth_mem)
  qed (use that(1) in \<open>auto simp: in_set_conv_nth\<close>)
  then show ?thesis
  proof cases
    case (1 i)
    obtain a where a: "heap (mt_server s) a = None" using fresh_address [OF inv] .
    obtain pc srv where step: "thread_step L a (mt_pcs s ! i) (mt_server s) = (pc, srv)" by fastforce
    show ?thesis
      using threads_move.run [OF 1(1) a up step] run_work [OF inv 1(1) a step 1(2)] by (fastforce simp: threads_act_def)
  next
    case (2 e)
    obtain t ok where e: "e = (t, ok)" by fastforce
    show ?thesis
      using threads_move.take_event [of 0 s t ok L] take_event_work [of 0 s t ok] 2 up e by (fastforce simp: threads_act_def)
  qed
qed

interpretation threads_acts: quiescing "threads_act L" "\<lambda>s. cell_ok L \<and> threads_inv L s" threads_work at_rest for L
  by unfold_locales (use threads_act_work threads_progress threads_move_inv threads_act_def in metis)+

text \<open>At rest no event is pending, or the process is gone.\<close>

lemma pcs_kept: "threads_move L s s' \<Longrightarrow> length (mt_pcs s') = length (mt_pcs s)"
  by (induction rule: threads_move.induct) simp_all

lemma pcs_kept_step: "threads_step L s s' \<Longrightarrow> length (mt_pcs s') = length (mt_pcs s)"
  by (induction rule: threads_step.induct) (simp_all add: pcs_kept call_arrives_def reply_done_def)

lemma pcs_kept_run: "(threads_step L)\<^sup>*\<^sup>* s s' \<Longrightarrow> length (mt_pcs s') = length (mt_pcs s)"
  by (induction rule: rtranclp_induct) (simp_all add: pcs_kept_step)

lemma acts_steps: "(threads_act L)\<^sup>*\<^sup>* s s' \<Longrightarrow> (threads_step L)\<^sup>*\<^sup>* s s'"
  by (induction rule: rtranclp_induct) (auto simp: threads_act_def intro: rtranclp.rtrancl_into_rtrancl threads_step.move)

lemma acts_keep:
  assumes "(threads_act L)\<^sup>*\<^sup>* s s'" and "threads_inv L s" and "cell_ok L"
  shows "in_hand s' = in_hand s \<and> failed_objects s' = failed_objects s"
  using assms(1)
proof (induction rule: rtranclp_induct)
  case (step s1 s2)
  have "threads_inv L s1" using threads_acts.inv_along [OF step.hyps(1)] assms(2,3) by blast
  moreover have move: "threads_move L s1 s2" using step.hyps(2) by (simp add: threads_act_def)
  ultimately show ?case using step.IH threads_move_hand(1) [OF move _ assms(3)] threads_move_failed [OF move] by simp
qed simp

lemma idle_pcs:
  assumes "set pcs \<subseteq> {Th_next}"
  shows "over_threads (serving_pc s) pcs = {#}" and "over_threads (waiting_pc s) pcs = {#}"
    and "\<Union> (failed_pc ` set pcs) = {}" and "begun pcs = length pcs"
  using assms by (induction pcs) (auto simp: over_threads_def begun_def)

lemma aborted_iff: "aborted pcs \<longleftrightarrow> (\<exists>t. Th_abort t \<in> set pcs)"
  by (induction pcs) (auto simp: aborted_def split: thread_pc.splits)

lemma aborted_failed: "aborted (mt_pcs s) \<Longrightarrow> failed_objects s \<noteq> {}"
  by (force simp: aborted_iff failed_objects_def)

lemma rest_up:
  assumes "at_rest s" and "\<not> aborted (mt_pcs s)" and "mt_pcs s \<noteq> []" and "size (waiting s) = begun (mt_pcs s)"
  shows "set (mt_pcs s) = {Th_next}" and "events (mt_server s) = []" and "failed_objects s = {}"
    and "length (requested (mt_server s)) = length (mt_pcs s)" and "mset (map fst (finishing (mt_server s))) = in_hand s"
proof -
  have pcs: "set (mt_pcs s) \<subseteq> {Th_next}" and ev: "events (mt_server s) = []" using assms(1-3) by (auto simp: at_rest_def)
  show "set (mt_pcs s) = {Th_next}" using pcs assms(3) by (cases "mt_pcs s") auto
  show "events (mt_server s) = []" by (rule ev)
  show "failed_objects s = {}" using idle_pcs(3) [OF pcs] ev by (simp add: failed_objects_def)
  show "length (requested (mt_server s)) = length (mt_pcs s)"
    using assms(4) by (simp add: waiting_def arrived_def ev idle_pcs [OF pcs])
  show "mset (map fst (finishing (mt_server s))) = in_hand s" by (simp add: in_hand_def arrived_def ev idle_pcs [OF pcs])
qed

lemma rest_stops: "at_rest s \<Longrightarrow> \<not> threads_act L s s'"
proof
  assume rest: "at_rest s" and "threads_act L s s'"
  then have "threads_move L s s'" "s' \<noteq> s" by (simp_all add: threads_act_def)
  then show False
  proof cases
    case (take_event i t ok)
    then show False using rest by (auto simp: at_rest_def)
  next
    case (run i a pc srv)
    then have "set (mt_pcs s) \<subseteq> {Th_next}" using rest by (simp add: at_rest_def)
    then have "mt_pcs s ! i = Th_next" using nth_mem [OF run(2)] by blast
    then show False using run(1,2,5) \<open>s' \<noteq> s\<close> list_update_id [of "mt_pcs s" i] by (cases s) simp
  qed
qed

lemma pc_work_bound: "over_threads (pc_work s) pcs \<le> 17 * length pcs"
proof (induction pcs)
  case (Cons pc pcs)
  have "pc_work s pc \<le> 17" by (cases pc) (simp_all split: option.splits)
  with Cons show ?case by (simp add: over_threads_def)
qed (simp add: over_threads_def)

lemma threads_work_bound: "threads_work s \<le> 20 * (size (tags (mt_server s)) + length (mt_pcs s))"
proof -
  have "sum_list (map (event_weight (mt_server s)) es) \<le> 5 * length es" for es
    by (induction es) (auto simp: event_weight_def)
  from this [of "events (mt_server s)"] pc_work_bound [of "mt_server s" "mt_pcs s"] show ?thesis
    by (simp add: threads_work_def tags_def)
qed

section \<open>Shutting down\<close>

text \<open>
  The threads while the destructor of \<open>ServerImpl\<close> runs: the calls it has still to return from, the
  first of them under way; whether the server and the queue have been told to shut down; whether
  \<open>Next\<close> has returned \<open>false\<close> to a thread, which fails the first assertion of \<open>HandleRpcs\<close>.
\<close>

record ('p, 'f) closing =
  cl_threads :: "('p, 'f) threads_sys"
  cl_calls :: "shutdown_call list"
  cl_server_down :: bool
  cl_queue_down :: bool
  cl_next_failed :: bool

definition make_calls :: "shutdown_call list \<Rightarrow> ('p, 'f) closing \<Rightarrow> ('p, 'f) closing" where
  "make_calls calls c =
     (case calls of
        [] \<Rightarrow> c\<lparr>cl_calls := []\<rparr>
      | Server_Shutdown # _ \<Rightarrow> c\<lparr>cl_calls := calls, cl_server_down := True\<rparr>
      | Queue_Shutdown # _ \<Rightarrow> c\<lparr>cl_calls := calls, cl_queue_down := True\<rparr>)"

definition closing_begin :: "shutdown_call list \<Rightarrow> ('p, 'f) threads_sys \<Rightarrow> ('p, 'f) closing" where
  "closing_begin calls s = make_calls calls
     \<lparr>cl_threads = s, cl_calls = [], cl_server_down = False, cl_queue_down = False, cl_next_failed = False\<rparr>"

text \<open>\<open>Server::Shutdown\<close> returns when no call is in hand any more; the queue's returns at once.\<close>

fun call_returns :: "shutdown_call \<Rightarrow> ('p, 'f) threads_sys \<Rightarrow> bool" where
  "call_returns Server_Shutdown s \<longleftrightarrow> in_hand s = {#}"
| "call_returns Queue_Shutdown s \<longleftrightarrow> True"

definition refuse :: "nat \<Rightarrow> ('p, 'f) threads_sys \<Rightarrow> ('p, 'f) threads_sys" where
  "refuse t s = s\<lparr>mt_server := (mt_server s)\<lparr>requested := remove1 t (requested (mt_server s)),
     events := events (mt_server s) @ [(t, False)]\<rparr>\<rparr>"

definition drained :: "('p, 'f) greeter_server \<Rightarrow> bool" where
  "drained s \<longleftrightarrow> requested s = [] \<and> finishing s = [] \<and> events s = []"

definition process_gone :: "('p, 'f) closing \<Rightarrow> bool" where
  "process_gone c \<longleftrightarrow> aborted (mt_pcs (cl_threads c)) \<or> cl_next_failed c"

text \<open>
  While the server is up calls arrive; once it has been shut down the calls that are asked for, and
  those that \<open>Proceed\<close> still asks for, complete with \<open>ok = false\<close> instead. The replies under way
  and the threads go on as before. \<open>Next\<close> returns \<open>false\<close> only on a queue that has been shut down and
  has nothing left in it or to come.
\<close>

inductive closing_step ::
  "('p, 'f) protobuf_lib \<Rightarrow> ('p, 'f) closing \<Rightarrow> ('p, 'f) closing \<Rightarrow> bool" for L where
  arrive: "\<not> process_gone c \<Longrightarrow> \<not> cl_server_down c \<Longrightarrow> t \<in> set (requested (mt_server (cl_threads c))) \<Longrightarrow>
    heap (mt_server (cl_threads c)) t = Some cd \<Longrightarrow>
    closing_step L c (c\<lparr>cl_threads := call_arrives t req cd (cl_threads c)\<rparr>)"
| refused: "\<not> process_gone c \<Longrightarrow> cl_server_down c \<Longrightarrow> t \<in> set (requested (mt_server (cl_threads c))) \<Longrightarrow>
    closing_step L c (c\<lparr>cl_threads := refuse t (cl_threads c)\<rparr>)"
| sent: "\<not> process_gone c \<Longrightarrow> (t, r) \<in> set (finishing (mt_server (cl_threads c))) \<Longrightarrow>
    heap (mt_server (cl_threads c)) t = Some cd \<Longrightarrow>
    closing_step L c (c\<lparr>cl_threads :=
      reply_done t r True [(HelloRequest_name L (cd_request cd), HelloReply_message L r)] (cl_threads c)\<rparr>)"
| call_dead: "\<not> process_gone c \<Longrightarrow> (t, r) \<in> set (finishing (mt_server (cl_threads c))) \<Longrightarrow>
    closing_step L c (c\<lparr>cl_threads := reply_done t r False [] (cl_threads c)\<rparr>)"
| act: "\<not> process_gone c \<Longrightarrow> threads_act L (cl_threads c) s \<Longrightarrow> closing_step L c (c\<lparr>cl_threads := s\<rparr>)"
| returned: "\<not> process_gone c \<Longrightarrow> cl_calls c = call # calls \<Longrightarrow> call_returns call (cl_threads c) \<Longrightarrow>
    closing_step L c (make_calls calls c)"
| next_false: "\<not> process_gone c \<Longrightarrow> cl_queue_down c \<Longrightarrow> Th_next \<in> set (mt_pcs (cl_threads c)) \<Longrightarrow>
    drained (mt_server (cl_threads c)) \<Longrightarrow> closing_step L c (c\<lparr>cl_next_failed := True\<rparr>)"

definition serving_inv :: "('p, 'f) protobuf_lib \<Rightarrow> ('p, 'f) threads_sys \<Rightarrow> bool" where
  "serving_inv L s \<longleftrightarrow> cell_ok L \<and> threads_inv L s \<and> size (waiting s) = begun (mt_pcs s) \<and> mt_pcs s \<noteq> []"

lemma refuse_keeps:
  assumes "serving_inv L s" and "t \<in> set (requested (mt_server s))"
  shows "serving_inv L (refuse t s)"
proof -
  let ?s = "mt_server s" and ?srv = "mt_server (refuse t s)"
  have st: "in_status ?srv = in_status ?s" "reply_out L ?srv = reply_out L ?s"
    by (simp_all add: refuse_def in_status_def reply_out_def fun_eq_iff)
  have once: "mset (requested ?s) = add_mset t (mset (remove1 t (requested ?s)))" using assms(2) by simp
  have rt: "runtime_ok L ?s" using assms(1) by (simp add: serving_inv_def threads_inv_def)
  then have p: "in_status ?s PROCESS t" using assms(2) by (simp add: runtime_ok_def)
  have "threads_inv L (s\<lparr>mt_server := ?srv\<rparr>)"
  proof (rule runtime_inv)
    show "tags ?srv = tags ?s" using once by (simp add: refuse_def tags_def)
    show "runtime_ok L ?srv"
      using rt p unfolding runtime_ok_def event_status_ok_def st by (auto simp: refuse_def dest: set_remove1_mem)
  qed (use assms(1) in \<open>simp_all add: serving_inv_def refuse_def\<close>)
  moreover have "mset (requested ?srv) + arrived ?srv = mset (requested ?s) + arrived ?s"
    using once p unfolding arrived_def st by (simp add: refuse_def)
  then have "waiting (s\<lparr>mt_server := ?srv\<rparr>) = waiting s"
    by (simp add: waiting_def over_threads_status [OF st(1)])
  moreover have "refuse t s = s\<lparr>mt_server := ?srv\<rparr>" "mt_pcs (refuse t s) = mt_pcs s" by (simp_all add: refuse_def)
  ultimately show ?thesis using assms(1) by (simp add: serving_inv_def)
qed

lemma refused_work:
  assumes "t \<in> set (requested (mt_server s))" and "in_status (mt_server s) PROCESS t"
  shows "threads_work (refuse t s) < threads_work s"
proof -
  have st: "in_status (mt_server (refuse t s)) = in_status (mt_server s)" by (simp add: refuse_def in_status_def fun_eq_iff)
  have "length (requested (mt_server s)) = Suc (length (remove1 t (requested (mt_server s))))"
    by (rule length_remove1_Suc [OF assms(1)])
  then show ?thesis by (simp add: threads_work_def work_status [OF st]) (simp add: refuse_def event_weight_def)
qed

lemma finished_work:
  assumes "threads_inv L s" and "(t, r) \<in> set (finishing (mt_server s))"
  shows "threads_work (reply_done t r ok ans s) < threads_work s"
proof -
  let ?s = "mt_server s" and ?srv = "mt_server (reply_done t r ok ans s)"
  have "heap ?srv = heap ?s" by (simp add: reply_done_def)
  then have st: "in_status ?srv = in_status ?s" by (simp add: in_status_def fun_eq_iff)
  have "reply_out L ?s (t, r)" using assms by (auto simp: threads_inv_def runtime_ok_def)
  then have "event_weight ?s (t, ok) = 1" by (auto simp: event_weight_def reply_out_def in_status_def split: option.splits)
  moreover have "length (finishing ?s) = Suc (length (remove1 (t, r) (finishing ?s)))"
    by (rule length_remove1_Suc [OF assms(2)])
  ultimately show ?thesis by (simp add: threads_work_def work_status [OF st]) (simp add: reply_done_def)
qed

lemma step_serves:
  assumes "threads_step L s s'" and "serving_inv L s"
  shows "serving_inv L s'"
proof -
  have "mt_pcs s' \<noteq> []" using pcs_kept_step [OF assms(1)] assms(2) by (metis length_0_conv serving_inv_def)
  then show ?thesis
    using assms threads_step_inv [OF assms(1)] threads_step_waiting [OF assms(1)] by (simp add: serving_inv_def)
qed

lemma begin_serves: "cell_ok L \<Longrightarrow> 0 < n \<Longrightarrow> serving_inv L (threads_begin n)"
  using threads_begin_inv [of L n] waiting_begin [of n] by (simp add: serving_inv_def) (simp add: threads_begin_def)

lemma run_serves: "(threads_step L)\<^sup>*\<^sup>* (threads_begin n) s \<Longrightarrow> cell_ok L \<Longrightarrow> 0 < n \<Longrightarrow> serving_inv L s"
  by (induction rule: rtranclp_induct) (auto intro: begin_serves step_serves)

text \<open>Once the server has been told to shut down.\<close>

definition closing_inv :: "('p, 'f) protobuf_lib \<Rightarrow> ('p, 'f) closing \<Rightarrow> bool" where
  "closing_inv L c \<longleftrightarrow> cl_server_down c \<and> serving_inv L (cl_threads c)"

definition closing_work :: "('p, 'f) closing \<Rightarrow> nat" where
  "closing_work c = threads_work (cl_threads c) + length (cl_calls c) + (if cl_next_failed c then 0 else 1)"

lemma make_calls_simps [simp]:
  "cl_threads (make_calls calls c) = cl_threads c" "cl_calls (make_calls calls c) = calls"
  "cl_next_failed (make_calls calls c) = cl_next_failed c"
  by (simp_all add: make_calls_def split: list.split shutdown_call.split)

lemma make_calls_down: "cl_server_down c \<Longrightarrow> cl_server_down (make_calls calls c)"
  by (simp add: make_calls_def split: list.split shutdown_call.split)

lemma closing_kept:
  assumes "closing_step L c c'" and "closing_inv L c"
  shows "closing_inv L c' \<and> closing_work c' < closing_work c"
proof -
  have inv: "threads_inv L (cl_threads c)" using assms(2) by (simp add: closing_inv_def serving_inv_def)
  from assms(1) show ?thesis
  proof cases
    case (refused t)
    have "in_status (mt_server (cl_threads c)) PROCESS t"
      using assms(2) refused(4) by (simp add: closing_inv_def serving_inv_def threads_inv_def runtime_ok_def)
    then show ?thesis
      using refused refused_work [OF refused(4)] refuse_keeps [OF _ refused(4)] assms(2)
      by (simp add: closing_inv_def closing_work_def)
  next
    case (sent t r cd)
    then show ?thesis
      using finished_work [OF inv sent(3)] step_serves [OF threads_step.sent [OF sent(3,4)]] assms(2)
      by (simp add: closing_inv_def closing_work_def)
  next
    case (call_dead t r)
    then show ?thesis
      using finished_work [OF inv call_dead(3)] step_serves [OF threads_step.call_dead [OF call_dead(3)]] assms(2)
      by (simp add: closing_inv_def closing_work_def)
  next
    case (act s)
    then have "serving_inv L s" using step_serves [OF threads_step.move] assms(2) unfolding threads_act_def closing_inv_def by blast
    moreover have "threads_work s < threads_work (cl_threads c)"
      using threads_act_work [OF act(3)] assms(2) by (simp add: closing_inv_def serving_inv_def)
    ultimately show ?thesis using act assms(2) by (simp add: closing_inv_def closing_work_def)
  next
    case (returned call calls)
    then show ?thesis using make_calls_down [of c calls] assms(2) by (simp add: closing_inv_def closing_work_def)
  qed (use assms(2) in \<open>simp_all add: closing_inv_def closing_work_def process_gone_def\<close>)
qed

lemma closing_progress:
  assumes "closing_inv L c"
  shows "process_gone c \<or> (\<exists>c'. closing_step L c c')"
proof (cases "process_gone c \<or> \<not> at_rest (cl_threads c)")
  case True
  then show ?thesis
    using threads_progress closing_step.act assms unfolding closing_inv_def serving_inv_def by metis
next
  case False
  then have "length (requested (mt_server (cl_threads c))) = length (mt_pcs (cl_threads c))" "mt_pcs (cl_threads c) \<noteq> []"
    using rest_up(4) assms by (auto simp: closing_inv_def serving_inv_def process_gone_def)
  then obtain t where "t \<in> set (requested (mt_server (cl_threads c)))" by (cases "requested (mt_server (cl_threads c))") auto
  then show ?thesis using closing_step.refused assms closing_inv_def by blast
qed

interpretation closings: quiescing "closing_step L" "closing_inv L" closing_work process_gone for L
  by unfold_locales (use closing_kept closing_progress in blast)+

section \<open>Properties of the threads\<close>

text \<open>
  C13. Left to themselves the threads come to rest, however they are scheduled: from any state they
  take at most twenty steps for each of them and for each object that is out, and they stop only
  where an event had failed and one of them is at the assertion, or where all of them wait for an
  event, none is pending, each has left one object that asks for a call, and the reply to every
  call in hand is on its way.
\<close>

theorem HandleRpcs_threads_at_rest:
  assumes "(threads_step L)\<^sup>*\<^sup>* (threads_begin n) s" and "cell_ok L" and "0 < n" and "(threads_act L ^^ k) s s'"
  shows "k \<le> 20 * (size (tags (mt_server s)) + n)
     \<and> ((\<exists>s''. threads_act L s' s'')
        \<or> (if failed_objects s \<noteq> {} then aborted (mt_pcs s')
           else set (mt_pcs s') = {Th_next} \<and> events (mt_server s') = [] \<and> length (requested (mt_server s')) = n
             \<and> mset (map fst (finishing (mt_server s'))) = in_hand s))"
proof -
  note run = relpowp_imp_rtranclp [OF assms(4)]
  have len: "length (mt_pcs s) = n" using pcs_kept_run [OF assms(1)] by (simp add: threads_begin_def)
  have inv: "serving_inv L s" "serving_inv L s'"
    using run_serves [OF _ assms(2,3)] assms(1) acts_steps [OF run] by (blast intro: rtranclp_trans)+
  then have "k \<le> threads_work s" using threads_acts.run_bound [OF assms(4)] by (simp add: serving_inv_def)
  then have bound: "k \<le> 20 * (size (tags (mt_server s)) + n)" using threads_work_bound [of s] len by simp
  have keep: "in_hand s' = in_hand s" "failed_objects s' = failed_objects s"
    using acts_keep [OF run _ assms(2)] inv(1) by (simp_all add: serving_inv_def)
  consider "at_rest s'" "aborted (mt_pcs s')" | "at_rest s'" "\<not> aborted (mt_pcs s')" | "\<exists>s''. threads_act L s' s''"
    using threads_progress [of L s'] inv(2) by (auto simp: serving_inv_def)
  then show ?thesis
  proof cases
    case 1
    then show ?thesis using bound aborted_failed keep(2) by metis
  next
    case 2
    have "length (mt_pcs s') = n" using pcs_kept_run [OF acts_steps [OF run]] len by simp
    then show ?thesis using rest_up [OF 2] inv(2) bound keep by (simp add: serving_inv_def)
  qed (use bound in blast)
qed


section \<open>Every call can be answered\<close>

text \<open>The server of a network of clients runs as the threads do.\<close>

lemma gn_step_server: "gn_step L n n' \<Longrightarrow> (threads_step L)\<^sup>*\<^sup>* (gn_server n) (gn_server n')"
proof (induction rule: gn_step.induct)
  case (arrive k n bs t cd fuel req e)
  then show ?case using threads_step.arrive by fastforce
next
  case (threads n s)
  then show ?case using threads_step.move by fastforce
next
  case (sent k n t r cd)
  then show ?case using threads_step.sent by fastforce
next
  case (call_dead k n t r)
  then show ?case using threads_step.call_dead by fastforce
qed (simp_all add: start_call_def set_phase_def)

lemma gn_run_server: "(gn_step L)\<^sup>*\<^sup>* n n' \<Longrightarrow> (threads_step L)\<^sup>*\<^sup>* (gn_server n) (gn_server n')"
  by (induction rule: rtranclp_induct) (auto intro: rtranclp_trans gn_step_server)

lemma gn_acts:
  "(threads_act L)\<^sup>*\<^sup>* s s' \<Longrightarrow> gn_server n = s \<Longrightarrow> (gn_step L)\<^sup>*\<^sup>* n (n\<lparr>gn_server := s'\<rparr>)"
proof (induction rule: rtranclp_induct)
  case (step s1 s2)
  then have "gn_step L (n\<lparr>gn_server := s1\<rparr>) (n\<lparr>gn_server := s2\<rparr>)"
    using gn_step.threads [of L "n\<lparr>gn_server := s1\<rparr>" s2] by (simp add: threads_act_def)
  with step show ?case by (meson rtranclp.rtrancl_into_rtrancl)
next
  case base
  then show ?case by (cases n) simp
qed

text \<open>A state of the network in which nothing has failed at the server, and the same with its threads at rest.\<close>

definition gn_up :: "('p, 'f) protobuf_lib \<Rightarrow> ('p, 'f) greeter_net \<Rightarrow> bool" where
  "gn_up L n \<longleftrightarrow> lib_ok L \<and> gn_inv L n \<and> serving_inv L (gn_server n) \<and> failed_objects (gn_server n) = {}"

lemma gn_up_step:
  assumes "gn_step L n n'" and "gn_up L n" and "failed_objects (gn_server n') = {}"
  shows "gn_up L n'"
proof -
  have "serving_inv L (gn_server n')"
    using gn_step_server [OF assms(1)] assms(2) by (induction rule: rtranclp_induct) (auto simp: gn_up_def intro: step_serves)
  then show ?thesis using assms gn_step_inv [OF assms(1)] by (simp add: gn_up_def)
qed

lemma gn_rest:
  assumes "gn_up L n"
  obtains s where "(gn_step L)\<^sup>*\<^sup>* n (n\<lparr>gn_server := s\<rparr>)" and "gn_up L (n\<lparr>gn_server := s\<rparr>)"
    and "requested (mt_server s) \<noteq> []" and "mset (map fst (finishing (mt_server s))) = call_tags (gn_calls n)"
proof -
  have inv: "cell_ok L" "threads_inv L (gn_server n)" "serving_inv L (gn_server n)" "failed_objects (gn_server n) = {}"
    and tags: "call_tags (gn_calls n) = in_hand (gn_server n)"
    using assms by (simp_all add: gn_up_def serving_inv_def gn_inv_def)
  obtain s where s: "(threads_act L)\<^sup>*\<^sup>* (gn_server n) s" "at_rest s"
    using threads_acts.rest_reached inv(1,2) by blast
  note keep = acts_keep [OF s(1) inv(2,1)]
  have serves: "serving_inv L s"
    using acts_steps [OF s(1)] inv(3) by (induction rule: rtranclp_induct) (auto intro: step_serves)
  then have "\<not> aborted (mt_pcs s)" "mt_pcs s \<noteq> []" "size (waiting s) = begun (mt_pcs s)"
    using aborted_failed keep inv(4) by (auto simp: serving_inv_def)
  note rest = rest_up [OF s(2) this]
  have run: "(gn_step L)\<^sup>*\<^sup>* n (n\<lparr>gn_server := s\<rparr>)" by (rule gn_acts [OF s(1) refl])
  then have "gn_inv L (n\<lparr>gn_server := s\<rparr>)"
    using assms by (induction rule: rtranclp_induct) (auto simp: gn_up_def intro: gn_step_inv)
  then have "gn_up L (n\<lparr>gn_server := s\<rparr>)" using assms serves rest(3) by (simp add: gn_up_def)
  moreover have "requested (mt_server s) \<noteq> []" using rest(4) \<open>mt_pcs s \<noteq> []\<close> by auto
  ultimately show ?thesis using that run rest(5) keep tags by simp
qed

text \<open>
  What the runtime can do for a call: the parsers return on all bytes, and they read the messages of
  a user that is text to the end.
\<close>

lemma arrive_step:
  assumes L: "lib_ok L" and inv: "gn_inv L n" and "requested (mt_server (gn_server n)) \<noteq> []"
    and k: "k < length (gn_calls n)" "phase_of n k = On_way bs"
  shows "(\<exists>t req cd. t \<in> set (requested (mt_server (gn_server n))) \<and> heap (mt_server (gn_server n)) t = Some cd
      \<and> gn_step L n ((set_phase k (At_server t) n)\<lparr>gn_server := call_arrives t req cd (gn_server n)\<rparr>))
    \<or> \<not> good_user L (call_user (gn_calls n ! k)) \<and> gn_step L n (set_phase k Rpc_failed n)"
proof -
  obtain t where t: "t \<in> set (requested (mt_server (gn_server n)))" using assms(3) by (cases "requested (mt_server (gn_server n))") auto
  then have "in_status (mt_server (gn_server n)) PROCESS t" using inv by (simp add: gn_inv_def threads_inv_def runtime_ok_def)
  then obtain cd where cd: "heap (mt_server (gn_server n)) t = Some cd" by (rule in_status_cases)
  have "progress_ok L" using L by (simp add: lib_ok_def)
  from req.parse_terminates [OF this, of bs "Suc (length bs)" "HelloRequest L None"] obtain req e
    where parse: "HelloRequest_InternalParse L (Suc (length bs)) (HelloRequest L None) bs = Some (req, e)" by auto
  show ?thesis
  proof (cases "parsed_whole e")
    case True
    from gn_step.arrive [OF k t cd parse this] t cd show ?thesis by blast
  next
    case False
    have "phase_ok L (mt_server (gn_server n)) (call_user (gn_calls n ! k)) (On_way bs)"
      if "good_user L (call_user (gn_calls n ! k))"
      using inv nth_mem [OF k(1)] that k(2) by (metis gn_inv_def)
    then have "\<not> good_user L (call_user (gn_calls n ! k))"
      using False good_request_read [OF L _ _ parse] by blast
    then show ?thesis using gn_step.reject [OF k t parse False] by blast
  qed
qed

lemma sent_step:
  assumes "threads_inv L (gn_server n)" and "t \<in> fst ` set (finishing (mt_server (gn_server n)))"
    and "k < length (gn_calls n)" and "phase_of n k \<in> {At_server t, Given_up t}"
  shows "\<exists>r ans. (t, r) \<in> set (finishing (mt_server (gn_server n))) \<and> gn_step L n ((set_phase k
      (if phase_of n k = At_server t then Coming_back (HelloReply_InternalSerialize L r []) else Rpc_failed) n)
    \<lparr>gn_server := reply_done t r True ans (gn_server n)\<rparr>)"
proof -
  obtain r where r: "(t, r) \<in> set (finishing (mt_server (gn_server n)))" using assms(2) by auto
  then have "reply_out L (mt_server (gn_server n)) (t, r)" using assms(1) by (auto simp: threads_inv_def runtime_ok_def)
  then obtain cd where cd: "heap (mt_server (gn_server n)) t = Some cd" by (auto simp: reply_out_def split: option.splits)
  from gn_step.sent [OF assms(3,4) r cd] r show ?thesis by blast
qed

lemma deliver_step:
  assumes L: "lib_ok L" and inv: "gn_inv L n" and k: "k < length (gn_calls n)" "phase_of n k = Coming_back bs"
  shows "(\<exists>r. gn_step L n (set_phase k (Answered r) n))
    \<or> \<not> good_user L (call_user (gn_calls n ! k)) \<and> gn_step L n (set_phase k Rpc_failed n)"
proof -
  have "progress_ok L" using L by (simp add: lib_ok_def)
  from rep.parse_terminates [OF this, of bs "Suc (length bs)" "HelloReply L None"] obtain r e
    where parse: "HelloReply_InternalParse L (Suc (length bs)) (HelloReply L None) bs = Some (r, e)" by auto
  have "parsed_whole e" if good: "good_user L (call_user (gn_calls n ! k))"
  proof -
    have "phase_ok L (mt_server (gn_server n)) (call_user (gn_calls n ! k)) (Coming_back bs)"
      using inv nth_mem [OF k(1)] good k(2) by (metis gn_inv_def)
    then show ?thesis by (rule good_reply_read [OF L good _ parse])
  qed
  then show ?thesis using gn_step.deliver [OF k parse] by (cases "parsed_whole e") auto
qed

text \<open>From each phase of a call to the next.\<close>

definition call_at :: "('p, 'f) greeter_net \<Rightarrow> nat \<Rightarrow> bytes \<Rightarrow> ('p, 'f) hello_reply call_phase \<Rightarrow> bool" where
  "call_at n k user ph \<longleftrightarrow> k < length (gn_calls n) \<and> gn_calls n ! k = \<lparr>call_user = user, call_phase = ph\<rparr>"

lemma call_at_simps [simp]:
  "call_at (n\<lparr>gn_server := s\<rparr>) k user ph = call_at n k user ph"
  "call_at n k user ph \<Longrightarrow> call_at (set_phase k ph' n) k user ph'"
  by (simp_all add: call_at_def set_phase_def)

lemma call_at_ok: "gn_up L n \<Longrightarrow> call_at n k user ph \<Longrightarrow> good_user L user \<Longrightarrow> phase_ok L (mt_server (gn_server n)) user ph"
  by (auto simp: gn_up_def gn_inv_def call_at_def) (metis call.select_convs nth_mem)

lemma on_way_arrives:
  assumes "gn_up L n" and "call_at n k user (On_way bs)" and "good_user L user"
  shows "\<exists>n' t. (gn_step L)\<^sup>*\<^sup>* n n' \<and> gn_up L n' \<and> call_at n' k user (At_server t)"
proof -
  obtain s where s: "(gn_step L)\<^sup>*\<^sup>* n (n\<lparr>gn_server := s\<rparr>)" "gn_up L (n\<lparr>gn_server := s\<rparr>)" "requested (mt_server s) \<noteq> []"
    using gn_rest [OF assms(1)] by metis
  then obtain t req cd where step: "gn_step L (n\<lparr>gn_server := s\<rparr>)
      ((set_phase k (At_server t) (n\<lparr>gn_server := s\<rparr>))\<lparr>gn_server := call_arrives t req cd s\<rparr>)" (is "gn_step L _ ?n")
    using arrive_step [of L "n\<lparr>gn_server := s\<rparr>" k bs] assms(2,3) by (auto simp: gn_up_def call_at_def)
  have "failed_objects (call_arrives t req cd s) = failed_objects s" by (simp add: failed_objects_def call_arrives_def)
  then have "gn_up L ?n" using gn_up_step [OF step s(2)] s(2) by (simp add: gn_up_def)
  moreover have "call_at ?n k user (At_server t)" using assms(2) by simp
  ultimately show ?thesis using rtranclp.rtrancl_into_rtrancl [OF s(1) step] by blast
qed

lemma at_server_sent:
  assumes "gn_up L n" and "call_at n k user (At_server t)"
  shows "\<exists>n' bs. (gn_step L)\<^sup>*\<^sup>* n n' \<and> gn_up L n' \<and> call_at n' k user (Coming_back bs)"
proof -
  obtain s where s: "(gn_step L)\<^sup>*\<^sup>* n (n\<lparr>gn_server := s\<rparr>)" "gn_up L (n\<lparr>gn_server := s\<rparr>)"
    and fin: "mset (map fst (finishing (mt_server s))) = call_tags (gn_calls n)"
    using gn_rest [OF assms(1)] by metis
  have "t \<in># call_tags (gn_calls n)" using assms(2) by (auto simp: call_at_def intro: call_tags_mem [OF nth_mem])
  then have "t \<in> fst ` set (finishing (mt_server s))" by (simp flip: fin)
  then obtain r ans where step: "gn_step L (n\<lparr>gn_server := s\<rparr>)
      ((set_phase k (Coming_back (HelloReply_InternalSerialize L r [])) (n\<lparr>gn_server := s\<rparr>))
       \<lparr>gn_server := reply_done t r True ans s\<rparr>)" (is "gn_step L _ ?n")
    using sent_step [of L "n\<lparr>gn_server := s\<rparr>" t k] s(2) assms(2) by (auto simp: gn_up_def gn_inv_def call_at_def)
  have "failed_objects (reply_done t r True ans s) = failed_objects s" by (simp add: failed_objects_def reply_done_def)
  then have "gn_up L ?n" using gn_up_step [OF step s(2)] s(2) by (simp add: gn_up_def)
  moreover have "call_at ?n k user (Coming_back (HelloReply_InternalSerialize L r []))" using assms(2) by simp
  ultimately show ?thesis using rtranclp.rtrancl_into_rtrancl [OF s(1) step] by blast
qed

lemma coming_back_answered:
  assumes "gn_up L n" and "call_at n k user (Coming_back bs)" and "good_user L user"
  shows "\<exists>n' r. gn_step L n n' \<and> gn_up L n' \<and> call_at n' k user (Answered r)"
proof -
  obtain r where step: "gn_step L n (set_phase k (Answered r) n)"
    using deliver_step [of L n k bs] assms by (auto simp: gn_up_def call_at_def)
  then have "gn_up L (set_phase k (Answered r) n)"
    using gn_up_step [OF step assms(1)] assms(1) by (simp add: gn_up_def set_phase_def)
  then show ?thesis using step assms(2) call_at_simps(2) by blast
qed

text \<open>
  C6. No call is stuck. While no operation at the server has failed, every call that is not over, be
  its request on the way, with an object in whatever thread, or its reply on the way back, and
  whatever the other clients and the threads are at, can be answered, with the greeting of its
  own user.
\<close>

theorem call_can_be_answered:
  assumes "lib_ok L" and "(gn_step L)\<^sup>*\<^sup>* (gn_begin threads) n" and "0 < threads"
    and "failed_objects (gn_server n) = {}" and "k < length (gn_calls n)"
    and "good_user L (call_user (gn_calls n ! k))" and "\<not> call_over (phase_of n k)"
  shows "\<exists>n' r. (gn_step L)\<^sup>*\<^sup>* n n' \<and> gn_calls n' ! k = \<lparr>call_user = call_user (gn_calls n ! k), call_phase = Answered r\<rparr>
     \<and> HelloReply_message L r = ''Hello '' @ call_user (gn_calls n ! k)"
proof -
  let ?user = "call_user (gn_calls n ! k)"
  have "serving_inv L (gn_server n)"
    using run_serves [of L threads "gn_server n"] gn_run_server [OF assms(2)] assms(1,3) by (simp add: gn_begin_def lib_ok_def)
  then have up: "gn_up L n" using assms(1,4) gn_run_inv [OF assms(2,1)] by (simp add: gn_up_def)
  have here: "call_at n k ?user (phase_of n k)" using assms(5) by (simp add: call_at_def)
  have sends: "\<exists>n' bs. (gn_step L)\<^sup>*\<^sup>* n1 n' \<and> gn_up L n' \<and> call_at n' k ?user (Coming_back bs)"
    if "gn_up L n1" "call_at n1 k ?user (At_server t)" for n1 t
    using at_server_sent that by blast
  have "\<exists>n1 bs. (gn_step L)\<^sup>*\<^sup>* n n1 \<and> gn_up L n1 \<and> call_at n1 k ?user (Coming_back bs)"
  proof (cases "phase_of n k")
    case (On_way bs)
    then obtain n1 t where n1: "(gn_step L)\<^sup>*\<^sup>* n n1" "gn_up L n1" "call_at n1 k ?user (At_server t)"
      using on_way_arrives [OF up _ assms(6)] here by metis
    with sends [OF n1(2,3)] show ?thesis by (blast intro: rtranclp_trans)
  next
    case (At_server t)
    then show ?thesis using sends [OF up] here by simp
  next
    case (Coming_back bs)
    then show ?thesis using up here by (intro exI [of _ n] exI [of _ bs]) simp
  qed (use assms(7) in \<open>simp_all add: call_over_def\<close>)
  then obtain n1 bs where n1: "(gn_step L)\<^sup>*\<^sup>* n n1" "gn_up L n1" "call_at n1 k ?user (Coming_back bs)" by blast
  then obtain n2 r where n2: "gn_step L n1 n2" "gn_up L n2" "call_at n2 k ?user (Answered r)"
    using coming_back_answered assms(6) by blast
  have "HelloReply_message L r = ''Hello '' @ ?user" using call_at_ok [OF n2(2,3) assms(6)] by simp
  then show ?thesis using rtranclp.rtrancl_into_rtrancl [OF n1(1) n2(1)] n2(3) by (auto simp: call_at_def)
qed

section \<open>Witnesses\<close>

theorem HandleRpcs_threads_at_rest_witness:
  "\<exists>s'. (threads_act wire_lib)\<^sup>*\<^sup>* two_threads s' \<and> set (mt_pcs s') = {Th_next}
     \<and> length (requested (mt_server s')) = 2 \<and> mset (map fst (finishing (mt_server s'))) = {#1#}"
proof -
  have "threads_inv wire_lib two_threads" by (rule threads_run_inv [OF two_threads_run wire_cell_ok])
  then obtain s' where s': "(threads_act wire_lib)\<^sup>*\<^sup>* two_threads s'" "at_rest s'"
    using threads_acts.rest_reached wire_cell_ok by blast
  obtain k where k: "(threads_act wire_lib ^^ k) two_threads s'" using rtranclp_imp_relpowp [OF s'(1)] by blast
  have "failed_objects two_threads = {}" by (simp add: failed_objects_def two_threads_def failed_events_def)
  moreover have "in_hand two_threads = {#1#}"
    by (simp add: two_threads_def in_hand_def arrived_def over_threads_def in_status_def)
  ultimately show ?thesis
    using HandleRpcs_threads_at_rest [OF two_threads_run wire_cell_ok _ k] rest_stops [OF s'(2), of wire_lib] s'(1)
    by (intro exI [of _ s']) simp
qed


theorem call_can_be_answered_witness:
  "\<exists>n' r. (gn_step wire_lib)\<^sup>*\<^sup>* (start_call wire_lib ''world'' (gn_begin 1)) n'
     \<and> gn_calls n' ! 0 = \<lparr>call_user = ''world'', call_phase = Answered r\<rparr> \<and> HelloReply_message wire_lib r = ''Hello world''"
proof -
  let ?n = "start_call wire_lib ''world'' (gn_begin 1) :: (bytes, bool) greeter_net"
  have "failed_objects (gn_server ?n) = {}"
    by (simp add: start_call_def gn_begin_def threads_begin_def failed_objects_def empty_server_def)
  moreover have "call_user (gn_calls ?n ! 0) = ''world''" "\<not> call_over (phase_of ?n 0)" "0 < length (gn_calls ?n)"
    by (simp_all add: start_call_def gn_begin_def call_over_def)
  moreover have "good_user wire_lib ''world''" by (simp add: good_user_def fits_def wire_lib_def ascii_def)
  ultimately show ?thesis
    using call_can_be_answered [OF wire_lib_ok r_into_rtranclp [where r = "gn_step wire_lib", OF gn_step.start], of 1 "''world''" 0]
    by simp
qed

end
