(* ===== verification/Greeter_Quiet.thy ===== *)
theory Greeter_Quiet
  imports Greeter_Progress
begin

text \<open>
  The clients of \<open>include/greeter_async_client.h\<close> and the threads of
  \<open>include/greeter_async_server.h\<close> together, between one call of \<open>SayHello\<close> and the next: whatever
  the order of threads, runtime and losses, everything that is under way ends after a bounded number
  of steps, and nothing but an abort or a loss can end it before every call has its answer.
\<close>

section \<open>Work on the calls there are\<close>

text \<open>Any step but a new call and a thread that waits.\<close>

definition gn_work :: "('p, 'f) protobuf_lib \<Rightarrow> ('p, 'f) greeter_net \<Rightarrow> ('p, 'f) greeter_net \<Rightarrow> bool" where
  "gn_work L n n' \<longleftrightarrow> gn_step L n n' \<and> length (gn_calls n') = length (gn_calls n) \<and> n' \<noteq> n"

fun phase_weight :: "'r call_phase \<Rightarrow> nat" where
  "phase_weight (On_way bs) = 18"
| "phase_weight (At_server t) = 2"
| "phase_weight (Given_up t) = 1"
| "phase_weight (Coming_back bs) = 1"
| "phase_weight ph = 0"

definition calls_weight :: "'r call list \<Rightarrow> nat" where
  "calls_weight cs = (\<Sum>c\<leftarrow>cs. phase_weight (call_phase c))"

definition gn_weight :: "('p, 'f) greeter_net \<Rightarrow> nat" where
  "gn_weight n = calls_weight (gn_calls n) + threads_work (gn_server n)"

lemma set_phase_weight:
  "k < length (gn_calls n) \<Longrightarrow>
   calls_weight (gn_calls (set_phase k ph n)) + phase_weight (phase_of n k) = calls_weight (gn_calls n) + phase_weight ph"
  using sum_list_map_update [of k "gn_calls n" "\<lambda>c. phase_weight (call_phase c)" "(gn_calls n ! k)\<lparr>call_phase := ph\<rparr>"]
  by (simp add: calls_weight_def set_phase_def)

lemma set_phase_server [simp]: "gn_server (set_phase k ph n) = gn_server n"
  by (simp add: set_phase_def)

lemma arrive_work:
  assumes "threads_inv L s" and "t \<in> set (requested (mt_server s))" and "heap (mt_server s) t = Some cd"
  shows "threads_work (call_arrives t req cd s) = threads_work s + 15"
proof -
  let ?s = "mt_server s" and ?srv = "mt_server (call_arrives t req cd s)"
  have st: "in_status ?srv = in_status ?s" using assms(3) by (simp add: call_arrives_def in_status_def fun_eq_iff)
  have "in_status ?s PROCESS t" using assms(1,2) by (simp add: threads_inv_def runtime_ok_def)
  then have "event_weight ?s (t, True) = 5" by (simp add: event_weight_def)
  moreover note length_remove1_Suc [OF assms(2)]
  ultimately show ?thesis by (simp add: threads_work_def work_status [OF st]) (simp add: call_arrives_def)
qed

lemma gn_work_weight:
  assumes "gn_work L n n'" and inv: "threads_inv L (gn_server n)"
  shows "gn_weight n' < gn_weight n"
proof -
  from assms(1) have "gn_step L n n'" "length (gn_calls n') = length (gn_calls n)" "n' \<noteq> n" by (simp_all add: gn_work_def)
  then show ?thesis
  proof cases
    case (reject k bs t fuel req e)
    then show ?thesis using set_phase_weight [OF reject(2), of Rpc_failed] by (simp add: gn_weight_def)
  next
    case (start user)
    then show ?thesis using \<open>length (gn_calls n') = length (gn_calls n)\<close> by (simp add: start_call_def)
  next
    case (arrive k bs t cd fuel req e)
    then show ?thesis
      using set_phase_weight [OF arrive(2), of "At_server t"] arrive_work [OF inv arrive(4,5)] by (simp add: gn_weight_def)
  next
    case (threads s)
    have "s \<noteq> gn_server n" using \<open>n' \<noteq> n\<close> threads(1) by (cases n) auto
    then show ?thesis using threads threads_act_work [OF _ inv] by (simp add: gn_weight_def threads_act_def)
  next
    case (sent k t r cd)
    then show ?thesis
      using set_phase_weight [OF sent(2), of "if phase_of n k = At_server t then Coming_back (HelloReply_InternalSerialize L r []) else Rpc_failed"]
        finished_work [OF inv sent(4), of True "[(HelloRequest_name L (cd_request cd), HelloReply_message L r)]"]
      by (auto simp: gn_weight_def)
  next
    case (call_dead k t r)
    then show ?thesis
      using set_phase_weight [OF call_dead(2), of Rpc_failed] finished_work [OF inv call_dead(4), of False "[]"]
      by (auto simp: gn_weight_def)
  next
    case (deliver k bs fuel r e)
    then show ?thesis using set_phase_weight [OF deliver(2), of "if parsed_whole e then Answered r else Rpc_failed"]
      by (cases "parsed_whole e") (simp_all add: gn_weight_def)
  next
    case (give_up k t)
    then show ?thesis using set_phase_weight [OF give_up(2), of "Given_up t"] by (simp add: gn_weight_def)
  next
    case (lose k bs)
    then show ?thesis using set_phase_weight [OF lose(2), of Rpc_failed] by (auto simp: gn_weight_def)
  qed
qed

section \<open>There is always a step that loses nothing\<close>

text \<open>
  The calls that are lost or given up, of the users whose calls should not be: those whose name is text
  that fits, as a string field requires; and the calls that have ended.
\<close>

fun lost_phase :: "'r call_phase \<Rightarrow> bool" where
  "lost_phase (Given_up t) \<longleftrightarrow> True"
| "lost_phase Rpc_failed \<longleftrightarrow> True"
| "lost_phase ph \<longleftrightarrow> False"

fun ended :: "'r call_phase \<Rightarrow> bool" where
  "ended (Answered r) \<longleftrightarrow> True"
| "ended Rpc_failed \<longleftrightarrow> True"
| "ended ph \<longleftrightarrow> False"

definition lost_calls :: "('p, 'f) protobuf_lib \<Rightarrow> ('p, 'f) greeter_net \<Rightarrow> bool list" where
  "lost_calls L n = map (\<lambda>c. good_user L (call_user c) \<and> lost_phase (call_phase c)) (gn_calls n)"

lemma lost_calls_server [simp]: "lost_calls L (n\<lparr>gn_server := s\<rparr>) = lost_calls L n"
  by (simp add: lost_calls_def)

lemma lost_calls_same:
  assumes k: "k < length (gn_calls n)"
    and "good_user L (call_user (gn_calls n ! k)) \<Longrightarrow> lost_phase ph = lost_phase (phase_of n k)"
  shows "lost_calls L (set_phase k ph n) = lost_calls L n"
proof -
  let ?f = "\<lambda>c. good_user L (call_user c) \<and> lost_phase (call_phase c)"
  have same: "map f ((gn_calls n)[k := x]) = map f (gn_calls n)" if "f x = f (gn_calls n ! k)" for f :: "_ \<Rightarrow> bool" and x
    using that k by (simp add: map_update list_update_same_conv)
  have "?f ((gn_calls n ! k)\<lparr>call_phase := ph\<rparr>) = ?f (gn_calls n ! k)" using assms(2) by auto
  from same [of ?f, OF this] show ?thesis by (simp add: lost_calls_def set_phase_def)
qed

lemma phase_changes:
  assumes "gn_step L n ((set_phase k ph n)\<lparr>gn_server := s\<rparr>)" and "k < length (gn_calls n)" and "ph \<noteq> phase_of n k"
    and "good_user L (call_user (gn_calls n ! k)) \<Longrightarrow> lost_phase ph = lost_phase (phase_of n k)"
  shows "\<exists>n'. gn_work L n n' \<and> lost_calls L n' = lost_calls L n"
proof (intro exI conjI)
  let ?n = "(set_phase k ph n)\<lparr>gn_server := s\<rparr>"
  have "phase_of ?n k = ph" using assms(2) by (simp add: set_phase_def)
  then have "?n \<noteq> n" using assms(3) by metis
  then show "gn_work L n ?n" using assms(1) by (simp add: gn_work_def set_phase_def)
  show "lost_calls L ?n = lost_calls L n" using lost_calls_same [OF assms(2,4)] by simp
qed

text \<open>A step of the client alone.\<close>

lemma client_changes:
  assumes "gn_step L n (set_phase k ph n)" and "k < length (gn_calls n)" and "ph \<noteq> phase_of n k"
    and "good_user L (call_user (gn_calls n ! k)) \<Longrightarrow> lost_phase ph = lost_phase (phase_of n k)"
  shows "\<exists>n'. gn_work L n n' \<and> lost_calls L n' = lost_calls L n"
  using phase_changes [where s = "gn_server n"] assms by (simp add: set_phase_def)

definition gn_good :: "('p, 'f) protobuf_lib \<Rightarrow> ('p, 'f) greeter_net \<Rightarrow> bool" where
  "gn_good L n \<longleftrightarrow> lib_ok L \<and> gn_inv L n \<and> serving_inv L (gn_server n)"

definition gn_over :: "('p, 'f) greeter_net \<Rightarrow> bool" where
  "gn_over n \<longleftrightarrow> aborted (mt_pcs (gn_server n)) \<or> list_all (\<lambda>c. ended (call_phase c)) (gn_calls n)"

lemma resting_progress:
  assumes good: "gn_good L n" and rest: "at_rest (gn_server n)" "\<not> aborted (mt_pcs (gn_server n))"
    and k: "k < length (gn_calls n)" "\<not> ended (phase_of n k)"
  shows "\<exists>n'. gn_work L n n' \<and> lost_calls L n' = lost_calls L n"
proof -
  have L: "lib_ok L" and all: "gn_inv L n" and inv: "threads_inv L (gn_server n)" and tags: "call_tags (gn_calls n) = in_hand (gn_server n)"
    and "mt_pcs (gn_server n) \<noteq> []" "size (waiting (gn_server n)) = begun (mt_pcs (gn_server n))"
    using good by (simp_all add: gn_good_def gn_inv_def serving_inv_def)
  note up = rest_up [OF rest this(5,6)]
  have req: "requested (mt_server (gn_server n)) \<noteq> []" using up(4) \<open>mt_pcs (gn_server n) \<noteq> []\<close> by auto
  have out: "t \<in> fst ` set (finishing (mt_server (gn_server n)))" if "phase_tag (phase_of n k) = {#t#}" for t
  proof -
    have "t \<in># mset (map fst (finishing (mt_server (gn_server n))))"
      unfolding up(5) using that call_tags_mem [OF nth_mem [OF k(1)], of t] by (simp add: tags)
    then show ?thesis by simp
  qed
  show ?thesis
  proof (cases "phase_of n k")
    case (On_way bs)
    from arrive_step [OF L all req k(1) On_way] show ?thesis
    proof (elim disjE exE conjE)
      fix t req cd
      assume "gn_step L n ((set_phase k (At_server t) n)\<lparr>gn_server := call_arrives t req cd (gn_server n)\<rparr>)"
      then show ?thesis by (rule phase_changes [OF _ k(1)]) (simp_all add: On_way)
    next
      assume "\<not> good_user L (call_user (gn_calls n ! k))" "gn_step L n (set_phase k Rpc_failed n)"
      then show ?thesis using client_changes [OF _ k(1)] On_way by fastforce
    qed
  next
    case (At_server t)
    then show ?thesis using sent_step [OF inv out k(1), of t] phase_changes [OF _ k(1)] by fastforce
  next
    case (Given_up t)
    then show ?thesis using sent_step [OF inv out k(1), of t] phase_changes [OF _ k(1)] by fastforce
  next
    case (Coming_back bs)
    have "\<exists>n'. gn_work L n n' \<and> lost_calls L n' = lost_calls L n" if "gn_step L n (set_phase k (Answered r) n)" for r
      using client_changes [OF that k(1)] Coming_back by simp
    moreover have "\<exists>n'. gn_work L n n' \<and> lost_calls L n' = lost_calls L n"
      if "\<not> good_user L (call_user (gn_calls n ! k))" "gn_step L n (set_phase k Rpc_failed n)"
      using client_changes [OF that(2) k(1)] Coming_back that(1) by simp
    ultimately show ?thesis using deliver_step [OF L all k(1) Coming_back] by blast
  qed (use k(2) in simp_all)
qed

lemma gn_progress:
  assumes "gn_good L n" and "\<not> gn_over n"
  shows "\<exists>n'. gn_work L n n' \<and> lost_calls L n' = lost_calls L n"
proof (cases "at_rest (gn_server n)")
  case True
  obtain k where "k < length (gn_calls n)" "\<not> ended (phase_of n k)"
    using assms(2) by (auto simp: gn_over_def list_all_length)
  then show ?thesis using resting_progress [OF assms(1) True] assms(2) by (simp add: gn_over_def)
next
  case False
  have "threads_inv L (gn_server n)" using assms(1) by (simp add: gn_good_def gn_inv_def)
  then obtain s where s: "threads_move L (gn_server n) s" "s \<noteq> gn_server n"
    using threads_progress False unfolding threads_act_def by blast
  then have "n\<lparr>gn_server := s\<rparr> \<noteq> n" by (metis greeter_net.select_convs(1) greeter_net.surjective greeter_net.update_convs(1))
  with gn_step.threads [OF s(1)] have "gn_work L n (n\<lparr>gn_server := s\<rparr>)" by (simp add: gn_work_def)
  then show ?thesis by (intro exI [of _ "n\<lparr>gn_server := s\<rparr>"]) simp
qed

lemma gn_step_good: "gn_step L n n' \<Longrightarrow> gn_good L n \<Longrightarrow> gn_good L n'"
proof -
  assume step: "gn_step L n n'" and good: "gn_good L n"
  have "serving_inv L (gn_server n')"
    using gn_step_server [OF step] good by (induction rule: rtranclp_induct) (auto simp: gn_good_def intro: step_serves)
  then show ?thesis using good gn_step_inv [OF step] by (simp add: gn_good_def)
qed

lemma gn_work_less: "gn_work L n n' \<Longrightarrow> gn_good L n \<Longrightarrow> gn_weight n' < gn_weight n"
  using gn_work_weight by (auto simp: gn_good_def gn_inv_def)

lemma gn_work_good: "gn_work L n n' \<Longrightarrow> gn_good L n \<Longrightarrow> gn_good L n'"
  using gn_step_good by (auto simp: gn_work_def)

interpretation gn_works: quiescing "gn_work L" "gn_good L" gn_weight gn_over for L
  by unfold_locales (use gn_work_good gn_work_less gn_progress in blast)+

lemma calls_weight_bound: "calls_weight cs \<le> 18 * length cs"
proof (induction cs)
  case (Cons c cs)
  have "phase_weight (call_phase c) \<le> 18" by (cases "call_phase c") simp_all
  with Cons show ?case by (simp add: calls_weight_def)
qed (simp add: calls_weight_def)

lemma gn_run_good:
  assumes "lib_ok L" and "(gn_step L)\<^sup>*\<^sup>* (gn_begin threads) n" and "0 < threads"
  shows "gn_good L n" and "length (mt_pcs (gn_server n)) = threads"
proof -
  have run: "(threads_step L)\<^sup>*\<^sup>* (threads_begin threads) (gn_server n)"
    using gn_run_server [OF assms(2)] by (simp add: gn_begin_def)
  then show "gn_good L n"
    using run_serves [OF run _ assms(3)] gn_run_inv [OF assms(2,1)] assms(1) by (simp add: gn_good_def lib_ok_def)
  show "length (mt_pcs (gn_server n)) = threads" using pcs_kept_run [OF run] by (simp add: threads_begin_def)
qed

section \<open>Properties\<close>

text \<open>
  C5. Every call ends. From any state the network of clients and server threads can be in, at most 18
  steps for each call and 20 for each thread and each object that is out can follow before the next
  new call, in whatever order; and where not every call is answered or failed and no thread has met
  its assertion there is another step, one that loses no call of a user whose name is text that fits
  a string field. So calls of such users that are not lost are answered under every scheduling; a
  name that is not text makes its call fail, where the parser gives it up.
\<close>

theorem greeter_network_quiesces:
  assumes "lib_ok L" and "(gn_step L)\<^sup>*\<^sup>* (gn_begin threads) n" and "0 < threads" and "(gn_work L ^^ i) n n'"
  shows "i \<le> 18 * length (gn_calls n) + 20 * (size (tags (mt_server (gn_server n))) + threads)
     \<and> (gn_over n' \<or> (\<exists>n''. gn_work L n' n'' \<and> lost_calls L n'' = lost_calls L n'))"
proof -
  note good = gn_run_good [OF assms(1-3)]
  have "i \<le> gn_weight n" using gn_works.run_bound [OF assms(4) good(1)] by simp
  then have "i \<le> 18 * length (gn_calls n) + 20 * (size (tags (mt_server (gn_server n))) + threads)"
    using calls_weight_bound [of "gn_calls n"] threads_work_bound [of "gn_server n"] good(2)
    by (simp add: gn_weight_def)
  then show ?thesis
    using gn_progress gn_works.inv_along [OF relpowp_imp_rtranclp [OF assms(4)] good(1)] by blast
qed

theorem greeter_network_quiesces_witness:
  "\<exists>i n'. (gn_work wire_lib ^^ i) (start_call wire_lib ''world'' (gn_begin 1)) n' \<and> i \<le> 38 \<and> gn_over n'"
proof -
  let ?n = "start_call wire_lib ''world'' (gn_begin 1) :: (bytes, bool) greeter_net"
  have run: "(gn_step wire_lib)\<^sup>*\<^sup>* (gn_begin 1) ?n" by (rule r_into_rtranclp [where r = "gn_step wire_lib", OF gn_step.start])
  obtain n' where n': "(gn_work wire_lib)\<^sup>*\<^sup>* ?n n'" "gn_over n'"
    using gn_works.rest_reached [OF gn_run_good(1) [OF wire_lib_ok run]] by auto
  obtain i where i: "(gn_work wire_lib ^^ i) ?n n'" using rtranclp_imp_relpowp [OF n'(1)] by blast
  have "length (gn_calls ?n) = 1" "tags (mt_server (gn_server ?n)) = {#}"
    by (simp_all add: start_call_def gn_begin_def threads_begin_def empty_server_def tags_def)
  with greeter_network_quiesces [OF wire_lib_ok run _ i] i n'(2) show ?thesis by (intro exI [of _ i] exI [of _ n']) simp
qed

end
