(* ===== verification/Redis_Awaiter.thy ===== *)
theory Redis_Awaiter
  imports Prelude
begin

text \<open>
  \<open>FutureAwaiter\<close> of \<open>src/test_redis++.cpp\<close>, which lets a coroutine wait for a \<open>boost::future\<close>, and
  the program that uses it. A future that is ready is a value or an exception. Two things boost
  does are parameters: \<open>rethrow\<close>, the exception that \<open>rethrow_exception(fut.get_exception_ptr())\<close>
  throws, and \<open>wait_throws\<close>, the exception (if any) that \<open>wait\<close> on a ready future throws.
\<close>

section \<open>The awaiter\<close>

text \<open>A thrown object: one whose type is \<open>std::exception_ptr\<close>, or one of another type.\<close>

datatype exn = Exception_ptr exn | Exception string

datatype 'a ready_future = Value 'a | Failed exn

record 'a future_awaiter =
  fa_on_pool :: bool
  fa_result :: 'a
  fa_exception :: "exn option"

definition FutureAwaiter :: "'a \<Rightarrow> bool \<Rightarrow> 'a future_awaiter" where
  "FutureAwaiter default_value pool =
     \<lparr>fa_on_pool = pool, fa_result = default_value, fa_exception = None\<rparr>"

definition future_ready :: "'a future_awaiter \<Rightarrow> bool" where
  "future_ready a \<longleftrightarrow> False"

text \<open>
  The inner \<open>try\<close>: only a \<open>std::exception_ptr\<close> is caught. Any other exception leaves the
  continuation before \<open>handle.resume()\<close>, so the second component is whether the coroutine was
  resumed.
\<close>

definition store_exception :: "exn \<Rightarrow> 'a future_awaiter \<Rightarrow> 'a future_awaiter \<times> bool" where
  "store_exception thrown a =
     (case thrown of
        Exception_ptr ep \<Rightarrow> (a\<lparr>fa_exception := Some ep\<rparr>, True)
      | Exception t \<Rightarrow> (a, False))"

definition future_callback ::
  "(exn \<Rightarrow> exn) \<Rightarrow> 'a ready_future \<Rightarrow> 'a future_awaiter \<Rightarrow> 'a future_awaiter \<times> bool" where
  "future_callback rethrow fut a =
     (case fut of
        Value v \<Rightarrow> (a\<lparr>fa_result := v\<rparr>, True)
      | Failed e \<Rightarrow> store_exception (rethrow e) a)"

text \<open>The specialisation for \<open>void\<close> only waits.\<close>

definition future_callback_void ::
  "(exn \<Rightarrow> exn) \<Rightarrow> (unit ready_future \<Rightarrow> exn option) \<Rightarrow> unit ready_future
    \<Rightarrow> unit future_awaiter \<Rightarrow> unit future_awaiter \<times> bool" where
  "future_callback_void rethrow wait_throws fut a =
     (case wait_throws fut of
        None \<Rightarrow> (a, True)
      | Some e \<Rightarrow> store_exception (rethrow e) a)"

definition future_resume :: "'a future_awaiter \<Rightarrow> exn + 'a" where
  "future_resume a =
     (case fa_exception a of Some e \<Rightarrow> Inl e | None \<Rightarrow> Inr (fa_result a))"

text \<open>A \<open>co_await\<close> on a future that becomes ready.\<close>

datatype 'a awaited_future = Returned 'a | Raised exn | Never_resumed

definition co_await_future ::
  "('a future_awaiter \<Rightarrow> 'a future_awaiter \<times> bool) \<Rightarrow> 'a future_awaiter \<Rightarrow> 'a awaited_future" where
  "co_await_future continuation a =
     (let (a', resumed) = (if future_ready a then (a, True) else continuation a)
      in if resumed then (case future_resume a' of Inl e \<Rightarrow> Raised e | Inr v \<Rightarrow> Returned v)
         else Never_resumed)"

lemma co_await_value [step_simps]:
  "co_await_future (future_callback rethrow (Value v)) (FutureAwaiter d pool) = Returned v"
  by (simp add: co_await_future_def future_ready_def future_callback_def future_resume_def FutureAwaiter_def)

lemma co_await_failed [step_simps]:
  "co_await_future (future_callback rethrow (Failed e)) (FutureAwaiter d pool) =
     (case rethrow e of Exception_ptr ep \<Rightarrow> Raised ep | Exception t \<Rightarrow> Never_resumed)"
  by (simp add: co_await_future_def future_ready_def future_callback_def store_exception_def
      future_resume_def FutureAwaiter_def split: exn.split)

lemma co_await_void [step_simps]:
  "wait_throws fut = None \<Longrightarrow>
   co_await_future (future_callback_void rethrow wait_throws fut) (FutureAwaiter () pool) = Returned ()"
  by (simp add: co_await_future_def future_ready_def future_callback_void_def future_resume_def FutureAwaiter_def)

section \<open>\<open>main\<close>\<close>

text \<open>What the four commands return, should they be reached.\<close>

record redis_replies =
  hmset_res :: "unit ready_future"
  set_ret :: "bool ready_future"
  get_data :: "bytes option ready_future"
  hgetall_res :: "bytes list ready_future"

datatype redis_command = HMSET | SET | GET | HGETALL

text \<open>
  The coroutine under \<open>blockingWait\<close>: the commands sent, the lines printed and how the process ends.
  A coroutine that is never resumed leaves \<open>blockingWait\<close> waiting; an exception that leaves it is
  caught by nobody.
\<close>

definition redis_main ::
  "(exn \<Rightarrow> exn) \<Rightarrow> (unit ready_future \<Rightarrow> exn option) \<Rightarrow> redis_replies
    \<Rightarrow> redis_command list \<times> bytes list \<times> proc_outcome" where
  "redis_main rethrow wait_throws r =
     (let sent1 = [HMSET] in
      case co_await_future (future_callback_void rethrow wait_throws (hmset_res r)) (FutureAwaiter () True) of
        Never_resumed \<Rightarrow> (sent1, [], Hang) | Raised e \<Rightarrow> (sent1, [], Terminate) | Returned u \<Rightarrow>
     (let sent2 = sent1 @ [SET] in
      case co_await_future (future_callback rethrow (set_ret r)) (FutureAwaiter False True) of
        Never_resumed \<Rightarrow> (sent2, [], Hang) | Raised e \<Rightarrow> (sent2, [], Terminate) | Returned flag \<Rightarrow>
     (let out1 = (if flag then [''set key success!!!''] else []); sent3 = sent2 @ [GET] in
      case co_await_future (future_callback rethrow (get_data r)) (FutureAwaiter None True) of
        Never_resumed \<Rightarrow> (sent3, out1, Hang) | Raised e \<Rightarrow> (sent3, out1, Terminate) | Returned data \<Rightarrow>
     (let out2 = out1 @ (case data of Some v \<Rightarrow> [''name:'' @ v] | None \<Rightarrow> []); sent4 = sent3 @ [HGETALL] in
      case co_await_future (future_callback rethrow (hgetall_res r)) (FutureAwaiter [] False) of
        Never_resumed \<Rightarrow> (sent4, out2, Hang) | Raised e \<Rightarrow> (sent4, out2, Terminate) | Returned d \<Rightarrow>
        (sent4, out2 @ d, Exit 0)))))"

section \<open>Properties\<close>

text \<open>
  A redis error is lost. When the future holds an exception whose type is not
  \<open>std::exception_ptr\<close> (as the library's errors, which derive from \<open>std::exception\<close>), the handler
  that should store it does not match: a coroutine that waits for a value is never resumed and sees neither value nor error,
  and one that waits for \<open>void\<close> is resumed as if the command had succeeded. A value is returned.
\<close>

lemma FutureAwaiter_loses_errors:
  assumes "\<And>x. wait_throws x = None" and "\<And>t. rethrow (Exception t) = Exception t"
  shows "co_await_future (future_callback rethrow fut) (FutureAwaiter d pool) =
      (case fut of Value v \<Rightarrow> Returned v
       | Failed (Exception t) \<Rightarrow> Never_resumed
       | Failed (Exception_ptr ep) \<Rightarrow>
           (case rethrow (Exception_ptr ep) of Exception_ptr e \<Rightarrow> Raised e | Exception t \<Rightarrow> Never_resumed))
    \<and> co_await_future (future_callback_void rethrow wait_throws vfut) (FutureAwaiter () pool) = Returned ()"
  using assms by (simp add: step_simps split: ready_future.split exn.split)

text \<open>
  C27. The program: with values for all of \<open>SET\<close>, \<open>GET\<close> and \<open>HGETALL\<close> it prints them in order and
  returns 0, whatever became of \<open>HMSET\<close>; at the first of the three that fails with an ordinary
  exception it hangs, with later commands unsent and what came before printed.
\<close>

theorem redis_main_outcome:
  assumes "\<And>x. wait_throws x = None" and "\<And>t. rethrow (Exception t) = Exception t"
    and "set_ret r \<in> {Value flag, Failed (Exception e1)}"
    and "get_data r \<in> {Value data, Failed (Exception e2)}"
    and "hgetall_res r \<in> {Value vals, Failed (Exception e3)}"
  shows "redis_main rethrow wait_throws r =
    (let line1 = (if flag then [''set key success!!!''] else []);
         line2 = (case data of None \<Rightarrow> [] | Some v \<Rightarrow> [''name:'' @ v]) in
     if set_ret r \<noteq> Value flag then ([HMSET, SET], [], Hang)
     else if get_data r \<noteq> Value data then ([HMSET, SET, GET], line1, Hang)
     else if hgetall_res r \<noteq> Value vals then ([HMSET, SET, GET, HGETALL], line1 @ line2, Hang)
     else ([HMSET, SET, GET, HGETALL], line1 @ line2 @ vals, Exit 0))"
  using assms by (auto simp: redis_main_def step_simps Let_def split: option.split)

theorem redis_main_outcome_witness:
  "redis_main (\<lambda>e. e) (\<lambda>f. None)
     \<lparr>hmset_res = Failed (Exception ''io''), set_ret = Value True,
      get_data = Value (Some ''xiaoli''), hgetall_res = Value [''a'', ''b'']\<rparr>
   = ([HMSET, SET, GET, HGETALL], [''set key success!!!'', ''name:xiaoli'', ''a'', ''b''], Exit 0)"
  using redis_main_outcome [of "\<lambda>f. None" "\<lambda>e. e"
      "\<lparr>hmset_res = Failed (Exception ''io''), set_ret = Value True,
        get_data = Value (Some ''xiaoli''), hgetall_res = Value [''a'', ''b'']\<rparr>" True _ "Some ''xiaoli''" _ "[''a'', ''b'']"]
  by simp

end
