(* ===== verification/Mysql_Session.thy ===== *)
theory Mysql_Session
  imports Asio_Util Io_Context_Pool "HOL-Library.Sublist"
begin

text \<open>
  \<open>src/test_boost_mysql.cpp\<close>: awaiters like those of \<open>Asio_Util\<close> around the asynchronous operations of
  Boost.MySQL, each kept to the same contract \<open>awaiter\<close>, and the program that resolves, connects,
  creates a table, inserts and selects one row on a context of an \<open>IoContextPool\<close>. What the database
  answers is an argument: a completion per operation. A default-constructed result set or statement
  is \<open>None\<close>; the text the library leaves in an \<open>error_info\<close> comes with the completion.
\<close>

datatype 'e mysql_op =
    Op_resolve bytes bytes
  | Op_mysql_connect 'e "bytes \<times> bytes \<times> bytes"
  | Op_query bytes
  | Op_read_all
  | Op_prepare bytes
  | Op_execute "bytes list"
  | Op_close

section \<open>\<open>MysqlConnectAwaiter\<close>\<close>

record 'e mconnect_awaiter =
  mc_ep :: "'e list"
  mc_params :: "bytes \<times> bytes \<times> bytes"
  mc_ec :: error_code

definition MysqlConnectAwaiter :: "'e list \<Rightarrow> (bytes \<times> bytes \<times> bytes) \<Rightarrow> 'e mconnect_awaiter" where
  "MysqlConnectAwaiter ep params = \<lparr>mc_ep = ep, mc_params = params, mc_ec = No_error\<rparr>"

definition mconnect_ready :: "'e mconnect_awaiter \<Rightarrow> bool" where
  "mconnect_ready a \<longleftrightarrow> False"

text \<open>\<open>*m_ep.begin()\<close> of an empty list of endpoints does not exist: \<open>Inl\<close>.\<close>

definition mconnect_suspend :: "'e mconnect_awaiter \<Rightarrow> string + 'e mysql_op" where
  "mconnect_suspend a =
     (case mc_ep a of
        [] \<Rightarrow> Inl ''no endpoint''
      | e # es \<Rightarrow> Inr (Op_mysql_connect e (mc_params a)))"

definition mconnect_callback :: "error_code \<Rightarrow> 'e mconnect_awaiter \<Rightarrow> 'e mconnect_awaiter" where
  "mconnect_callback c a = a\<lparr>mc_ec := c\<rparr>"

definition mconnect_resume :: "'e mconnect_awaiter \<Rightarrow> error_code" where
  "mconnect_resume a = mc_ec a"

definition mysql_async_connect ::
  "'e list \<Rightarrow> (bytes \<times> bytes \<times> bytes) \<Rightarrow> (error_code) option \<Rightarrow> ('e mysql_op, error_code) awaited" where
  "mysql_async_connect ep params c =
     co_await mconnect_ready mconnect_suspend mconnect_callback mconnect_resume (MysqlConnectAwaiter ep params) c"

interpretation mconnect_aw: awaiter mconnect_ready mconnect_suspend mconnect_callback mconnect_resume "\<lambda>c. c"
  by unfold_locales (auto simp: mconnect_ready_def mconnect_callback_def mconnect_resume_def split: prod.splits)

section \<open>\<open>ResolveAwaiter\<close>\<close>

record 'e resolve_awaiter =
  rv_host :: bytes
  rv_port :: bytes
  rv_ec :: error_code
  rv_results :: "'e list"

definition ResolveAwaiter :: "bytes \<Rightarrow> bytes \<Rightarrow> 'e resolve_awaiter" where
  "ResolveAwaiter host port = \<lparr>rv_host = host, rv_port = port, rv_ec = No_error, rv_results = []\<rparr>"

definition resolve_ready :: "'e resolve_awaiter \<Rightarrow> bool" where
  "resolve_ready a \<longleftrightarrow> False"

definition resolve_suspend :: "'e resolve_awaiter \<Rightarrow> string + 'e mysql_op" where
  "resolve_suspend a = Inr (Op_resolve (rv_host a) (rv_port a))"

definition resolve_callback :: "error_code \<times> 'e list \<Rightarrow> 'e resolve_awaiter \<Rightarrow> 'e resolve_awaiter" where
  "resolve_callback c a = a\<lparr>rv_ec := fst c, rv_results := snd c\<rparr>"

definition resolve_resume :: "'e resolve_awaiter \<Rightarrow> error_code \<times> 'e list" where
  "resolve_resume a = (rv_ec a, rv_results a)"

definition mysql_async_resolve ::
  "bytes \<Rightarrow> bytes \<Rightarrow> (error_code \<times> 'e list) option \<Rightarrow> ('e mysql_op, error_code \<times> 'e list) awaited" where
  "mysql_async_resolve host port c =
     co_await resolve_ready resolve_suspend resolve_callback resolve_resume (ResolveAwaiter host port) c"

interpretation resolve_aw: awaiter resolve_ready resolve_suspend resolve_callback resolve_resume "\<lambda>c. c"
  by unfold_locales (auto simp: resolve_ready_def resolve_callback_def resolve_resume_def split: prod.splits)

section \<open>\<open>QueryAwaiter\<close>\<close>

record 'r query_awaiter =
  qu_sql :: bytes
  qu_ec :: error_code
  qu_info :: bytes
  qu_resultset :: "'r option"

definition QueryAwaiter :: "bytes \<Rightarrow> 'r query_awaiter" where
  "QueryAwaiter sql = \<lparr>qu_sql = sql, qu_ec = No_error, qu_info = [], qu_resultset = None\<rparr>"

definition query_ready :: "'r query_awaiter \<Rightarrow> bool" where
  "query_ready a \<longleftrightarrow> False"

definition query_suspend :: "'r query_awaiter \<Rightarrow> string + 'e mysql_op" where
  "query_suspend a = Inr (Op_query (qu_sql a))"

definition query_callback :: "error_code \<times> bytes \<times> 'r \<Rightarrow> 'r query_awaiter \<Rightarrow> 'r query_awaiter" where
  "query_callback c a = (let (ec, info, result) = c in a\<lparr>qu_ec := ec, qu_info := info, qu_resultset := Some result\<rparr>)"

definition query_resume :: "'r query_awaiter \<Rightarrow> error_code \<times> bytes \<times> 'r option" where
  "query_resume a = (qu_ec a, qu_info a, qu_resultset a)"

definition mysql_async_query ::
  "bytes \<Rightarrow> (error_code \<times> bytes \<times> 'r) option \<Rightarrow> ('e mysql_op, error_code \<times> bytes \<times> 'r option) awaited" where
  "mysql_async_query sql c =
     co_await query_ready query_suspend query_callback query_resume (QueryAwaiter sql) c"

interpretation query_aw: awaiter query_ready query_suspend query_callback query_resume "\<lambda>(ec, info, r). (ec, info, Some r)"
  by unfold_locales (auto simp: query_ready_def query_callback_def query_resume_def split: prod.splits)

section \<open>\<open>ReadAllAwaiter\<close>\<close>

record 'w read_all_awaiter =
  ra_ec :: error_code
  ra_info :: bytes
  ra_rows :: "'w list"

definition ReadAllAwaiter :: "'w read_all_awaiter" where
  "ReadAllAwaiter = \<lparr>ra_ec = No_error, ra_info = [], ra_rows = []\<rparr>"

definition read_all_ready :: "'w read_all_awaiter \<Rightarrow> bool" where
  "read_all_ready a \<longleftrightarrow> False"

definition read_all_suspend :: "'w read_all_awaiter \<Rightarrow> string + 'e mysql_op" where
  "read_all_suspend a = Inr Op_read_all"

definition read_all_callback :: "error_code \<times> bytes \<times> 'w list \<Rightarrow> 'w read_all_awaiter \<Rightarrow> 'w read_all_awaiter" where
  "read_all_callback c a = (let (ec, info, rows) = c in a\<lparr>ra_rows := rows, ra_ec := ec, ra_info := info\<rparr>)"

definition read_all_resume :: "'w read_all_awaiter \<Rightarrow> error_code \<times> bytes \<times> 'w list" where
  "read_all_resume a = (ra_ec a, ra_info a, ra_rows a)"

definition mysql_read_all ::
  "(error_code \<times> bytes \<times> 'w list) option \<Rightarrow> ('e mysql_op, error_code \<times> bytes \<times> 'w list) awaited" where
  "mysql_read_all c =
     co_await read_all_ready read_all_suspend read_all_callback read_all_resume (ReadAllAwaiter) c"

interpretation read_all_aw: awaiter read_all_ready read_all_suspend read_all_callback read_all_resume "\<lambda>c. c"
  by unfold_locales (auto simp: read_all_ready_def read_all_callback_def read_all_resume_def split: prod.splits)

section \<open>\<open>PrepareStatementAwaiter\<close>\<close>

record 's prepare_awaiter =
  ps_sql :: bytes
  ps_ec :: error_code
  ps_info :: bytes
  ps_statement :: "'s option"

definition PrepareStatementAwaiter :: "bytes \<Rightarrow> 's prepare_awaiter" where
  "PrepareStatementAwaiter sql = \<lparr>ps_sql = sql, ps_ec = No_error, ps_info = [], ps_statement = None\<rparr>"

definition prepare_ready :: "'s prepare_awaiter \<Rightarrow> bool" where
  "prepare_ready a \<longleftrightarrow> False"

definition prepare_suspend :: "'s prepare_awaiter \<Rightarrow> string + 'e mysql_op" where
  "prepare_suspend a = Inr (Op_prepare (ps_sql a))"

definition prepare_callback :: "error_code \<times> bytes \<times> 's \<Rightarrow> 's prepare_awaiter \<Rightarrow> 's prepare_awaiter" where
  "prepare_callback c a = (let (ec, info, result) = c in a\<lparr>ps_ec := ec, ps_info := info, ps_statement := Some result\<rparr>)"

definition prepare_resume :: "'s prepare_awaiter \<Rightarrow> error_code \<times> bytes \<times> 's option" where
  "prepare_resume a = (ps_ec a, ps_info a, ps_statement a)"

definition mysql_async_prepare_statement ::
  "bytes \<Rightarrow> (error_code \<times> bytes \<times> 's) option \<Rightarrow> ('e mysql_op, error_code \<times> bytes \<times> 's option) awaited" where
  "mysql_async_prepare_statement sql c =
     co_await prepare_ready prepare_suspend prepare_callback prepare_resume (PrepareStatementAwaiter sql) c"

interpretation prepare_aw: awaiter prepare_ready prepare_suspend prepare_callback prepare_resume "\<lambda>(ec, info, r). (ec, info, Some r)"
  by unfold_locales (auto simp: prepare_ready_def prepare_callback_def prepare_resume_def split: prod.splits)

section \<open>\<open>AsyncExecuteAwaiter\<close>\<close>

record 'r execute_awaiter =
  ex_params :: "bytes list"
  ex_ec :: error_code
  ex_info :: bytes
  ex_resultset :: "'r option"

definition AsyncExecuteAwaiter :: "bytes list \<Rightarrow> 'r execute_awaiter" where
  "AsyncExecuteAwaiter params = \<lparr>ex_params = params, ex_ec = No_error, ex_info = [], ex_resultset = None\<rparr>"

definition execute_ready :: "'r execute_awaiter \<Rightarrow> bool" where
  "execute_ready a \<longleftrightarrow> False"

definition execute_suspend :: "'r execute_awaiter \<Rightarrow> string + 'e mysql_op" where
  "execute_suspend a = Inr (Op_execute (ex_params a))"

definition execute_callback :: "error_code \<times> bytes \<times> 'r \<Rightarrow> 'r execute_awaiter \<Rightarrow> 'r execute_awaiter" where
  "execute_callback c a = (let (ec, info, result) = c in a\<lparr>ex_ec := ec, ex_info := info, ex_resultset := Some result\<rparr>)"

definition execute_resume :: "'r execute_awaiter \<Rightarrow> error_code \<times> 'r option" where
  "execute_resume a = (ex_ec a, ex_resultset a)"

definition mysql_async_execute ::
  "bytes list \<Rightarrow> (error_code \<times> bytes \<times> 'r) option \<Rightarrow> ('e mysql_op, error_code \<times> 'r option) awaited" where
  "mysql_async_execute params c =
     co_await execute_ready execute_suspend execute_callback execute_resume (AsyncExecuteAwaiter params) c"

interpretation execute_aw: awaiter execute_ready execute_suspend execute_callback execute_resume "\<lambda>(ec, info, r). (ec, Some r)"
  by unfold_locales (auto simp: execute_ready_def execute_callback_def execute_resume_def split: prod.splits)

section \<open>\<open>AsyncCloseAwaiter\<close>\<close>

record close_awaiter =
  cl_ec :: error_code
  cl_info :: bytes

definition AsyncCloseAwaiter :: "close_awaiter" where
  "AsyncCloseAwaiter = \<lparr>cl_ec = No_error, cl_info = []\<rparr>"

definition close_ready :: "close_awaiter \<Rightarrow> bool" where
  "close_ready a \<longleftrightarrow> False"

definition close_suspend :: "close_awaiter \<Rightarrow> string + 'e mysql_op" where
  "close_suspend a = Inr Op_close"

definition close_callback :: "error_code \<times> bytes \<Rightarrow> close_awaiter \<Rightarrow> close_awaiter" where
  "close_callback c a = a\<lparr>cl_ec := fst c, cl_info := snd c\<rparr>"

definition close_resume :: "close_awaiter \<Rightarrow> error_code \<times> bytes" where
  "close_resume a = (cl_ec a, cl_info a)"

definition mysql_async_close ::
  "(error_code \<times> bytes) option \<Rightarrow> ('e mysql_op, error_code \<times> bytes) awaited" where
  "mysql_async_close c =
     co_await close_ready close_suspend close_callback close_resume (AsyncCloseAwaiter) c"

interpretation close_aw: awaiter close_ready close_suspend close_callback close_resume "\<lambda>c. c"
  by unfold_locales (auto simp: close_ready_def close_callback_def close_resume_def split: prod.splits)

section \<open>The awaiters, completed\<close>

lemma mysql_awaits [step_simps]:
  "mysql_async_connect (e # es) params (Some ec) = Ready ec"
  "mysql_async_resolve host port (Some c2) = Ready c2"
  "mysql_async_query sql (Some (ec, info, rs)) = Ready (ec, info, Some rs)"
  "mysql_read_all (Some c3) = Ready c3"
  "mysql_async_prepare_statement sql (Some (ec, info, st)) = Ready (ec, info, Some st)"
  "mysql_async_execute ps (Some (ec, info, rs')) = Ready (ec, Some rs')"
  "mysql_async_close (Some c4) = Ready c4"
  by (simp_all add: mysql_async_connect_def mysql_async_resolve_def mysql_async_query_def mysql_read_all_def
      mysql_async_prepare_statement_def mysql_async_execute_def mysql_async_close_def
      mconnect_aw.delivers resolve_aw.delivers query_aw.delivers read_all_aw.delivers prepare_aw.delivers
      execute_aw.delivers close_aw.delivers mconnect_suspend_def resolve_suspend_def query_suspend_def
      read_all_suspend_def prepare_suspend_def execute_suspend_def close_suspend_def MysqlConnectAwaiter_def)

section \<open>\<open>main\<close>\<close>

text \<open>What the database answers to each operation, should it be reached.\<close>

record ('e, 'r, 's, 'w) mysql_answers =
  ans_resolve :: "error_code \<times> 'e list"
  ans_connect :: error_code
  ans_drop :: "error_code \<times> bytes \<times> 'r"
  ans_create :: "error_code \<times> bytes \<times> 'r"
  ans_prepare_insert :: "error_code \<times> bytes \<times> 's"
  ans_execute_insert :: "error_code \<times> bytes \<times> 'r"
  ans_prepare_select :: "error_code \<times> bytes \<times> 's"
  ans_execute_select :: "error_code \<times> bytes \<times> 'r"
  ans_read_all :: "error_code \<times> bytes \<times> 'w list"

datatype spd_line = Spd_error bytes | Spd_info bytes

text \<open>How the coroutine ends: it returns, calls \<open>exit\<close>, or is left suspended or by an exception.\<close>

datatype body_end = Co_returned | Exited int | Not_completed

definition connection_params :: "bytes \<times> bytes \<times> bytes" where
  "connection_params = (''mybb'', ''changeme'', ''mybb'')"

definition create_table_sql :: bytes where
  "create_table_sql = ''create table mysql_db_test(pk1 varchar(36) NOT NULL PRIMARY KEY, pk2 varchar(36), column1 varchar(32), column2 varchar(32), column3 varchar(32), column4 varchar(32))''"

definition insert_sql :: bytes where
  "insert_sql = ''insert into mysql_db_test VALUES (?, 'pk2', 'test-column1', 'test-column2', 'test-column3', 'test-column4');''"

definition select_sql :: bytes where
  "select_sql = ''select * from mysql_db_test where pk1 = ?;''"

text \<open>
  The four blocks of the coroutine, each with the operations it starts and the lines it logs;
  \<open>message\<close> is \<open>error_code::message()\<close>, \<open>complete\<close> is \<open>resultset::complete()\<close>, \<open>show_row\<close> the row's
  \<open>operator<<\<close>. \<open>None\<close> as the end means that control goes on to the next block.
\<close>

type_synonym 'e block = "'e mysql_op list \<times> spd_line list \<times> body_end option"

definition connect_block :: "(error_code \<Rightarrow> bytes) \<Rightarrow> ('e, 'r, 's, 'w) mysql_answers \<Rightarrow> 'e block" where
  "connect_block message a =
     (let op1 = Op_resolve ''127.0.0.1'' ''3309'' in
      case mysql_async_resolve ''127.0.0.1'' ''3309'' (Some (ans_resolve a)) of
        Ready (ec, ep) \<Rightarrow>
          (if failed ec then ([op1], [Spd_error (''async_resolve: '' @ message ec)], Some Co_returned)
           else case mconnect_suspend (MysqlConnectAwaiter ep connection_params) of
             Inl e \<Rightarrow> ([op1], [], Some Not_completed)
           | Inr op2 \<Rightarrow>
               (case mysql_async_connect ep connection_params (Some (ans_connect a)) of
                  Ready ec_ \<Rightarrow>
                    (if failed ec_ then ([op1, op2], [Spd_error (''async_connect: '' @ message ec_)], Some Co_returned)
                     else ([op1, op2], [], None))
                | _ \<Rightarrow> ([op1, op2], [], Some Not_completed)))
      | _ \<Rightarrow> ([op1], [], Some Not_completed))"

definition table_block :: "(error_code \<Rightarrow> bytes) \<Rightarrow> ('e, 'r, 's, 'w) mysql_answers \<Rightarrow> 'e block" where
  "table_block message a =
     (let op1 = Op_query ''DROP TABLE IF EXISTS mysql_db_test''; op2 = Op_query create_table_sql in
      case (mysql_async_query ''DROP TABLE IF EXISTS mysql_db_test'' (Some (ans_drop a)) :: ('e mysql_op, _) awaited) of
        Ready ignored \<Rightarrow>
          (case (mysql_async_query create_table_sql (Some (ans_create a)) :: ('e mysql_op, _) awaited) of
             Ready (ec, ei, rs) \<Rightarrow>
               ([op1, op2], if failed ec then [Spd_error (message ec @ ''-'' @ ei)] else [], None)
           | _ \<Rightarrow> ([op1, op2], [], Some Not_completed))
      | _ \<Rightarrow> ([op1], [], Some Not_completed))"

definition insert_block :: "(error_code \<Rightarrow> bytes) \<Rightarrow> ('e, 'r, 's, 'w) mysql_answers \<Rightarrow> 'e block" where
  "insert_block message a =
     (let op1 = Op_prepare insert_sql; op2 = Op_execute [''10086''] in
      case (mysql_async_prepare_statement insert_sql (Some (ans_prepare_insert a)) :: ('e mysql_op, _) awaited) of
        Ready (pre_insert_ec, pre_insert_ei, stm) \<Rightarrow>
          (if failed pre_insert_ec
           then ([op1], [Spd_error (''async_prepare_statement : '' @ message pre_insert_ec @ ''-'' @ pre_insert_ei)],
                 Some Co_returned)
           else case (mysql_async_execute [''10086''] (Some (ans_execute_insert a)) :: ('e mysql_op, _) awaited) of
             Ready (insert_ec, rs) \<Rightarrow>
               (if failed insert_ec
                then ([op1, op2], [Spd_error (''async_execute : '' @ message insert_ec)], Some Co_returned)
                else ([op1, op2], [], None))
           | _ \<Rightarrow> ([op1, op2], [], Some Not_completed))
      | _ \<Rightarrow> ([op1], [], Some Not_completed))"

text \<open>The error lines of this block print \<open>ec\<close> and \<open>ei\<close> of the preparation, as the code does.\<close>

definition select_block ::
  "(error_code \<Rightarrow> bytes) \<Rightarrow> ('r option \<Rightarrow> bool) \<Rightarrow> ('w \<Rightarrow> bytes) \<Rightarrow> ('e, 'r, 's, 'w) mysql_answers \<Rightarrow> 'e block" where
  "select_block message complete show_row a =
     (let op1 = Op_prepare select_sql; op2 = Op_execute [''10086'']; op3 = Op_read_all in
      case (mysql_async_prepare_statement select_sql (Some (ans_prepare_select a)) :: ('e mysql_op, _) awaited) of
        Ready (ec, ei, stm) \<Rightarrow>
          (if failed ec
           then ([op1], [Spd_error (''async_prepare_statement : '' @ message ec @ ''-'' @ ei)], Some Co_returned)
           else case (mysql_async_execute [''10086''] (Some (ans_execute_select a)) :: ('e mysql_op, _) awaited) of
             Ready (select_ec, rs) \<Rightarrow>
               (if failed select_ec
                then ([op1, op2], [Spd_error (''async_execute : '' @ message ec)], Some Co_returned)
                else case (mysql_read_all (Some (ans_read_all a)) :: ('e mysql_op, _) awaited) of
                  Ready (ec_, ei_, rows) \<Rightarrow>
                    (if failed ec_
                     then ([op1, op2, op3], [Spd_error (''read_all : '' @ message ec_ @ ''-'' @ ei)], Some Co_returned)
                     else if \<not> complete rs
                     then ([op1, op2, op3], [Spd_error ''read result incomplete''], Some (Exited 1))
                     else if rows \<noteq> []
                     then ([op1, op2, op3], [Spd_info (show_row (rows ! 0))], None)
                     else ([op1, op2, op3], [], None))
                | _ \<Rightarrow> ([op1, op2, op3], [], Some Not_completed))
           | _ \<Rightarrow> ([op1, op2], [], Some Not_completed))
      | _ \<Rightarrow> ([op1], [], Some Not_completed))"

text \<open>One block after another, until one ends the coroutine.\<close>

definition then_block :: "'e block \<Rightarrow> 'e block \<Rightarrow> 'e block" where
  "then_block b1 b2 =
     (case b1 of (ops, lines, None) \<Rightarrow> (case b2 of (ops', lines', e) \<Rightarrow> (ops @ ops', lines @ lines', e))
      | (ops, lines, Some e) \<Rightarrow> (ops, lines, Some e))"

definition mysql_body ::
  "(error_code \<Rightarrow> bytes) \<Rightarrow> ('r option \<Rightarrow> bool) \<Rightarrow> ('w \<Rightarrow> bytes) \<Rightarrow> ('e, 'r, 's, 'w) mysql_answers
    \<Rightarrow> 'e mysql_op list \<times> spd_line list \<times> body_end" where
  "mysql_body message complete show_row a =
     (case then_block (connect_block message a)
             (then_block (table_block message a)
               (then_block (insert_block message a) (select_block message complete show_row a))) of
        (ops, lines, e) \<Rightarrow> (ops, lines, case e of None \<Rightarrow> Co_returned | Some x \<Rightarrow> x))"

text \<open>
  \<open>main\<close>: a pool of eight contexts is started, the coroutine waited for on the main thread, and the
  pool stopped; \<open>exit\<close> ends the process at once, its threads with it.
\<close>

definition mysql_main ::
  "(io_context \<Rightarrow> bool) \<Rightarrow> world \<Rightarrow> (ctx_ptr \<Rightarrow> 'e mysql_op list \<times> spd_line list \<times> body_end) \<Rightarrow> proc_outcome" where
  "mysql_main returns w body =
     (case IoContextPool 8 w of
        Inl e \<Rightarrow> Terminate
      | Inr (w1, p) \<Rightarrow>
          (case getIoContext (start p) of
             None \<Rightarrow> Terminate
           | Some (ctx, p1) \<Rightarrow>
               (case snd (snd (body ctx)) of
                  Exited n \<Rightarrow> Exit n
                | Not_completed \<Rightarrow> Hang
                | Co_returned \<Rightarrow>
                    (case stop returns w1 p1 of
                       None \<Rightarrow> Hang
                     | Some (w2, p2) \<Rightarrow> (case destroy_pool p2 of Some x \<Rightarrow> x | None \<Rightarrow> Exit 0)))))"

section \<open>The blocks, branch by branch\<close>

lemma connect_block_eq:
  assumes "failed (fst (ans_resolve a)) \<or> snd (ans_resolve a) \<noteq> []"
  shows "connect_block message a =
    (if failed (fst (ans_resolve a))
     then ([Op_resolve ''127.0.0.1'' ''3309''], [Spd_error (''async_resolve: '' @ message (fst (ans_resolve a)))], Some Co_returned)
     else ([Op_resolve ''127.0.0.1'' ''3309'', Op_mysql_connect (hd (snd (ans_resolve a))) connection_params],
           if failed (ans_connect a) then [Spd_error (''async_connect: '' @ message (ans_connect a))] else [],
           if failed (ans_connect a) then Some Co_returned else None))"
proof -
  obtain ec ep where e: "ans_resolve a = (ec, ep)" by fastforce
  with assms show ?thesis
    by (cases ep) (auto simp: connect_block_def step_simps mconnect_suspend_def MysqlConnectAwaiter_def)
qed

lemma table_block_eq:
  "table_block message a =
    ([Op_query ''DROP TABLE IF EXISTS mysql_db_test'', Op_query create_table_sql],
     if failed (fst (ans_create a))
     then [Spd_error (message (fst (ans_create a)) @ ''-'' @ fst (snd (ans_create a)))] else [], None)"
  by (cases "ans_drop a"; cases "ans_create a") (simp add: table_block_def step_simps)

lemma insert_block_eq:
  "insert_block message a =
    (if failed (fst (ans_prepare_insert a))
     then ([Op_prepare insert_sql], [Spd_error (''async_prepare_statement : ''
             @ message (fst (ans_prepare_insert a)) @ ''-'' @ fst (snd (ans_prepare_insert a)))], Some Co_returned)
     else ([Op_prepare insert_sql, Op_execute [''10086'']],
           if failed (fst (ans_execute_insert a))
           then [Spd_error (''async_execute : '' @ message (fst (ans_execute_insert a)))] else [],
           if failed (fst (ans_execute_insert a)) then Some Co_returned else None))"
  by (cases "ans_prepare_insert a"; cases "ans_execute_insert a") (simp add: insert_block_def step_simps)

lemma select_block_eq:
  "select_block message complete show_row a =
    (if failed (fst (ans_prepare_select a))
     then ([Op_prepare select_sql], [Spd_error (''async_prepare_statement : ''
             @ message (fst (ans_prepare_select a)) @ ''-'' @ fst (snd (ans_prepare_select a)))], Some Co_returned)
     else if failed (fst (ans_execute_select a))
     then ([Op_prepare select_sql, Op_execute [''10086'']],
           [Spd_error (''async_execute : '' @ message (fst (ans_prepare_select a)))], Some Co_returned)
     else ([Op_prepare select_sql, Op_execute [''10086''], Op_read_all],
           if failed (fst (ans_read_all a))
           then [Spd_error (''read_all : '' @ message (fst (ans_read_all a)) @ ''-'' @ fst (snd (ans_prepare_select a)))]
           else if \<not> complete (Some (snd (snd (ans_execute_select a)))) then [Spd_error ''read result incomplete'']
           else if snd (snd (ans_read_all a)) \<noteq> [] then [Spd_info (show_row (snd (snd (ans_read_all a)) ! 0))] else [],
           if failed (fst (ans_read_all a)) then Some Co_returned
           else if \<not> complete (Some (snd (snd (ans_execute_select a)))) then Some (Exited 1) else None))"
  by (cases "ans_prepare_select a"; cases "ans_execute_select a"; cases "ans_read_all a")
    (simp add: select_block_def step_simps)

lemmas block_eqs = connect_block_eq table_block_eq insert_block_eq select_block_eq

text \<open>Everything up to the result of the select went well.\<close>

definition select_read :: "('e, 'r, 's, 'w) mysql_answers \<Rightarrow> bool" where
  "select_read a \<longleftrightarrow> \<not> failed (fst (ans_resolve a)) \<and> \<not> failed (ans_connect a)
     \<and> \<not> failed (fst (ans_prepare_insert a)) \<and> \<not> failed (fst (ans_execute_insert a))
     \<and> \<not> failed (fst (ans_prepare_select a)) \<and> \<not> failed (fst (ans_execute_select a))
     \<and> \<not> failed (fst (ans_read_all a))"

lemma mysql_body_end:
  assumes "failed (fst (ans_resolve a)) \<or> snd (ans_resolve a) \<noteq> []"
  shows "snd (snd (mysql_body message complete show_row a)) =
    (if select_read a \<and> \<not> complete (Some (snd (snd (ans_execute_select a)))) then Exited 1 else Co_returned)"
  using assms by (simp add: mysql_body_def then_block_def block_eqs select_read_def)

section \<open>Properties\<close>

text \<open>
  The session issues its operations in one fixed order and stops at the first failure that
  matters: the operations started are always an initial part of the nine of a complete session,
  and all nine are started when everything but the two table statements succeeds.
\<close>

lemma mysql_operations_in_order:
  assumes "failed (fst (ans_resolve a)) \<or> snd (ans_resolve a) \<noteq> []"
  shows "prefix (fst (mysql_body message complete show_row a))
      [Op_resolve ''127.0.0.1'' ''3309'', Op_mysql_connect (hd (snd (ans_resolve a))) connection_params,
       Op_query ''DROP TABLE IF EXISTS mysql_db_test'', Op_query create_table_sql,
       Op_prepare insert_sql, Op_execute [''10086''],
       Op_prepare select_sql, Op_execute [''10086''], Op_read_all]
    \<and> (select_read a = (length (fst (mysql_body message complete show_row a)) = 9 \<and> \<not> failed (fst (ans_read_all a))))"
  using assms by (simp add: mysql_body_def then_block_def block_eqs select_read_def)

text \<open>
  C28. How the program ends: whatever the database answers, the pool is stopped and \<open>main\<close> returns 0,
  database errors included, except that an incomplete result set makes it exit with 1.
\<close>

theorem mysql_main_outcome:
  assumes "run_contract returns" and "failed (fst (ans_resolve a)) \<or> snd (ans_resolve a) \<noteq> []"
  shows "mysql_main returns w (\<lambda>ctx. mysql_body message complete show_row a) =
    (if select_read a \<and> \<not> complete (Some (snd (snd (ans_execute_select a)))) then Exit 1 else Exit 0)"
proof -
  obtain w1 p where p: "IoContextPool 8 w = Inr (w1, p)"
    using IoContextPool_result [of 8 w] by auto
  then have "pool_inv (start p)" by (simp add: start_inv IoContextPool_inv)
  then obtain cs p1 where c: "calls getIoContext 1 (start p) = Some (cs, p1)"
    using pool_rr.calls_total by blast
  then obtain ctx where ctx: "getIoContext (start p) = Some (ctx, p1)"
    by (auto split: option.splits prod.splits)
  obtain w2 p2 where "stop returns w1 p1 = Some (w2, p2)" "destroy_pool p2 = None"
    using pool_stops [OF assms(1) p c] by blast
  with p ctx show ?thesis
    by (simp add: mysql_main_def mysql_body_end [OF assms(2)])
qed

text \<open>
  A failed select is logged with the wrong error: the line carries the message of the preceding,
  successful preparation, so it does not depend on what went wrong. A failed read is logged with the
  right message but the error text of the preparation.
\<close>

lemma mysql_select_error_text:
  assumes "\<not> failed (fst (ans_resolve a))" and "snd (ans_resolve a) \<noteq> []" and "\<not> failed (ans_connect a)"
    and "\<not> failed (fst (ans_prepare_insert a))" and "\<not> failed (fst (ans_execute_insert a))"
    and "ans_prepare_select a = (No_error, info, st)" and "failed (fst (ans_execute_select a))"
  shows "last (fst (snd (mysql_body message complete show_row a))) = Spd_error (''async_execute : '' @ message No_error)"
  using assms by (simp add: mysql_body_def then_block_def block_eqs failed_def)

text \<open>A session for the witnesses, in which all goes well but what the argument changes.\<close>

definition good_answers :: "error_code \<Rightarrow> (nat, unit, unit, bytes) mysql_answers" where
  "good_answers select_ec = \<lparr>ans_resolve = (No_error, [1]), ans_connect = No_error,
     ans_drop = (Other_error 1, ''no table'', ()), ans_create = (No_error, [], ()),
     ans_prepare_insert = (No_error, [], ()), ans_execute_insert = (No_error, [], ()),
     ans_prepare_select = (No_error, [], ()), ans_execute_select = (select_ec, [], ()),
     ans_read_all = (No_error, [], [''row''])\<rparr>"

theorem mysql_main_outcome_witness:
  "mysql_main (\<lambda>c. ctx_stopped c \<or> ctx_work c = 0) empty_world
     (\<lambda>ctx. mysql_body (\<lambda>e. []) (\<lambda>r. False) (\<lambda>w. w) (good_answers No_error)) = Exit 1"
  using mysql_main_outcome [of "\<lambda>c. ctx_stopped c \<or> ctx_work c = 0" "good_answers No_error"
      empty_world "\<lambda>e. []" "\<lambda>r. False" "\<lambda>w. w"]
  by (simp add: run_contract_def good_answers_def select_read_def failed_def)

end
