(* ===== verification/Std_String.thy ===== *)
theory Std_String
  imports Prelude
begin

text \<open>
  Decimal text as the C++ standard library prints it (\<open>std::to_string\<close> and \<open>operator<<\<close> on
  integers), with a reader that shows that no number is lost. Shared by the programs that print
  integers.
\<close>

section \<open>Decimal numbers\<close>

text \<open>\<open>std::to_string\<close> and \<open>operator<<\<close> on integers.\<close>

fun digits :: "nat \<Rightarrow> bytes" where
  "digits n = (if n < 10 then [char_of (48 + n)] else digits (n div 10) @ [char_of (48 + n mod 10)])"

declare digits.simps [simp del]

definition std_to_string :: "int \<Rightarrow> bytes" where
  "std_to_string i = (if i < 0 then CHR ''-'' # digits (nat (- i)) else digits (nat i))"

text \<open>Reading a decimal number back.\<close>

definition read_digits :: "bytes \<Rightarrow> nat" where
  "read_digits = foldl (\<lambda>n c. 10 * n + (of_char c - 48)) 0"

definition read_int :: "bytes \<Rightarrow> int" where
  "read_int s = (if s \<noteq> [] \<and> hd s = CHR ''-'' then - int (read_digits (tl s)) else int (read_digits s))"

lemma read_digits_digits: "read_digits (digits n) = n"
proof (induction n rule: digits.induct)
  case (1 n)
  have "of_char (char_of (48 + m)) = 48 + m" if "m < 10" for m :: nat
    using that by (simp add: of_char_of)
  then show ?case
    using 1 by (cases "n < 10") (subst digits.simps, simp add: read_digits_def)+
qed

lemma digits_chars: "set (digits n) \<subseteq> {c. 48 \<le> (of_char c :: nat) \<and> (of_char c :: nat) < 58}"
proof (induction n rule: digits.induct)
  case (1 n)
  then show ?case
    by (cases "n < 10") (simp_all add: digits.simps [of n] of_char_of)
qed

lemma digits_not_Nil: "digits n \<noteq> []"
  by (subst digits.simps) simp

lemma hd_digits_not_minus: "digits n = c # t \<Longrightarrow> c \<noteq> CHR ''-''"
  using digits_chars [of n] by auto

lemma read_int_std: "read_int (std_to_string i) = i"
proof (cases "i < 0")
  case True
  then show ?thesis by (simp add: std_to_string_def read_int_def read_digits_digits)
next
  case False
  obtain c t where "digits (nat i) = c # t" using digits_not_Nil by (cases "digits (nat i)") auto
  with False hd_digits_not_minus [OF this] read_digits_digits [of "nat i"] show ?thesis
    by (simp add: std_to_string_def read_int_def)
qed

lemma std_to_string_inj: "std_to_string i = std_to_string j \<longleftrightarrow> i = j"
  by (metis read_int_std)

end
