(* ===== verification/Sql_Table.thy ===== *)
theory Sql_Table
  imports Std_String "HOL-Library.Multiset"
begin

text \<open>
  The sqlpp11 part of \<open>main\<close> in \<open>src/test.cpp\<close>, over the table of \<open>include/TestSqlppTable.h\<close>: a
  table is created, filled, thinned out, read and updated, and a database exception anywhere is
  caught and logged. The connection is a parameter; \<open>db_ok\<close> is what SQL says its statements do to
  the rows of a table nobody else uses.
\<close>

section \<open>The table and the statements\<close>

text \<open>Both columns can be null.\<close>

record sql_row =
  sql_name :: "bytes option"
  sql_age :: "int option"

definition table_literal :: bytes where "table_literal = ''TestSqlppTable''"
definition name_literal :: bytes where "name_literal = ''name''"
definition age_literal :: bytes where "age_literal = ''age''"

datatype sql_cond = Age_eq int | Age_gt int

text \<open>A comparison with null is not true.\<close>

definition holds :: "sql_cond \<Rightarrow> sql_row \<Rightarrow> bool" where
  "holds c r =
     (case sql_age r of
        None \<Rightarrow> False
      | Some a \<Rightarrow> (case c of Age_eq n \<Rightarrow> a = n | Age_gt n \<Rightarrow> a > n))"

datatype sql_stmt =
    Execute bytes
  | Insert_into "sql_row list"
  | Remove_from sql_cond
  | Update_name bytes sql_cond

text \<open>An error is the text of the \<open>sqlpp::exception\<close>.\<close>

record 'd sql_db =
  run_stmt :: "sql_stmt \<Rightarrow> 'd \<Rightarrow> bytes + 'd"
  run_select :: "sql_cond \<Rightarrow> 'd \<Rightarrow> bytes + sql_row list"
  db_rows :: "'d \<Rightarrow> sql_row multiset"

definition drop_sql :: bytes where "drop_sql = ''DROP TABLE IF EXISTS TestSqlppTable''"
definition create_sql :: bytes where
  "create_sql = ''CREATE TABLE TestSqlppTable (name VARCHAR(100),age INTEGER)''"

definition db_ok :: "'d sql_db \<Rightarrow> bool" where
  "db_ok D \<longleftrightarrow>
     (\<forall>d d'. run_stmt D (Execute create_sql) d = Inr d' \<longrightarrow> db_rows D d' = {#})
     \<and> (\<forall>rs d d'. run_stmt D (Insert_into rs) d = Inr d' \<longrightarrow> db_rows D d' = db_rows D d + mset rs)
     \<and> (\<forall>c d d'. run_stmt D (Remove_from c) d = Inr d' \<longrightarrow> db_rows D d' = filter_mset (\<lambda>r. \<not> holds c r) (db_rows D d))
     \<and> (\<forall>n c d d'. run_stmt D (Update_name n c) d = Inr d' \<longrightarrow>
          db_rows D d' = image_mset (\<lambda>r. if holds c r then r\<lparr>sql_name := Some n\<rparr> else r) (db_rows D d))
     \<and> (\<forall>c d rs. run_select D c d = Inr rs \<longrightarrow> mset rs = filter_mset (holds c) (db_rows D d))"

section \<open>The program\<close>

text \<open>The loop that adds the rows of the multiple insert.\<close>

function add_values :: "nat \<Rightarrow> sql_row list \<Rightarrow> sql_row list" where
  "add_values i vs =
     (if i < 10 then
        (let ostr = ''linyiong'' @ std_to_string (int i)
         in add_values (i + 1) (vs @ [\<lparr>sql_name = Some ostr, sql_age = Some (int i)\<rparr>]))
      else vs)"
  by pat_completeness auto
termination by (relation "measure (\<lambda>(i, vs). 10 - i)") auto

declare add_values.simps [simp del]

text \<open>\<open>row.name\<close> and \<open>row.age\<close> print as \<open>NULL\<close> when they are null.\<close>

definition print_row :: "sql_row \<Rightarrow> bytes" where
  "print_row r =
     (case sql_name r of None \<Rightarrow> ''NULL'' | Some n \<Rightarrow> n) @ '':''
     @ (case sql_age r of None \<Rightarrow> ''NULL'' | Some a \<Rightarrow> std_to_string a)"

text \<open>
  The statements in order; the first exception leaves the sequence with the lines printed so far,
  and the handler logs its text.
\<close>

record 'd sql_result =
  final_db :: "'d option"
  printed :: "bytes list"
  logged :: "bytes list"

definition caught :: "bytes list \<Rightarrow> bytes \<Rightarrow> 'd sql_result" where
  "caught out e = \<lparr>final_db = None, printed = out, logged = [e]\<rparr>"

definition sql_main :: "'d sql_db \<Rightarrow> 'd \<Rightarrow> 'd sql_result" where
  "sql_main D d0 =
     (case run_stmt D (Execute drop_sql) d0 of Inl e \<Rightarrow> caught [] e | Inr d1 \<Rightarrow>
     (case run_stmt D (Execute create_sql) d1 of Inl e \<Rightarrow> caught [] e | Inr d2 \<Rightarrow>
     (case run_stmt D (Insert_into [\<lparr>sql_name = Some ''one'', sql_age = Some 12\<rparr>]) d2 of Inl e \<Rightarrow> caught [] e | Inr d3 \<Rightarrow>
     (let multi_insert = add_values 0 [] in
      case run_stmt D (Insert_into multi_insert) d3 of Inl e \<Rightarrow> caught [] e | Inr d4 \<Rightarrow>
     (case run_stmt D (Remove_from (Age_eq 12)) d4 of Inl e \<Rightarrow> caught [] e | Inr d5 \<Rightarrow>
     (case run_select D (Age_gt 1) d5 of Inl e \<Rightarrow> caught [] e | Inr rows \<Rightarrow>
     (let out = map print_row rows in
      case run_stmt D (Update_name ''linyilong3'' (Age_gt 3)) d5 of Inl e \<Rightarrow> caught out e | Inr d6 \<Rightarrow>
      \<lparr>final_db = Some d6, printed = out, logged = []\<rparr>)))))))"

section \<open>Properties\<close>

lemma add_values_eq:
  "i \<le> 10 \<Longrightarrow> add_values i vs =
     vs @ map (\<lambda>k. \<lparr>sql_name = Some (''linyiong'' @ std_to_string (int k)), sql_age = Some (int k)\<rparr>) [i..<10]"
proof (induction "10 - i" arbitrary: i vs)
  case 0
  then show ?case by (simp add: add_values.simps)
next
  case (Suc n)
  then have "i < 10" "n = 10 - (i + 1)" by simp_all
  with Suc.hyps(1) [OF this(2)] show ?case
    by (simp add: add_values.simps [of i] Let_def upt_conv_Cons del: upt_Suc)
qed

lemma upt_ten: "[0..<10] = [0, 1, 2, 3, 4, 5, 6, 7, 8, 9]" "[2..<10] = [2, 3, 4, 5, 6, 7, 8, 9]"
  by (simp_all add: upt_rec)

lemmas added_rows = add_values_eq [of 0 "[]", unfolded upt_ten, simplified]

text \<open>
  C38. When no statement fails, the program prints one line for each of the ages 2 to 9 (in the
  order the database returns the rows) and leaves ten rows, the ages 0 to 9: the row \<open>one\<close> is gone,
  and exactly the rows with an age above 3 have the new name.
\<close>

theorem sql_main_rows:
  assumes "db_ok D" and "final_db (sql_main D d0) = Some d"
  shows "logged (sql_main D d0) = []
    \<and> mset (printed (sql_main D d0)) =
        mset (map (\<lambda>k. ''linyiong'' @ std_to_string (int k) @ '':'' @ std_to_string (int k)) [2..<10])
    \<and> db_rows D d = mset (map (\<lambda>k. \<lparr>sql_name = Some (if k > 3 then ''linyilong3'' else ''linyiong'' @ std_to_string (int k)),
                                     sql_age = Some (int k)\<rparr>) [0..<10])"
proof -
  let ?one = "\<lparr>sql_name = Some ''one'', sql_age = Some 12\<rparr>"
  from assms(2) obtain d1 d2 d3 d4 d5 rs where
    run: "run_stmt D (Execute create_sql) d1 = Inr d2" "run_stmt D (Insert_into [?one]) d2 = Inr d3"
      "run_stmt D (Insert_into (add_values 0 [])) d3 = Inr d4" "run_stmt D (Remove_from (Age_eq 12)) d4 = Inr d5"
      "run_select D (Age_gt 1) d5 = Inr rs" "run_stmt D (Update_name ''linyilong3'' (Age_gt 3)) d5 = Inr d"
    and res: "logged (sql_main D d0) = []" "printed (sql_main D d0) = map print_row rs"
    by (auto simp: sql_main_def caught_def Let_def split: sum.splits)
  note db = assms(1) [unfolded db_ok_def]
  have "db_rows D d4 = add_mset ?one (mset (add_values 0 []))"
    using db run(1-3) by simp
  moreover have "db_rows D d5 = filter_mset (\<lambda>r. \<not> holds (Age_eq 12) r) (db_rows D d4)"
    using db run(4) by blast
  ultimately have d5: "db_rows D d5 = mset (add_values 0 [])"
    by (simp add: added_rows holds_def)
  have "mset rs = filter_mset (holds (Age_gt 1)) (db_rows D d5)" using db run(5) by blast
  then have "mset (printed (sql_main D d0)) = image_mset print_row (filter_mset (holds (Age_gt 1)) (mset (add_values 0 [])))"
    by (simp add: res d5)
  moreover have "db_rows D d = image_mset (\<lambda>r. if holds (Age_gt 3) r then r\<lparr>sql_name := Some ''linyilong3''\<rparr> else r)
      (mset (add_values 0 []))"
    using db run(6) d5 by simp
  ultimately show ?thesis
    using res(1) unfolding upt_ten by (simp add: added_rows holds_def print_row_def)
qed

text \<open>A database for the witness: the list of its rows.\<close>

definition list_db :: "sql_row list sql_db" where
  "list_db = \<lparr>run_stmt = (\<lambda>st d. Inr (case st of
       Execute q \<Rightarrow> [] | Insert_into rs \<Rightarrow> d @ rs | Remove_from c \<Rightarrow> filter (\<lambda>r. \<not> holds c r) d
     | Update_name n c \<Rightarrow> map (\<lambda>r. if holds c r then r\<lparr>sql_name := Some n\<rparr> else r) d)),
     run_select = (\<lambda>c d. Inr (filter (holds c) d)), db_rows = mset\<rparr>"

theorem sql_main_rows_witness:
  "\<exists>d. final_db (sql_main list_db []) = Some d \<and> length d = 10 \<and> logged (sql_main list_db []) = []"
proof -
  obtain d where d: "final_db (sql_main list_db []) = Some d"
    by (simp add: sql_main_def list_db_def Let_def)
  have "db_ok list_db" by (simp add: db_ok_def list_db_def)
  from sql_main_rows [OF this d] have rows: "db_rows list_db d = mset (map (\<lambda>k. \<lparr>sql_name = Some (if k > 3 then ''linyilong3''
      else ''linyiong'' @ std_to_string (int k)), sql_age = Some (int k)\<rparr>) [0..<10])"
    and "logged (sql_main list_db []) = []" by blast+
  have "size (db_rows list_db d) = 10" unfolding rows size_mset by simp
  with d \<open>logged _ = []\<close> show ?thesis by (simp add: list_db_def)
qed

end
