(* ===== verification/Sql_Schema.thy ===== *)
theory Sql_Schema
  imports Sql_Table
begin

text \<open>
  The table type of \<open>include/TestSqlppTable.h\<close>, its columns with their traits, and the data
  definition it was generated from, \<open>include/test_sqlpp_table.sql\<close>. sqlpp11 checks the statements of
  \<open>src/test.cpp\<close> against these traits when it compiles them; here the check is a function, and the
  program passes it.
\<close>

section \<open>Columns and tables\<close>

datatype value_type = Varchar | Integer

text \<open>
  \<open>make_traits<value type, tag::can_be_null>\<close>, and the literal with its closing null character. The
  member that holds a column's value in a row (\<open>_member_t\<close>) is a field of \<open>sql_row\<close>.
\<close>

record column =
  literal_array :: bytes
  value_type :: value_type
  can_be_null :: bool

definition c_literal :: "bytes \<Rightarrow> bytes" where
  "c_literal s = s @ [CHR 0x00]"

text \<open>
  The text of such an array: its characters before the null, which is what
  \<open>make_char_sequence<sizeof(literal), literal>\<close> is given with its size.
\<close>

definition literal_text :: "bytes \<Rightarrow> bytes" where
  "literal_text a = takeWhile (\<lambda>c. c \<noteq> CHR 0x00) a"

definition column_name_t :: "column \<Rightarrow> bytes" where
  "column_name_t c = literal_text (literal_array c)"

definition Name :: column where
  "Name = \<lparr>literal_array = c_literal ''name'', value_type = Varchar, can_be_null = True\<rparr>"

definition Age :: column where
  "Age = \<lparr>literal_array = c_literal ''age'', value_type = Integer, can_be_null = True\<rparr>"

record table_type =
  table_array :: bytes
  columns :: "column list"

definition TestSqlppTable :: table_type where
  "TestSqlppTable = \<lparr>table_array = c_literal ''TestSqlppTable'', columns = [Name, Age]\<rparr>"

definition table_name_t :: "table_type \<Rightarrow> bytes" where
  "table_name_t t = literal_text (table_array t)"

lemma text_of_literal: "CHR 0x00 \<notin> set s \<Longrightarrow> literal_text (c_literal s) = s"
  by (induction s) (auto simp: literal_text_def c_literal_def)

lemma literals_are_names:
  "column_name_t Name = name_literal" "column_name_t Age = age_literal" "table_name_t TestSqlppTable = table_literal"
  by (simp_all add: column_name_t_def table_name_t_def Name_def Age_def TestSqlppTable_def text_of_literal
      name_literal_def age_literal_def table_literal_def)

section \<open>The data definition\<close>

text \<open>
  A column definition: its SQL type, with the width a \<open>VARCHAR\<close> is given. Nothing makes a column
  \<open>NOT NULL\<close> in this file.
\<close>

datatype ddl_type = VARCHAR nat | INTEGER

type_synonym ddl = "bytes \<times> (bytes \<times> ddl_type) list"

definition table_ddl :: ddl where
  "table_ddl = (''TestSqlppTable'', [(''name'', VARCHAR 100), (''age'', INTEGER)])"

fun ddl_type_sql :: "ddl_type \<Rightarrow> bytes" where
  "ddl_type_sql (VARCHAR n) = ''VARCHAR('' @ std_to_string (int n) @ '')''"
| "ddl_type_sql INTEGER = ''INTEGER''"

fun column_list_sql :: "(bytes \<times> ddl_type) list \<Rightarrow> bytes" where
  "column_list_sql [] = []"
| "column_list_sql [(n, t)] = n @ '' '' @ ddl_type_sql t"
| "column_list_sql ((n, t) # cs) = n @ '' '' @ ddl_type_sql t @ '','' @ column_list_sql cs"

definition ddl_sql :: "ddl \<Rightarrow> bytes" where
  "ddl_sql d = ''CREATE TABLE '' @ fst d @ '' ('' @ column_list_sql (snd d) @ '')''"

text \<open>The header's view of a column definition.\<close>

fun column_of_ddl :: "bytes \<times> ddl_type \<Rightarrow> column" where
  "column_of_ddl (n, VARCHAR w) = \<lparr>literal_array = c_literal n, value_type = Varchar, can_be_null = True\<rparr>"
| "column_of_ddl (n, INTEGER) = \<lparr>literal_array = c_literal n, value_type = Integer, can_be_null = True\<rparr>"

text \<open>The statement the program executes, the file and the header describe the same table.\<close>

lemma hundred_text: "std_to_string 100 = ''100''"
  by code_simp

lemma schema_agrees:
  "ddl_sql table_ddl = create_sql"
  "TestSqlppTable = \<lparr>table_array = c_literal (fst table_ddl), columns = map column_of_ddl (snd table_ddl)\<rparr>"
  by (simp_all add: ddl_sql_def table_ddl_def create_sql_def hundred_text TestSqlppTable_def Name_def Age_def)

section \<open>Well-typed statements\<close>

datatype cell = Text bytes | Number int

definition row_cells :: "sql_row \<Rightarrow> (bytes \<times> cell option) list" where
  "row_cells r = [(name_literal, map_option Text (sql_name r)), (age_literal, map_option Number (sql_age r))]"

text \<open>A value fits the type of the header and the width of the definition.\<close>

fun cell_typed :: "value_type \<Rightarrow> ddl_type \<Rightarrow> cell \<Rightarrow> bool" where
  "cell_typed Varchar (VARCHAR w) (Text s) \<longleftrightarrow> length s \<le> w"
| "cell_typed Integer INTEGER (Number i) \<longleftrightarrow> - (2 ^ 31) \<le> i \<and> i < 2 ^ 31"
| "cell_typed _ _ _ \<longleftrightarrow> False"

text \<open>The cells of a row, in the order of the columns.\<close>

fun cells_typed :: "column list \<Rightarrow> (bytes \<times> ddl_type) list \<Rightarrow> (bytes \<times> cell option) list \<Rightarrow> bool" where
  "cells_typed [] [] [] \<longleftrightarrow> True"
| "cells_typed (c # cs) ((n, t) # ds) ((m, v) # vs) \<longleftrightarrow>
     column_name_t c = n \<and> m = n
     \<and> (case v of None \<Rightarrow> can_be_null c | Some x \<Rightarrow> cell_typed (value_type c) t x)
     \<and> cells_typed cs ds vs"
| "cells_typed _ _ _ \<longleftrightarrow> False"

definition row_typed :: "table_type \<Rightarrow> ddl \<Rightarrow> sql_row \<Rightarrow> bool" where
  "row_typed T d r \<longleftrightarrow> table_name_t T = fst d \<and> cells_typed (columns T) (snd d) (row_cells r)"

text \<open>
  A statement is well typed when what it writes is; \<open>Execute\<close> takes any text.
\<close>

fun cond_typed :: "sql_cond \<Rightarrow> bool" where
  "cond_typed (Age_eq n) = cell_typed (value_type Age) INTEGER (Number n)"
| "cond_typed (Age_gt n) = cell_typed (value_type Age) INTEGER (Number n)"

definition stmt_typed :: "table_type \<Rightarrow> ddl \<Rightarrow> sql_stmt \<Rightarrow> bool" where
  "stmt_typed T d st \<longleftrightarrow>
     (case st of
        Execute q \<Rightarrow> True
      | Insert_into rs \<Rightarrow> list_all (row_typed T d) rs
      | Remove_from c \<Rightarrow> cond_typed c
      | Update_name n c \<Rightarrow> cond_typed c \<and> row_typed T d \<lparr>sql_name = Some n, sql_age = None\<rparr>)"

text \<open>The same database behind a check of every statement.\<close>

definition checked :: "table_type \<Rightarrow> ddl \<Rightarrow> 'd sql_db \<Rightarrow> 'd sql_db" where
  "checked T d D = D\<lparr>
     run_stmt := (\<lambda>st x. if stmt_typed T d st then run_stmt D st x else Inl ''type error''),
     run_select := (\<lambda>c x. if cond_typed c then run_select D c x else Inl ''type error'')\<rparr>"

lemma checked_runs:
  "stmt_typed T d st \<Longrightarrow> run_stmt (checked T d D) st = run_stmt D st"
  "cond_typed c \<Longrightarrow> run_select (checked T d D) c = run_select D c"
  by (simp_all add: checked_def fun_eq_iff)

lemma row_typed_iff:
  "row_typed TestSqlppTable table_ddl r \<longleftrightarrow>
     (case sql_name r of None \<Rightarrow> True | Some n \<Rightarrow> length n \<le> 100)
     \<and> (case sql_age r of None \<Rightarrow> True | Some a \<Rightarrow> - (2 ^ 31) \<le> a \<and> a < 2 ^ 31)"
  using literals_are_names
  by (simp add: row_typed_def row_cells_def table_ddl_def TestSqlppTable_def name_literal_def age_literal_def table_literal_def
      Name_def Age_def split: option.splits)

text \<open>What a well-typed statement leaves is well typed.\<close>

lemma stmt_preserves_types:
  assumes "db_ok D" and "run_stmt D st x = Inr x'" and "stmt_typed TestSqlppTable table_ddl st"
    and "\<And>q. st = Execute q \<Longrightarrow> q = create_sql"
    and "\<And>r. r \<in># db_rows D x \<Longrightarrow> row_typed TestSqlppTable table_ddl r"
  shows "\<forall>r\<in>#db_rows D x'. row_typed TestSqlppTable table_ddl r"
proof (cases st)
  case (Execute q)
  then have "db_rows D x' = {#}" using assms(1,2,4) by (simp add: db_ok_def)
  then show ?thesis by simp
next
  case (Insert_into rs)
  then have "db_rows D x' = db_rows D x + mset rs" using assms(1,2) by (simp add: db_ok_def)
  then show ?thesis using assms(3,5) Insert_into by (auto simp: stmt_typed_def list_all_iff)
next
  case (Remove_from c)
  then have "db_rows D x' = filter_mset (\<lambda>r. \<not> holds c r) (db_rows D x)" using assms(1,2) by (simp add: db_ok_def)
  then show ?thesis using assms(5) by auto
next
  case (Update_name n c)
  then have "db_rows D x' = image_mset (\<lambda>r. if holds c r then r\<lparr>sql_name := Some n\<rparr> else r) (db_rows D x)"
    using assms(1,2) by (simp add: db_ok_def)
  then show ?thesis using assms(3,5) Update_name by (fastforce simp: stmt_typed_def row_typed_iff)
qed

section \<open>Properties\<close>

lemma digit_length: "0 \<le> i \<Longrightarrow> i < 10 \<Longrightarrow> length (std_to_string i) = 1"
  by (simp add: std_to_string_def digits.simps)

lemma main_statements_typed:
  "stmt_typed TestSqlppTable table_ddl (Insert_into [\<lparr>sql_name = Some ''one'', sql_age = Some 12\<rparr>])"
  "stmt_typed TestSqlppTable table_ddl (Insert_into (add_values 0 []))"
  "stmt_typed TestSqlppTable table_ddl (Remove_from (Age_eq 12))"
  "stmt_typed TestSqlppTable table_ddl (Update_name ''linyilong3'' (Age_gt 3))"
  "stmt_typed TestSqlppTable table_ddl (Execute q)" "cond_typed (Age_gt 1)"
  by (simp_all add: stmt_typed_def row_typed_iff added_rows digit_length Age_def)

text \<open>
  C18. The program is well typed. Behind a database that rejects every statement that does not fit
  the columns of the header, with the widths of the data definition, \<open>main\<close> does exactly what it does
  without the check; and the rows it leaves fit the table.
\<close>

theorem sql_main_well_typed:
  assumes "db_ok D"
  shows "sql_main (checked TestSqlppTable table_ddl D) x = sql_main D x
     \<and> (\<forall>x'. final_db (sql_main D x) = Some x' \<longrightarrow> (\<forall>r\<in>#db_rows D x'. row_typed TestSqlppTable table_ddl r))"
proof (intro conjI allI impI)
  show "sql_main (checked TestSqlppTable table_ddl D) x = sql_main D x"
    unfolding sql_main_def Let_def by (simp only: checked_runs main_statements_typed)
next
  fix x'
  assume "final_db (sql_main D x) = Some x'"
  then obtain d1 d2 d3 d4 d5 where
    run: "run_stmt D (Execute create_sql) d1 = Inr d2"
      "run_stmt D (Insert_into [\<lparr>sql_name = Some ''one'', sql_age = Some 12\<rparr>]) d2 = Inr d3"
      "run_stmt D (Insert_into (add_values 0 [])) d3 = Inr d4" "run_stmt D (Remove_from (Age_eq 12)) d4 = Inr d5"
      "run_stmt D (Update_name ''linyilong3'' (Age_gt 3)) d5 = Inr x'"
    by (auto simp: sql_main_def caught_def Let_def split: sum.splits)
  have "db_rows D d2 = {#}" using assms run(1) by (simp add: db_ok_def)
  then have "\<forall>r\<in>#db_rows D d2. row_typed TestSqlppTable table_ddl r" by simp
  then have "\<forall>r\<in>#db_rows D d5. row_typed TestSqlppTable table_ddl r"
    using stmt_preserves_types [OF assms run(2)] stmt_preserves_types [OF assms run(3)] stmt_preserves_types [OF assms run(4)]
      main_statements_typed by blast
  then show "\<forall>r\<in>#db_rows D x'. row_typed TestSqlppTable table_ddl r"
    using stmt_preserves_types [OF assms run(5)] main_statements_typed by blast
qed

theorem sql_main_well_typed_witness:
  "\<exists>x'. final_db (sql_main (checked TestSqlppTable table_ddl list_db) []) = Some x'
     \<and> (\<forall>r\<in>#db_rows list_db x'. row_typed TestSqlppTable table_ddl r)"
proof -
  have "db_ok list_db" by (simp add: db_ok_def list_db_def)
  moreover obtain x' where "final_db (sql_main list_db []) = Some x'"
    by (simp add: sql_main_def list_db_def Let_def)
  ultimately show ?thesis using sql_main_well_typed by metis
qed

end
