(* ===== verification/Yaml_To_String.thy ===== *)
theory Yaml_To_String
  imports Std_String
begin

text \<open>
  \<open>src/test_yaml_cpp_struct.cpp\<close>: the family of \<open>to_string\<close> functions (overload resolution done:
  one definition per overload and element type the program uses), the two configuration structs
  and \<open>main\<close>. Unordered containers are lists in their iteration order. The YAML library
  (\<open>from_yaml\<close>, \<open>to_yaml\<close>) and the standard library's formatting of \<open>double\<close> are parameters.
\<close>

section \<open>The overloads of \<open>to_string\<close>\<close>

text \<open>
  The variadic template, for the argument types it is used with. \<open>func\<close> widens the two
  character-sized integers so that they print as numbers.
\<close>

datatype stream_arg = Str bytes | U8 "8 word" | I8 "8 word" | I32 "32 word"

definition widen :: "stream_arg \<Rightarrow> stream_arg" where
  "widen t = (case t of U8 b \<Rightarrow> I32 (ucast b) | I8 b \<Rightarrow> I32 (scast b) | _ \<Rightarrow> t)"

definition put_arg :: "stream_arg \<Rightarrow> bytes" where
  "put_arg t =
     (case t of Str s \<Rightarrow> s | U8 b \<Rightarrow> [char_of (unat b)] | I8 b \<Rightarrow> [char_of (unat b)]
      | I32 i \<Rightarrow> std_to_string (sint i))"

fun to_string_args_loop :: "bytes \<Rightarrow> bytes \<Rightarrow> stream_arg list \<Rightarrow> bytes" where
  "to_string_args_loop ss sep [] = ss"
| "to_string_args_loop ss sep (t # ts) = to_string_args_loop (ss @ sep @ put_arg (widen t)) '' '' ts"

definition to_string_args :: "stream_arg list \<Rightarrow> bytes" where
  "to_string_args ts = to_string_args_loop [] [] ts"

definition to_string_bool :: "bool \<Rightarrow> bytes" where
  "to_string_bool value = (if value then ''true'' else ''false'')"

text \<open>The loop of the sequence overloads: the first element, then the others after a comma.\<close>

fun seq_loop :: "('a \<Rightarrow> bytes) \<Rightarrow> bytes \<Rightarrow> 'a list \<Rightarrow> bytes" where
  "seq_loop f str [] = str"
| "seq_loop f str (x # it) = seq_loop f (str @ '','' @ f x) it"

definition seq_body :: "('a \<Rightarrow> bytes) \<Rightarrow> bytes \<Rightarrow> 'a list \<Rightarrow> bytes" where
  "seq_body f str xs = (case xs of [] \<Rightarrow> seq_loop f str [] | x # it \<Rightarrow> seq_loop f (str @ f x) it)"

definition to_string_vector :: "('a \<Rightarrow> bytes) \<Rightarrow> 'a list \<Rightarrow> bytes" where
  "to_string_vector f vector = seq_body f ''['' vector @ '']''"

definition to_string_unordered_set :: "('a \<Rightarrow> bytes) \<Rightarrow> 'a list \<Rightarrow> bytes" where
  "to_string_unordered_set f vector = seq_body f ''['' vector @ '']''"

definition to_string_unordered_map :: "('k \<Rightarrow> bytes) \<Rightarrow> ('v \<Rightarrow> bytes) \<Rightarrow> ('k \<times> 'v) list \<Rightarrow> bytes" where
  "to_string_unordered_map f g m = seq_body (\<lambda>(k, v). f k @ ''->'' @ g v) ''{'' m @ ''}''"

definition to_string_optional :: "bytes option \<Rightarrow> bytes" where
  "to_string_optional opt = (case opt of Some s \<Rightarrow> s | None \<Rightarrow> ''(nullopt)'')"

section \<open>The structs\<close>

text \<open>\<open>enum class AccountType : uint8_t\<close>: a byte, of which two values have names.\<close>

type_synonym AccountType = "8 word"

definition Personal :: AccountType where "Personal = 1"
definition Company :: AccountType where "Company = 2"

text \<open>\<open>None\<close> is \<open>throw std::bad_cast()\<close>.\<close>

definition to_string_AccountType :: "AccountType \<Rightarrow> bytes option" where
  "to_string_AccountType type =
     (if type = Personal then Some ''Personal''
      else if type = Company then Some ''Company'' else None)"

record account_info =
  ai_flag :: bool
  ai_name :: bytes
  ai_address :: "(bytes \<times> 32 word) list"
  ai_num :: "bytes option"
  ai_msec :: "64 word"
  ai_tuple :: "bytes \<times> 8 word"
  ai_map_tuple :: "(bytes \<times> (bytes \<times> 32 word)) list"

definition to_string_AccountInfo :: "account_info \<Rightarrow> bytes" where
  "to_string_AccountInfo aif =
     ''AccountInfo'' @ '' name='' @ ai_name aif
     @ '' address='' @ to_string_unordered_map (\<lambda>k. k) (\<lambda>i. std_to_string (sint i)) (ai_address aif)
     @ '' num='' @ to_string_optional (ai_num aif)
     @ '' msec='' @ std_to_string (sint (ai_msec aif))
     @ '' tuple='' @ to_string_args [Str (fst (ai_tuple aif)), U8 (snd (ai_tuple aif))]
     @ '' map_tuple='' @ to_string_unordered_map (\<lambda>k. k) (\<lambda>(a, b). to_string_args [Str a, I32 b]) (ai_map_tuple aif)
     @ '' flag='' @ to_string_bool (ai_flag aif)"

record 'd config =
  cfg_ch :: "8 word"
  cfg_price :: 'd
  cfg_count :: "16 word"
  cfg_content :: bytes
  cfg_map :: "(bytes \<times> bytes) list"
  cfg_account_info :: account_info
  cfg_vec :: "bytes list"
  cfg_set_vec :: "8 word list"
  cfg_account_type :: AccountType

text \<open>\<open>char\<close> is signed, as on the platform the program is built for.\<close>

definition to_string_Config :: "('d \<Rightarrow> bytes) \<Rightarrow> 'd config \<Rightarrow> bytes option" where
  "to_string_Config std_to_string_double cfg =
     (case to_string_AccountType (cfg_account_type cfg) of
        None \<Rightarrow> None
      | Some account_type \<Rightarrow> Some (
          ''Config'' @ '' price='' @ std_to_string_double (cfg_price cfg)
          @ '' count='' @ std_to_string (sint (cfg_count cfg))
          @ '' content='' @ cfg_content cfg
          @ '' map='' @ to_string_unordered_map (\<lambda>k. k) (\<lambda>v. v) (cfg_map cfg)
          @ '' account_info='' @ to_string_AccountInfo (cfg_account_info cfg)
          @ '' vec='' @ to_string_vector (\<lambda>s. s) (cfg_vec cfg)
          @ '' set_vec='' @ to_string_unordered_set (\<lambda>b. std_to_string (uint b)) (cfg_set_vec cfg)
          @ '' account_type='' @ account_type
          @ '' ch='' @ std_to_string (sint (cfg_ch cfg))))"

section \<open>\<open>main\<close>\<close>

datatype log_line = Info bytes | Error bytes

text \<open>
  \<open>argv1\<close> is \<open>None\<close> when the program has no argument. \<open>from_yaml\<close> and \<open>to_yaml\<close> return an optional
  and an error text; an exception (of \<open>from_yaml\<close> \<open>None\<close>, of \<open>to_string\<close>, of \<open>value()\<close> on an empty
  optional) is caught by nobody.
\<close>

definition yaml_main ::
  "(bytes option \<Rightarrow> ('d config option \<times> bytes) option) \<Rightarrow> ('d config \<Rightarrow> bytes option \<times> bytes)
    \<Rightarrow> ('d \<Rightarrow> bytes) \<Rightarrow> bytes option \<Rightarrow> log_line list \<times> proc_outcome" where
  "yaml_main from_yaml to_yaml dbl argv1 =
     (case from_yaml argv1 of
        None \<Rightarrow> ([], Terminate)
      | Some (cfg, error) \<Rightarrow>
          (case cfg of
             None \<Rightarrow> ([Error error], Exit (-1))
           | Some c \<Rightarrow>
               (case to_string_Config dbl c of
                  None \<Rightarrow> ([], Terminate)
                | Some s \<Rightarrow>
                    (let (str, e) = to_yaml c in
                     case str of
                       None \<Rightarrow> ([Info (CHR 0x0A # s)], Terminate)
                     | Some t \<Rightarrow> ([Info (CHR 0x0A # s), Info (CHR 0x0A # t)], Exit 0)))))"

section \<open>Lemmas\<close>

text \<open>Strings separated by commas.\<close>

fun join :: "bytes \<Rightarrow> bytes list \<Rightarrow> bytes" where
  "join sep [] = []"
| "join sep [x] = x"
| "join sep (x # y # xs) = x @ sep @ join sep (y # xs)"

lemma join_Cons: "join sep (x # xs) = x @ (if xs = [] then [] else sep @ join sep xs)"
  by (cases xs) simp_all

lemma seq_loop_eq: "seq_loop f str xs = str @ concat (map (\<lambda>x. '','' @ f x) xs)"
  by (induction xs arbitrary: str) simp_all

lemma join_concat: "join '','' (x # xs) = x @ concat (map (\<lambda>x. '','' @ x) xs)"
  by (induction xs arbitrary: x) simp_all

lemma seq_body_eq: "seq_body f str xs = str @ join '','' (map f xs)"
proof (cases xs)
  case (Cons x it)
  then show ?thesis by (simp add: seq_body_def seq_loop_eq join_concat comp_def del: join.simps)
qed (simp add: seq_body_def)

text \<open>A joined list of non-empty, comma-free strings can be taken apart again.\<close>

definition comma_free :: "bytes \<Rightarrow> bool" where
  "comma_free s \<longleftrightarrow> s \<noteq> [] \<and> CHR '','' \<notin> set s"

lemma join_head:
  assumes "comma_free x"
  shows "takeWhile (\<lambda>c. c \<noteq> CHR '','') (join '','' (x # xs)) = x"
    and "dropWhile (\<lambda>c. c \<noteq> CHR '','') (join '','' (x # xs)) = (if xs = [] then [] else CHR '','' # join '','' xs)"
proof -
  have x: "\<forall>c\<in>set x. c \<noteq> CHR '',''" using assms by (auto simp: comma_free_def)
  then show "takeWhile (\<lambda>c. c \<noteq> CHR '','') (join '','' (x # xs)) = x"
    by (simp add: join_Cons takeWhile_append2)
  from x show "dropWhile (\<lambda>c. c \<noteq> CHR '','') (join '','' (x # xs)) = (if xs = [] then [] else CHR '','' # join '','' xs)"
    by (simp add: join_Cons dropWhile_append2)
qed

lemma join_inj:
  assumes "list_all comma_free xs" and "list_all comma_free ys" and "join '','' xs = join '','' ys"
  shows "xs = ys"
  using assms
proof (induction xs arbitrary: ys)
  case Nil
  then show ?case by (cases ys) (auto simp: join_Cons comma_free_def)
next
  case (Cons x xs)
  then obtain y ys' where ys: "ys = y # ys'" "comma_free x" "comma_free y"
    by (cases ys) (auto simp: join_Cons comma_free_def)
  have eq: "join '','' (x # xs) = join '','' (y # ys')" using Cons.prems(3) ys(1) by simp
  have "x = y" using join_head(1) ys(2,3) eq by metis
  have "(if xs = [] then [] else CHR '','' # join '','' xs) = (if ys' = [] then [] else CHR '','' # join '','' ys')"
    using join_head(2) [OF ys(2), of xs] join_head(2) [OF ys(3), of ys'] eq by simp
  then have "xs = [] \<longleftrightarrow> ys' = []" and "join '','' xs = join '','' ys'" by (simp_all split: if_splits)
  then have "xs = ys'" using Cons.IH [of ys'] Cons.prems(1,2) ys(1) by simp
  with \<open>x = y\<close> show ?case by (simp add: ys)
qed

lemma std_to_string_comma_free: "comma_free (std_to_string i)"
proof -
  have "CHR '','' \<notin> set (digits n)" for n
    using digits_chars [of n] by auto
  then show ?thesis by (simp add: comma_free_def std_to_string_def digits_not_Nil)
qed

section \<open>Properties\<close>

text \<open>
  The loops of the container overloads, with their special case for the first element, print
  the elements separated by commas between brackets; a map's entries are printed with an arrow.
\<close>

lemma to_string_containers:
  "to_string_vector f xs = ''['' @ join '','' (map f xs) @ '']''
   \<and> to_string_unordered_set f xs = ''['' @ join '','' (map f xs) @ '']''
   \<and> to_string_unordered_map g h m = ''{'' @ join '','' (map (\<lambda>(k, v). g k @ ''->'' @ h v) m) @ ''}''"
  by (simp add: to_string_vector_def to_string_unordered_set_def to_string_unordered_map_def seq_body_eq)

text \<open>
  The text of a set of bytes determines it: two sets print alike only when they hold the same
  numbers in the same order.
\<close>

lemma to_string_byte_set_injective:
  "to_string_unordered_set (\<lambda>b :: 8 word. std_to_string (uint b)) xs =
   to_string_unordered_set (\<lambda>b. std_to_string (uint b)) ys \<longleftrightarrow> xs = ys"
proof
  let ?f = "\<lambda>b :: 8 word. std_to_string (uint b)"
  assume "to_string_unordered_set ?f xs = to_string_unordered_set ?f ys"
  then have "join '','' (map ?f xs) = join '','' (map ?f ys)"
    by (simp add: to_string_unordered_set_def seq_body_eq)
  then have "map ?f xs = map ?f ys"
    by (intro join_inj) (simp_all add: list_all_iff std_to_string_comma_free)
  then show "xs = ys"
    by (rule map_injective) (simp add: inj_def std_to_string_inj flip: word_uint_eq_iff)
qed simp

text \<open>
  \<open>main\<close>: it returns -1 exactly when the YAML cannot be read, and 0 exactly when the
  configuration is read, has one of the two account types and can be written back; an account
  type outside the enum, and a failed \<open>to_yaml\<close>, whose result is used unchecked, end the process.
\<close>

lemma yaml_main_outcome:
  "snd (yaml_main from_yaml to_yaml dbl argv1) =
    (case from_yaml argv1 of
       None \<Rightarrow> Terminate
     | Some (None, error) \<Rightarrow> Exit (-1)
     | Some (Some c, error) \<Rightarrow>
         if cfg_account_type c \<in> {1, 2} \<and> fst (to_yaml c) \<noteq> None then Exit 0 else Terminate)"
  by (auto simp: yaml_main_def to_string_Config_def to_string_AccountType_def Personal_def Company_def
      split: option.split prod.split)

end
