(* ===== verification/Lambda_Endpoint.thy ===== *)
theory Lambda_Endpoint
  imports Prelude
begin

text \<open>
  The AWS part: \<open>src/test_aws_lambda.cpp\<close>, and the same functions in \<open>src/test.cpp\<close>. The endpoint is
  formatted into a fixed buffer, the client configured with it, and a handler answers each
  invocation with the list of tables as JSON. The SDK (\<open>ListTables\<close>, \<open>run_handler\<close>) and the JSON
  library are parameters.
\<close>

section \<open>\<open>getEndpoint\<close>\<close>

text \<open>
  C strings: a text ends at its first NUL. \<open>sprintf\<close> writes the text and a NUL over the start of the
  buffer; when they do not fit it writes past the end, which is \<open>None\<close>.
\<close>

definition NUL :: char where "NUL = CHR 0x00"

definition c_str :: "bytes \<Rightarrow> bytes" where
  "c_str s = takeWhile (\<lambda>c. c \<noteq> NUL) s"

definition sprintf :: "bytes \<Rightarrow> bytes \<Rightarrow> bytes option" where
  "sprintf buffer text =
     (if length text + 1 \<le> length buffer
      then Some (text @ [NUL] @ drop (length text + 1) buffer) else None)"

text \<open>The argument is the value of \<open>LOCALSTACK_HOSTNAME\<close>, if it is set.\<close>

definition getEndpoint :: "bytes option \<Rightarrow> bytes option" where
  "getEndpoint localstack_hostname =
     (case localstack_hostname of
        None \<Rightarrow> Some ''localhost:4566''
      | Some h \<Rightarrow>
          (let buffer = replicate 128 NUL
           in map_option c_str (sprintf buffer (c_str h @ '':4566''))))"

section \<open>\<open>createDynamoDBClient\<close>\<close>

datatype scheme = HTTP | HTTPS

record dynamo_client =
  region :: bytes
  scheme :: scheme
  endpointOverride :: bytes
  access_key_id :: bytes
  secret_key :: bytes

definition createDynamoDBClient :: "bytes option \<Rightarrow> bytes \<Rightarrow> bytes \<Rightarrow> bytes \<Rightarrow> dynamo_client option" where
  "createDynamoDBClient env rgn key_id secret =
     map_option (\<lambda>e. \<lparr>region = rgn, scheme = HTTP, endpointOverride = e,
                       access_key_id = key_id, secret_key = secret\<rparr>) (getEndpoint env)"

section \<open>The handler\<close>

datatype json_value = Jint int | Jstring bytes | Jstrings "bytes list"

text \<open>\<open>nlohmann::json\<close>: assignment through a path of \<open>operator[]\<close>, reading a path, \<open>dump\<close>.\<close>

record 'j json_lib =
  j_null :: 'j
  j_set :: "bytes list \<Rightarrow> json_value \<Rightarrow> 'j \<Rightarrow> 'j"
  j_at :: "bytes list \<Rightarrow> 'j \<Rightarrow> json_value option"
  j_dump :: "'j \<Rightarrow> bytes"

text \<open>
  An assignment is read back and does not disturb a value at a path of which neither is a prefix of
  the other.
\<close>

definition json_ok :: "'j json_lib \<Rightarrow> bool" where
  "json_ok J \<longleftrightarrow>
     (\<forall>p v j. j_at J p (j_set J p v j) = Some v)
     \<and> (\<forall>p q v j. take (length q) p \<noteq> q \<longrightarrow> take (length p) q \<noteq> p
          \<longrightarrow> j_at J q (j_set J p v j) = j_at J q j)"

datatype tables_outcome = Tables "bytes list" | Aws_error bytes

datatype invocation_response = Success bytes bytes | Failure bytes bytes

definition list_limit :: nat where "list_limit = 50"

definition lambda_handler ::
  "'j json_lib \<Rightarrow> (dynamo_client \<Rightarrow> nat \<Rightarrow> tables_outcome) \<Rightarrow> dynamo_client \<Rightarrow> invocation_response" where
  "lambda_handler J ListTables client =
     (let j = j_null J in
      case ListTables client list_limit of
        Aws_error message \<Rightarrow>
          (let j1 = j_set J [''statusCode''] (Jint 500) j in Failure (j_dump J j1) message)
      | Tables all_tables \<Rightarrow>
          (let j1 = j_set J [''statusCode''] (Jint 200) j;
               j2 = j_set J [''body'', ''list_tables''] (Jstrings all_tables) j1;
               j3 = j_set J [''body'', ''text''] (Jstring ''cpp's list api'') j2
           in Success (j_dump J j3) ''application/json''))"

section \<open>\<open>main\<close>\<close>

datatype aws_event = InitAPI | New_client dynamo_client | Run_handler | ShutdownAPI | Delete_client | Log_error

text \<open>
  \<open>run_returns\<close> is whether \<open>run_handler\<close> returned or threw. The client is a local of the \<open>try\<close>
  block: it is deleted when control leaves the block, so after \<open>ShutdownAPI\<close>. The trace is \<open>None\<close>
  when the endpoint overflowed its buffer.
\<close>

definition aws_main :: "bytes option \<Rightarrow> bool \<Rightarrow> (aws_event list \<times> proc_outcome) option" where
  "aws_main env run_returns =
     (case createDynamoDBClient env ''us-east-1'' ''local'' ''local'' of
        None \<Rightarrow> None
      | Some client \<Rightarrow>
          (if run_returns
           then Some ([InitAPI, New_client client, Run_handler, ShutdownAPI, Delete_client], Exit 0)
           else Some ([InitAPI, New_client client, Run_handler, Delete_client, Log_error], Exit 0)))"

section \<open>Properties\<close>

lemma c_str_append: "NUL \<notin> set s \<Longrightarrow> c_str (s @ NUL # rest) = s"
  unfolding c_str_def by (subst takeWhile_append2) auto

lemma c_str_id: "NUL \<notin> set s \<Longrightarrow> c_str s = s"
  unfolding c_str_def by (induction s) auto

text \<open>
  C39. \<open>getEndpoint\<close> returns the host name with the port appended when the name has at most 122
  characters; a longer name overflows the buffer of 128.
\<close>

theorem getEndpoint_buffer:
  assumes "NUL \<notin> set host"
  shows "getEndpoint (Some host) = (if length host \<le> 122 then Some (host @ '':4566'') else None)"
proof -
  have "NUL \<notin> set (host @ '':4566'')" using assms by (simp add: NUL_def)
  from c_str_append [OF this, of "drop (length (host @ '':4566'') + 1) (replicate 128 NUL)"]
  show ?thesis
    using c_str_id [OF assms] by (simp add: getEndpoint_def sprintf_def Let_def)
qed

theorem getEndpoint_buffer_witness:
  "getEndpoint (Some ''localstack'') = Some ''localstack:4566''
   \<and> getEndpoint (Some (replicate 123 CHR ''a'')) = None"
  using getEndpoint_buffer [of "''localstack''"] getEndpoint_buffer [of "replicate 123 CHR ''a''"]
  by (simp add: NUL_def)

text \<open>
  The handler's answer: with tables, a success of type \<open>application/json\<close> whose text is that of
  an object with status 200, exactly those tables and the fixed text; with an error, a failure with
  status 500 and the error's message.
\<close>

lemma lambda_handler_response:
  assumes "json_ok J"
  shows "(case ListTables client 50 of
      Tables ts \<Rightarrow> (\<exists>j. lambda_handler J ListTables client = Success (j_dump J j) ''application/json''
          \<and> j_at J [''statusCode''] j = Some (Jint 200)
          \<and> j_at J [''body'', ''list_tables''] j = Some (Jstrings ts)
          \<and> j_at J [''body'', ''text''] j = Some (Jstring ''cpp's list api''))
    | Aws_error m \<Rightarrow> (\<exists>j. lambda_handler J ListTables client = Failure (j_dump J j) m
          \<and> j_at J [''statusCode''] j = Some (Jint 500)))"
proof -
  have same: "j_at J p (j_set J p v j) = Some v" for p v j using assms unfolding json_ok_def by blast
  have other: "take (length q) p \<noteq> q \<Longrightarrow> take (length p) q \<noteq> p \<Longrightarrow> j_at J q (j_set J p v j) = j_at J q j"
    for p q v j using assms unfolding json_ok_def by blast
  show ?thesis
  proof (cases "ListTables client 50")
    case (Tables ts)
    then show ?thesis
      by (simp add: lambda_handler_def list_limit_def Let_def)
        (rule exI, rule conjI, rule refl, simp add: same other)
  next
    case (Aws_error m)
    then show ?thesis
      by (simp add: lambda_handler_def list_limit_def Let_def)
        (rule exI, rule conjI, rule refl, simp add: same)
  qed
qed

text \<open>A JSON library for the witness: a value is what it holds at each path.\<close>

definition path_json :: "(bytes list \<Rightarrow> json_value option) json_lib" where
  "path_json = \<lparr>j_null = (\<lambda>p. None), j_set = (\<lambda>p v j. j(p \<mapsto> v)), j_at = (\<lambda>p j. j p),
     j_dump = (\<lambda>j. if j [''statusCode''] = Some (Jint 200) then ''200'' else ''500'')\<rparr>"

lemma path_json_ok: "json_ok path_json"
  by (auto simp: json_ok_def path_json_def)

text \<open>
  Lifetime of the SDK's objects: when \<open>run_handler\<close> returns, the client outlives \<open>ShutdownAPI\<close>;
  when it throws, the SDK is not shut down at all. Either way \<open>main\<close> returns 0.
\<close>

lemma aws_main_lifetime:
  assumes "NUL \<notin> set host" and "length host \<le> 122"
  shows "\<exists>client trace. aws_main (Some host) run_returns = Some (InitAPI # New_client client # trace, Exit 0)
     \<and> endpointOverride client = host @ '':4566''
     \<and> trace = (if run_returns then [Run_handler, ShutdownAPI, Delete_client]
                else [Run_handler, Delete_client, Log_error])"
  using getEndpoint_buffer [OF assms(1)] assms(2)
  by (simp add: aws_main_def createDynamoDBClient_def)

end
