(* ===== verification/Drogon_Chat.thy ===== *)
theory Drogon_Chat
  imports Http_Clients
begin

text \<open>
  The handlers of \<open>src/test_drogon.cpp\<close>: the HTTP controller \<open>SayHello\<close>, the WebSocket controller
  \<open>WebSocketChat\<close> and the WebSocket client, and the HTTP task that asks the controller through the
  client selector of \<open>Http_Clients\<close>. Drogon calls the handlers; when, and with what, is decided by
  events.
\<close>

section \<open>The HTTP controller\<close>

datatype http_method = Get | Post

definition genericHello :: bytes where
  "genericHello = ''Hello, this is a generic hello message from the SayHello controller''"

definition personalizedHello :: bytes where
  "personalizedHello = ''Hi there, this is another hello from the SayHello Controller''"

text \<open>\<open>METHOD_LIST\<close>; drogon puts the controller's name before each path.\<close>

definition SayHello_methods :: "(bytes \<times> http_method \<times> bytes) list" where
  "SayHello_methods = [(''/'', Get, genericHello), (''/hello'', Get, personalizedHello)]"

definition SayHello_route :: "bytes \<Rightarrow> http_method \<Rightarrow> bytes option" where
  "SayHello_route path m =
     map_option (\<lambda>(p, m', body). body)
       (List.find (\<lambda>(p, m', body). ''/SayHello'' @ p = path \<and> m' = m) SayHello_methods)"

lemma SayHello_routes:
  "SayHello_route ''/SayHello/'' Get = Some genericHello"
  "SayHello_route ''/SayHello/hello'' Get = Some personalizedHello"
  "SayHello_route ''/SayHello'' Get = None"
  by (simp_all add: SayHello_route_def SayHello_methods_def)

text \<open>
  The task that asks for it: the selected client sends the request (\<open>send\<close>); a runtime error is
  printed by the caller, another exception leaves the program. \<open>None\<close> is a read outside the vector
  of clients.
\<close>

datatype http_answer = Body bytes | Runtime_exception bytes | Other_exception

definition http_task ::
  "u32 \<Rightarrow> ('l http_client \<Rightarrow> bytes \<Rightarrow> http_answer) \<Rightarrow> 'l client_ring
    \<Rightarrow> (bytes list \<times> proc_outcome option \<times> 'l client_ring) option" where
  "http_task hc send r =
     (case get_http_client hc r of
        None \<Rightarrow> None
      | Some (client, r') \<Rightarrow>
          Some (case send client ''/SayHello/'' of
             Body b \<Rightarrow> ([''send http request...'', b], None, r')
           | Runtime_exception e \<Rightarrow> ([''send http request...'', e], None, r')
           | Other_exception \<Rightarrow> ([''send http request...''], Some Terminate, r')))"

section \<open>The WebSocket controller\<close>

datatype ws_type = Text | Binary | Ping | Pong | Close | Unknown

datatype ws_effect = Log bytes | Send bytes | Shutdown | Stop | SetPing bytes nat

definition WebSocketChat_handleNewMessage :: "bytes \<Rightarrow> ws_type \<Rightarrow> ws_effect list" where
  "WebSocketChat_handleNewMessage message type =
     (if type = Ping then [Log ''WebSocketChat recv a ping'']
      else if type = Text then [Log (''WebSocketChat recv message: '' @ message)]
      else [])"

definition WebSocketChat_handleConnectionClosed :: "ws_effect list" where
  "WebSocketChat_handleConnectionClosed = [Log ''WebSocketChat websocket closed!'']"

definition WebSocketChat_handleNewConnection :: "ws_effect list" where
  "WebSocketChat_handleNewConnection = [Send ''haha!!!'']"

section \<open>The WebSocket client\<close>

definition message_type :: "ws_type \<Rightarrow> bytes" where
  "message_type type =
     (if type = Text then ''text''
      else if type = Pong then ''pong''
      else if type = Ping then ''ping''
      else if type = Binary then ''binary''
      else if type = Close then ''Close''
      else ''Unknown'')"

definition client_message_handler :: "bytes \<Rightarrow> ws_type \<Rightarrow> ws_effect list" where
  "client_message_handler message type =
     [Log (''WebSocketClient recv: ['' @ message_type type @ ''] ['' @ message @ '']''), Shutdown]"

definition client_closed_handler :: "ws_effect list" where
  "client_closed_handler = [Log ''WebSocket connection closed!'']"

definition client_connect_handler :: "bool \<Rightarrow> ws_effect list" where
  "client_connect_handler req_ok =
     (if \<not> req_ok then [Log ''Failed to establish WebSocket connection!'', Stop]
      else [Log ''WebSocket connected!'', SetPing ''123'' 1, Send ''hello!''])"

section \<open>A conversation\<close>

text \<open>
  One attempt of the client to connect to the server and the connection it makes: the messages on
  the way in each direction; the two logs; where the client is; whether the server has opened its
  end, and whether it has closed it; whether the client has shut the connection down, or stopped
  trying. (Should drogon connect again after a close, that is another attempt.)
\<close>

datatype ws_client = Connecting | Connect_failed | Connected | Disconnected

record ws_conn =
  to_client :: "(bytes \<times> ws_type) list"
  to_server :: "(bytes \<times> ws_type) list"
  client_log :: "bytes list"
  server_log :: "bytes list"
  client_at :: ws_client
  greeted :: bool
  server_gone :: bool
  shut :: bool
  stopped :: bool

definition ws_init :: ws_conn where
  "ws_init = \<lparr>to_client = [], to_server = [], client_log = [], server_log = [],
     client_at = Connecting, greeted = False, server_gone = False, shut = False, stopped = False\<rparr>"

fun client_effect :: "ws_effect \<Rightarrow> ws_conn \<Rightarrow> ws_conn" where
  "client_effect (Log l) c = c\<lparr>client_log := client_log c @ [l]\<rparr>"
| "client_effect (Send m) c = (if shut c then c else c\<lparr>to_server := to_server c @ [(m, Text)]\<rparr>)"
| "client_effect (SetPing m n) c = c"
| "client_effect Shutdown c = c\<lparr>shut := True\<rparr>"
| "client_effect Stop c = c\<lparr>stopped := True\<rparr>"

fun server_effect :: "ws_effect \<Rightarrow> ws_conn \<Rightarrow> ws_conn" where
  "server_effect (Log l) c = c\<lparr>server_log := server_log c @ [l]\<rparr>"
| "server_effect (Send m) c = c\<lparr>to_client := to_client c @ [(m, Text)]\<rparr>"
| "server_effect (SetPing m n) c = c"
| "server_effect Shutdown c = c"
| "server_effect Stop c = c"

text \<open>
  The handler of a new connection runs once at each end, the one for its closing at most once, and at
  any time after that, whoever closed it; messages arrive in order, and until the close they arrive
  at the client also after it has shut the connection down. Beside the messages of the handlers the
  library sends pings for the client, and pongs and \<open>Close\<close> frames for the server.
\<close>

inductive ws_step :: "ws_conn \<Rightarrow> ws_conn \<Rightarrow> bool" where
  server_open: "\<not> greeted c \<Longrightarrow>
    ws_step c (fold server_effect WebSocketChat_handleNewConnection (c\<lparr>greeted := True\<rparr>))"
| client_open: "client_at c = Connecting \<Longrightarrow>
    ws_step c (fold client_effect (client_connect_handler True) (c\<lparr>client_at := Connected\<rparr>))"
| client_fails: "client_at c = Connecting \<Longrightarrow>
    ws_step c (fold client_effect (client_connect_handler False) (c\<lparr>client_at := Connect_failed\<rparr>))"
| ping: "client_at c = Connected \<Longrightarrow> ws_step c (c\<lparr>to_server := to_server c @ [(''123'', Ping)]\<rparr>)"
| client_recv: "client_at c = Connected \<Longrightarrow> to_client c = (m, type) # rest \<Longrightarrow>
    ws_step c (fold client_effect (client_message_handler m type) (c\<lparr>to_client := rest\<rparr>))"
| client_closed: "client_at c = Connected \<Longrightarrow>
    ws_step c (fold client_effect client_closed_handler (c\<lparr>client_at := Disconnected\<rparr>))"
| server_recv: "greeted c \<Longrightarrow> \<not> server_gone c \<Longrightarrow> to_server c = (m, type) # rest \<Longrightarrow>
    ws_step c (fold server_effect (WebSocketChat_handleNewMessage m type)
      (c\<lparr>to_server := rest, to_client := to_client c @ (if type = Ping then [(m, Pong)] else [])\<rparr>))"
| server_frame: "greeted c \<Longrightarrow> \<not> server_gone c \<Longrightarrow> ws_step c (c\<lparr>to_client := to_client c @ [(m, Close)]\<rparr>)"
| server_closed: "greeted c \<Longrightarrow> \<not> server_gone c \<Longrightarrow>
    ws_step c (fold server_effect WebSocketChat_handleConnectionClosed (c\<lparr>server_gone := True\<rparr>))"

inductive ws_reachable :: "ws_conn \<Rightarrow> bool" where
  start: "ws_reachable ws_init"
| move: "ws_reachable c \<Longrightarrow> ws_step c c' \<Longrightarrow> ws_reachable c'"

subsection \<open>Invariant\<close>

definition recv_line :: "bytes \<times> ws_type \<Rightarrow> bytes" where
  "recv_line mt = ''WebSocketClient recv: ['' @ message_type (snd mt) @ ''] ['' @ fst mt @ '']''"

text \<open>
  The messages of one connection that the client has received, or that are on the way to it as well:
  none before the greeting, then frames of the library only.
\<close>

definition greeting_first :: "(bytes \<times> ws_type) list \<Rightarrow> bool" where
  "greeting_first ms \<longleftrightarrow> (\<exists>rest. ms = (''haha!!!'', Text) # rest \<and> (\<forall>mt\<in>set rest. snd mt \<in> {Pong, Close}))"

definition log_ok :: "ws_conn \<Rightarrow> (bytes \<times> ws_type) list \<Rightarrow> bool" where
  "log_ok c ms \<longleftrightarrow>
     client_log c = (case client_at c of
         Connecting \<Rightarrow> []
       | Connect_failed \<Rightarrow> [''Failed to establish WebSocket connection!'']
       | Connected \<Rightarrow> ''WebSocket connected!'' # map recv_line ms
       | Disconnected \<Rightarrow> ''WebSocket connected!'' # map recv_line ms @ [''WebSocket connection closed!''])
     \<and> (client_at c \<in> {Connecting, Connect_failed} \<longrightarrow> ms = [])
     \<and> (shut c \<longleftrightarrow> ms \<noteq> []) \<and> (stopped c \<longleftrightarrow> client_at c = Connect_failed)"

definition ws_inv :: "ws_conn \<Rightarrow> bool" where
  "ws_inv c \<longleftrightarrow> (\<exists>ms. log_ok c ms
     \<and> (if greeted c then greeting_first (ms @ to_client c) else ms = [] \<and> to_client c = []))"

inductive_cases ws_stepE: "ws_step c c'"

lemmas handler_defs = WebSocketChat_handleNewConnection_def WebSocketChat_handleNewMessage_def
  WebSocketChat_handleConnectionClosed_def client_connect_handler_def client_message_handler_def client_closed_handler_def

lemma greeting_first_snoc: "greeting_first ms \<Longrightarrow> snd mt \<in> {Pong, Close} \<Longrightarrow> greeting_first (ms @ [mt])"
  by (auto simp: greeting_first_def)

lemma ws_step_inv:
  assumes "ws_step c c'" and "ws_inv c"
  shows "ws_inv c'"
proof -
  obtain ms where ms: "log_ok c ms" "if greeted c then greeting_first (ms @ to_client c) else ms = [] \<and> to_client c = []"
    using assms(2) by (auto simp: ws_inv_def)
  note snoc = greeting_first_snoc [of "ms @ to_client c", simplified]
  from assms(1) show ?thesis
  proof cases
    case server_open
    then show ?thesis using ms unfolding ws_inv_def
      by (intro exI [of _ ms]) (auto simp: handler_defs log_ok_def greeting_first_def)
  next
    case (client_recv m type rest)
    then show ?thesis using ms unfolding ws_inv_def
      by (intro exI [of _ "ms @ [(m, type)]"]) (auto simp: handler_defs log_ok_def recv_line_def split: if_splits)
  next
    case (server_recv m type rest)
    then show ?thesis using ms snoc unfolding ws_inv_def
      by (intro exI [of _ ms]) (auto simp: handler_defs log_ok_def)
  next
    case (server_frame m)
    then show ?thesis using ms snoc unfolding ws_inv_def
      by (intro exI [of _ ms]) (auto simp: log_ok_def)
  qed (use ms in \<open>unfold ws_inv_def, (intro exI [of _ ms], auto simp: handler_defs log_ok_def)\<close>)
qed

lemma ws_reachable_inv: "ws_reachable c \<Longrightarrow> ws_inv c"
proof (induction rule: ws_reachable.induct)
  case start
  show ?case by (simp add: ws_inv_def ws_init_def log_ok_def)
qed (blast intro: ws_step_inv)

section \<open>Properties\<close>

text \<open>
  C36. The log of the client over one attempt to connect, in every interleaving of the two ends, the
  pings and the frames of the library: empty; or the failure, after which the client stops; or the
  connection, a line for each message received and, at the end, the close. The first message it
  reports is the server's greeting, the only one that is text, and the client has shut the connection
  down exactly when it has reported a message.
\<close>

theorem chat_client_log:
  assumes "ws_reachable c"
  shows "\<exists>ms. client_log c = (case client_at c of
         Connecting \<Rightarrow> []
       | Connect_failed \<Rightarrow> [''Failed to establish WebSocket connection!'']
       | Connected \<Rightarrow> ''WebSocket connected!'' # map recv_line ms
       | Disconnected \<Rightarrow> ''WebSocket connected!'' # map recv_line ms @ [''WebSocket connection closed!''])
     \<and> (stopped c \<longleftrightarrow> client_at c = Connect_failed)
     \<and> (client_at c \<in> {Connecting, Connect_failed} \<longrightarrow> ms = [])
     \<and> (shut c \<longleftrightarrow> ms \<noteq> [])
     \<and> (ms \<noteq> [] \<longrightarrow> hd ms = (''haha!!!'', Text) \<and> (\<forall>mt\<in>set (tl ms). snd mt \<in> {Pong, Close}))"
proof -
  obtain ms where ms: "log_ok c ms" "if greeted c then greeting_first (ms @ to_client c) else ms = [] \<and> to_client c = []"
    using ws_reachable_inv [OF assms] by (auto simp: ws_inv_def)
  from ms(2) have "ms \<noteq> [] \<longrightarrow> hd ms = (''haha!!!'', Text) \<and> (\<forall>mt\<in>set (tl ms). snd mt \<in> {Pong, Close})"
    by (cases ms) (auto simp: greeting_first_def split: if_splits)
  with ms(1) show ?thesis by (intro exI [of _ ms]) (simp add: log_ok_def)
qed

text \<open>A run in which the greeting is reported and the connection closed.\<close>

lemma chat_runs:
  "\<exists>c. ws_reachable c \<and> client_log c = [''WebSocket connected!'', recv_line (''haha!!!'', Text), ''WebSocket connection closed!'']"
proof -
  let ?c1 = "ws_init\<lparr>greeted := True, to_client := [(''haha!!!'', Text)]\<rparr>"
  let ?c2 = "?c1\<lparr>client_at := Connected, client_log := [''WebSocket connected!''], to_server := [(''hello!'', Text)]\<rparr>"
  let ?c3 = "?c2\<lparr>to_client := [], client_log := [''WebSocket connected!'', recv_line (''haha!!!'', Text)], shut := True\<rparr>"
  have "ws_reachable ?c1"
    using ws_reachable.move [OF ws_reachable.start ws_step.server_open] by (simp add: ws_init_def handler_defs)
  then have "ws_reachable ?c2"
    using ws_reachable.move [OF _ ws_step.client_open, of ?c1] by (simp add: ws_init_def handler_defs)
  then have "ws_reachable ?c3"
    using ws_reachable.move [OF _ ws_step.client_recv, of ?c2 "''haha!!!''" Text "[]"]
    by (simp add: ws_init_def handler_defs recv_line_def)
  then have "ws_reachable (fold client_effect client_closed_handler (?c3\<lparr>client_at := Disconnected\<rparr>))"
    using ws_reachable.move [OF _ ws_step.client_closed, of ?c3] by (simp add: ws_init_def)
  then show ?thesis by (intro exI conjI) (assumption, simp add: handler_defs)
qed

theorem chat_client_log_witness:
  "\<exists>c. ws_reachable c \<and> length (client_log c) = 3 \<and> shut c \<and> \<not> stopped c"
proof -
  obtain c where c: "ws_reachable c"
    "client_log c = [''WebSocket connected!'', recv_line (''haha!!!'', Text), ''WebSocket connection closed!'']"
    using chat_runs by blast
  from chat_client_log [OF c(1)] c(2) have "shut c" "\<not> stopped c"
    by (cases "client_at c"; auto simp: recv_line_def message_type_def)+
  with c show ?thesis by auto
qed

end
