(* ===== verification/Drogon_Loop.thy ===== *)
theory Drogon_Loop
  imports Prelude
begin

text \<open>
  The last block of \<open>main\<close> in \<open>src/test_drogon.cpp\<close>: an event loop on a thread of its own, to which
  \<open>main\<close> hands two functions before it asks the loop to quit. Time does not pass in the model, so
  the sleeps between the calls do not order the two threads: every interleaving is a run.
\<close>

section \<open>The two threads\<close>

text \<open>The functions handed over: the first prints the thread's id, the second also starts a coroutine.\<close>

datatype loop_task = Print_id | Print_and_async_run

text \<open>\<open>async_run\<close> runs its coroutine at once, on the calling thread.\<close>

fun run_loop_task :: "bytes \<Rightarrow> loop_task \<Rightarrow> bytes list" where
  "run_loop_task tid Print_id = [tid]"
| "run_loop_task tid Print_and_async_run =
     [''queueInLoop:'' @ tid, ''queueInLoop async_run:'' @ tid]"

text \<open>What \<open>main\<close> does in the block, in order.\<close>

datatype main_action = Run_in_loop loop_task | Queue_in_loop loop_task | Quit_loop | Print_end

definition main_block :: "main_action list" where
  "main_block = [Run_in_loop Print_id, Queue_in_loop Print_and_async_run, Quit_loop, Print_end]"

text \<open>
  What \<open>main\<close> has still to do, the functions queued in the loop, whether it was told to quit, and
  the lines printed, those of the loop's thread apart from those of \<open>main\<close>.
\<close>

record loop_sys =
  main_todo :: "main_action list"
  loop_queue :: "loop_task list"
  loop_quit :: bool
  loop_lines :: "bytes list"
  main_lines :: "bytes list"

definition loop_init :: loop_sys where
  "loop_init = \<lparr>main_todo = main_block, loop_queue = [], loop_quit = False, loop_lines = [], main_lines = []\<rparr>"

text \<open>\<open>runInLoop\<close> from another thread queues the function, as \<open>queueInLoop\<close> does.\<close>

fun main_effect :: "main_action \<Rightarrow> loop_sys \<Rightarrow> loop_sys" where
  "main_effect (Run_in_loop t) s = s\<lparr>loop_queue := loop_queue s @ [t]\<rparr>"
| "main_effect (Queue_in_loop t) s = s\<lparr>loop_queue := loop_queue s @ [t]\<rparr>"
| "main_effect Quit_loop s = s\<lparr>loop_quit := True\<rparr>"
| "main_effect Print_end s = s\<lparr>main_lines := main_lines s @ [''end'']\<rparr>"

text \<open>A loop told to quit may still run what is queued, or stop before it.\<close>

inductive loop_step :: "bytes \<Rightarrow> loop_sys \<Rightarrow> loop_sys \<Rightarrow> bool" for tid where
  main_next: "main_todo s = a # todo \<Longrightarrow> loop_step tid s (main_effect a (s\<lparr>main_todo := todo\<rparr>))"
| run_next: "loop_queue s = t # ts \<Longrightarrow>
    loop_step tid s (s\<lparr>loop_queue := ts, loop_lines := loop_lines s @ run_loop_task tid t\<rparr>)"

inductive_cases loop_stepE: "loop_step tid s s'"

section \<open>Properties\<close>

text \<open>The tasks \<open>main\<close> has still to hand over.\<close>

fun handed_over :: "main_action list \<Rightarrow> loop_task list" where
  "handed_over [] = []"
| "handed_over (Run_in_loop t # as) = t # handed_over as"
| "handed_over (Queue_in_loop t # as) = t # handed_over as"
| "handed_over (a # as) = handed_over as"

definition loop_inv :: "bytes \<Rightarrow> loop_sys \<Rightarrow> bool" where
  "loop_inv tid s \<longleftrightarrow>
     loop_lines s @ concat (map (run_loop_task tid) (loop_queue s @ handed_over (main_todo s)))
       = concat (map (run_loop_task tid) (handed_over main_block))
     \<and> (\<exists>n\<le>4. main_todo s = drop n main_block \<and> loop_quit s = (n \<ge> 3)
          \<and> main_lines s = (if n = 4 then [''end''] else []))"

lemma main_block_next:
  "a # todo = drop n main_block \<Longrightarrow>
   n = 0 \<and> a = Run_in_loop Print_id \<or> n = 1 \<and> a = Queue_in_loop Print_and_async_run
   \<or> n = 2 \<and> a = Quit_loop \<or> n = 3 \<and> a = Print_end"
  by (auto simp: main_block_def drop_Cons split: nat.splits)

lemma loop_step_inv:
  assumes "loop_step tid s s'" and "loop_inv tid s"
  shows "loop_inv tid s'"
  using assms(1)
proof cases
  case (main_next a todo)
  obtain n where n: "a # todo = drop n main_block" "loop_quit s = (n \<ge> 3)"
    "main_lines s = (if n = 4 then [''end''] else [])"
    using assms(2) main_next(2) by (auto simp: loop_inv_def)
  then have "todo = drop (Suc n) main_block" by (metis drop_Suc list.sel(3) tl_drop)
  then have "\<exists>m\<le>4. main_todo s' = drop m main_block \<and> loop_quit s' = (m \<ge> 3) \<and> main_lines s' = (if m = 4 then [''end''] else [])"
    using main_block_next [OF n(1)] n(2,3) by (intro exI [of _ "Suc n"]) (auto simp: main_next(1))
  then show ?thesis
    using assms(2) main_next unfolding loop_inv_def by (cases a) auto
next
  case (run_next t ts)
  then show ?thesis using assms(2) by (auto simp: loop_inv_def)
qed

lemma loop_run_inv: "(loop_step tid)\<^sup>*\<^sup>* loop_init s \<Longrightarrow> loop_inv tid s"
proof (induction rule: rtranclp_induct)
  case base
  show ?case by (auto simp: loop_inv_def loop_init_def intro: exI [of _ 0])
qed (blast intro: loop_step_inv)

text \<open>
  The event loop: however its thread and \<open>main\<close> interleave, the loop prints an initial part of
  three lines, all with its own id, in the order the functions were handed over and the coroutine
  inside the second at once; \<open>end\<close> is printed at most once and only after the loop was told to
  quit; and when \<open>main\<close> has finished and the queue is empty all three are there.
\<close>

lemma event_loop_output:
  assumes "(loop_step tid)\<^sup>*\<^sup>* loop_init s"
  shows "(\<exists>rest. loop_lines s @ rest = [tid, ''queueInLoop:'' @ tid, ''queueInLoop async_run:'' @ tid])
     \<and> main_lines s \<in> {[], [''end'']} \<and> (main_lines s \<noteq> [] \<longrightarrow> loop_quit s)
     \<and> (main_todo s = [] \<and> loop_queue s = [] \<longrightarrow> length (loop_lines s) = 3 \<and> main_lines s = [''end''])"
proof -
  have inv: "loop_inv tid s" using loop_run_inv [OF assms] .
  then obtain n where n: "n \<le> 4" "main_todo s = drop n main_block" "loop_quit s = (n \<ge> 3)"
    "main_lines s = (if n = 4 then [''end''] else [])"
    by (auto simp: loop_inv_def)
  have all: "concat (map (run_loop_task tid) (handed_over main_block)) =
      [tid, ''queueInLoop:'' @ tid, ''queueInLoop async_run:'' @ tid]" by (simp add: main_block_def)
  have "\<exists>rest. loop_lines s @ rest = [tid, ''queueInLoop:'' @ tid, ''queueInLoop async_run:'' @ tid]"
    using inv unfolding loop_inv_def all by blast
  moreover have "loop_lines s = [tid, ''queueInLoop:'' @ tid, ''queueInLoop async_run:'' @ tid]"
    if "main_todo s = [] \<and> loop_queue s = []"
    using inv that unfolding loop_inv_def all by simp
  moreover have "n = 4" if "main_todo s = []" using that n(1,2) by (simp add: main_block_def)
  ultimately show ?thesis using n(3,4) by auto
qed

end
