(* ===== verification/Folly_Experiments.thy ===== *)
theory Folly_Experiments
  imports Std_String
begin

text \<open>
  \<open>main\<close> of \<open>src/test_folly.cpp\<close> (its parts are repeated at the end of \<open>src/test.cpp\<close>): coroutines
  run through folly's executors and combinators. A coroutine is a function of the log and the clock
  that returns or throws; folly is the parameter \<open>F\<close>, with what it documents in \<open>folly_ok\<close>. Which
  thread prints is not modelled: a line with a thread's id keeps only its text.
\<close>

section \<open>Coroutines\<close>

datatype exn = Runtime_error bytes | Logic_error bytes | Future_timeout

type_synonym 'r try_of = "exn + 'r"

datatype line = Line bytes | Id_line bytes

text \<open>
  The lines \<open>main\<close> and what it waits for have logged, the time in milliseconds, and the coroutines and
  threads that nobody waits for: how long the log was when each was started, and the lines it has to
  log from then on.
\<close>

record fstate =
  flog :: "line list"
  fclock :: nat
  fdetached :: "(nat \<times> line list) list"

type_synonym 'r task = "fstate \<Rightarrow> 'r try_of \<times> fstate"

definition co_return :: "'r \<Rightarrow> 'r task" where
  "co_return x s = (Inr x, s)"

definition co_throw :: "exn \<Rightarrow> 'r task" where
  "co_throw e s = (Inl e, s)"

text \<open>
  Starting something and not waiting for it. Its lines go to the same log at any time later, and where
  \<open>main\<close> is faster some or all of them do not: \<open>whole_logs\<close> are the logs there can be.
\<close>

definition detach :: "line list \<Rightarrow> unit task" where
  "detach ls s = (Inr (), s\<lparr>fdetached := fdetached s @ [(length (flog s), ls)]\<rparr>)"

fun logs_with :: "(nat \<times> line list) list \<Rightarrow> line list \<Rightarrow> line list set" where
  "logs_with [] xs = {xs}"
| "logs_with ((n, ls) # ds) xs =
     (\<Union>ws\<in>logs_with ds xs. \<Union>ys\<in>set (subseqs ls). (\<lambda>zs. take n ws @ zs) ` shuffles (drop n ws) ys)"

definition whole_logs :: "fstate \<Rightarrow> line list set" where
  "whole_logs s = logs_with (fdetached s) (flog s)"

text \<open>Going on after a \<open>co_await\<close>: an exception leaves the coroutine.\<close>

definition co_then :: "'a task \<Rightarrow> ('a \<Rightarrow> 'b task) \<Rightarrow> 'b task" where
  "co_then t f s = (case t s of (Inl e, s') \<Rightarrow> (Inl e, s') | (Inr x, s') \<Rightarrow> f x s')"

definition info :: "line \<Rightarrow> unit task" where
  "info l s = (Inr (), s\<lparr>flog := flog s @ [l]\<rparr>)"

text \<open>\<open>catch (const std::runtime_error& e)\<close> that logs the message.\<close>

definition catch_runtime_error :: "unit task \<Rightarrow> unit task" where
  "catch_runtime_error t s =
     (case t s of
        (Inl (Runtime_error m), s') \<Rightarrow> info (Line m) s'
      | r \<Rightarrow> r)"

section \<open>Folly\<close>

text \<open>
  A coroutine on a promise: from what the promise holds it goes on until it returns (\<open>Some\<close>) or is
  suspended (\<open>None\<close>). Two of them together: in turn, the one that is suspended resumed when the
  other has gone on; the first or the second may be the one to start.
\<close>

type_synonym cell = "int try_of option"

definition run_both ::
  "bool \<Rightarrow> (cell \<Rightarrow> cell \<times> 'a option) \<Rightarrow> (cell \<Rightarrow> cell \<times> 'b option) \<Rightarrow> cell \<Rightarrow> ('a \<times> 'b) option" where
  "run_both first a b c =
     (if first then
        (case a c of
           (c1, Some x) \<Rightarrow> map_option (\<lambda>y. (x, y)) (snd (b c1))
         | (c1, None) \<Rightarrow>
             (case b c1 of
                (c2, Some y) \<Rightarrow> map_option (\<lambda>x. (x, y)) (snd (a c2))
              | (c2, None) \<Rightarrow> None))
      else
        (case b c of
           (c1, Some y) \<Rightarrow> map_option (\<lambda>x. (x, y)) (snd (a c1))
         | (c1, None) \<Rightarrow>
             (case a c1 of
                (c2, Some x) \<Rightarrow> map_option (\<lambda>y. (x, y)) (snd (b c2))
              | (c2, None) \<Rightarrow> None)))"

text \<open>
  \<open>start_get\<close> and \<open>start_get_int\<close>: a task scheduled on the pool, started, and waited for;
  \<open>start_all\<close>: several at once (\<open>via\<close> with \<open>collectAll\<close>, \<open>AsyncScope\<close> with \<open>joinAsync\<close>, two started
  tasks); \<open>fulfilled\<close>: the future of a promise contract whose promise is given that result;
  \<open>collectAll\<close>: two coroutines on one promise; \<open>exception_what\<close>: \<open>what\<close> of an exception wrapper.
\<close>

record folly_lib =
  co_sleep :: "nat \<Rightarrow> unit task"
  start_get :: "unit task \<Rightarrow> unit task"
  start_get_int :: "int task \<Rightarrow> int task"
  start_all :: "unit task list \<Rightarrow> unit task"
  collectAllTry :: "int task \<Rightarrow> bytes task \<Rightarrow> unit task \<Rightarrow> (int try_of \<times> bytes try_of \<times> unit try_of) task"
  co_awaitTry :: "int task \<Rightarrow> int try_of task"
  co_timeout :: "int task \<Rightarrow> nat \<Rightarrow> int task"
  scoped_lock :: "unit task"
  scoped_lock_shared :: "unit task"
  fulfilled :: "int try_of \<Rightarrow> int task"
  collectAll :: "(cell \<Rightarrow> cell \<times> int try_of option) \<Rightarrow> (cell \<Rightarrow> cell \<times> unit option) \<Rightarrow> cell \<Rightarrow> (int try_of \<times> unit) task"
  exception_what :: "exn \<Rightarrow> bytes"

text \<open>Running somewhere may begin later, but is running the task.\<close>

definition later :: "nat \<Rightarrow> fstate \<Rightarrow> fstate" where
  "later d s = s\<lparr>fclock := fclock s + d\<rparr>"

text \<open>What a task prints and returns, whatever the state it starts in.\<close>

definition prints :: "'r task \<Rightarrow> line list \<Rightarrow> 'r try_of \<Rightarrow> bool" where
  "prints t ls r \<longleftrightarrow> (\<forall>s. \<exists>d. t s = (r, later d (s\<lparr>flog := flog s @ ls\<rparr>)))"

text \<open>
  The documented behaviour: tasks run together print their lines interleaved, in some order; when
  the time of \<open>timeout\<close> is over before the task completes, its result is replaced by
  \<open>FutureTimeout\<close> once it has completed; two coroutines that return in either order are both waited
  for.
\<close>

definition folly_ok :: "folly_lib \<Rightarrow> bool" where
  "folly_ok F \<longleftrightarrow>
     (\<forall>n s. \<exists>d. co_sleep F n s = (Inr (), later (n + d) s))
     \<and> (\<forall>t s. \<exists>d. start_get F t s = t (later d s))
     \<and> (\<forall>t s. \<exists>d. start_get_int F t s = t (later d s))
     \<and> (\<forall>ts ls s. list_all2 (\<lambda>t l. prints t l (Inr ())) ts ls \<longrightarrow>
          (\<exists>d xs. start_all F ts s = (Inr (), later d (s\<lparr>flog := flog s @ xs\<rparr>)) \<and> mset xs = mset (concat ls)))
     \<and> (\<forall>a b c la lb lc ra rb rc s. prints a la ra \<and> prints b lb rb \<and> prints c lc rc \<longrightarrow>
          (\<exists>d xs. collectAllTry F a b c s = (Inr (ra, rb, rc), later d (s\<lparr>flog := flog s @ xs\<rparr>))
             \<and> mset xs = mset (la @ lb @ lc)))
     \<and> (\<forall>t s. co_awaitTry F t s = (Inr (fst (t s)), snd (t s)))
     \<and> (\<forall>t n s. fclock (snd (t s)) < fclock s + n \<longrightarrow> co_timeout F t n s = t s)
     \<and> (\<forall>t n s. co_timeout F t n s = t s \<or> co_timeout F t n s = (Inl Future_timeout, snd (t s)))
     \<and> (\<forall>t n s. fclock s + n < fclock (snd (t s)) \<longrightarrow> co_timeout F t n s = (Inl Future_timeout, snd (t s)))
     \<and> prints (scoped_lock F) [] (Inr ()) \<and> prints (scoped_lock_shared F) [] (Inr ())
     \<and> (\<forall>v. prints (fulfilled F v) [] v)
     \<and> (\<forall>a b c xy s. (\<forall>first. run_both first a b c = Some xy) \<longrightarrow> (\<exists>d. collectAll F a b c s = (Inr xy, later d s)))"

section \<open>The parts of \<open>main\<close>\<close>

text \<open>Sleeping on the thread itself.\<close>

definition sleep_for :: "nat \<Rightarrow> unit task" where
  "sleep_for n s = (Inr (), later n s)"

definition pool_part :: "folly_lib \<Rightarrow> unit task" where
  "pool_part F = start_all F (replicate 4 (co_then (info (Id_line [])) (\<lambda>u. sleep_for 200)))"

definition sleep_part :: "folly_lib \<Rightarrow> unit task" where
  "sleep_part F = start_get F
     (co_then (info (Line ''start folly::coro::sleep'')) (\<lambda>u.
      co_then (co_sleep F 1000) (\<lambda>u. info (Line ''end folly::coro::sleep''))))"

definition mutex_part :: "folly_lib \<Rightarrow> unit task" where
  "mutex_part F = co_then (info (Line ''start test SharedMutex'')) (\<lambda>u.
     start_all F [scoped_lock F, scoped_lock_shared F])"

definition exception_part :: "folly_lib \<Rightarrow> unit task" where
  "exception_part F = catch_runtime_error
     (co_then (start_get_int F (co_throw (Runtime_error ''async exection''))) (\<lambda>ret. co_return ()))"

definition scope_part :: "folly_lib \<Rightarrow> unit task" where
  "scope_part F = co_then (info (Line ''start test AsyncScope'')) (\<lambda>u.
     start_all F [co_return (), co_return ()])"

definition bool_text :: "bool \<Rightarrow> bytes" where
  "bool_text b = (if b then ''true'' else ''false'')"

definition hasValue :: "'r try_of \<Rightarrow> bool" where
  "hasValue r \<longleftrightarrow> (case r of Inl e \<Rightarrow> False | Inr x \<Rightarrow> True)"

definition collect_part :: "folly_lib \<Rightarrow> unit task" where
  "collect_part F = co_then
     (collectAllTry F
        (co_then (co_sleep F 1000) (\<lambda>u. co_then (info (Id_line ''task1 thread id: '')) (\<lambda>u. co_return 42)))
        (co_then (co_sleep F 2000) (\<lambda>u. co_then (info (Id_line ''task2 thread id: '')) (\<lambda>u. co_return ''3.14'')))
        (co_then (info (Id_line ''task3 thread id: '')) (\<lambda>u.
         co_then (info (Id_line ''task3.1 thread id: '')) (\<lambda>u. co_throw (Runtime_error ''error'')))))
     (\<lambda>(a, b, c). info (Line (''a: '' @ bool_text (hasValue a) @ '', b: '' @ bool_text (hasValue b)
        @ '', c: '' @ bool_text (\<not> hasValue c))))"

text \<open>\<open>Awaiter\<close>: a thread of its own sleeps five seconds, logs, and resumes the coroutine.\<close>

definition Awaiter :: "unit task" where
  "Awaiter = co_then (sleep_for 5000) (\<lambda>u. info (Line ''-----------resume-------------------''))"

definition timeout_task :: "int task" where
  "timeout_task = co_then (info (Line ''start timeout Awaiter'')) (\<lambda>u.
     co_then Awaiter (\<lambda>u. co_then (info (Line ''timeout return 42'')) (\<lambda>u. co_return 42)))"

definition timeout_part :: "folly_lib \<Rightarrow> unit task" where
  "timeout_part F = start_get F
     (co_then (info (Id_line ''test_timeout thread id: '')) (\<lambda>u.
      co_then (info (Line ''start timeout'')) (\<lambda>u.
      co_then (co_awaitTry F (co_timeout F timeout_task 1000)) (\<lambda>result.
      co_then (info (Line (''has FutureTimeout Exception: '' @ bool_text (result = Inl Future_timeout)))) (\<lambda>u.
        info (Id_line ''timeout thread id: ''))))))"

definition is_runtime_error :: "'r try_of \<Rightarrow> bool" where
  "is_runtime_error r \<longleftrightarrow> (case r of Inl (Runtime_error m) \<Rightarrow> True | _ \<Rightarrow> False)"

definition promise_part :: "folly_lib \<Rightarrow> unit task" where
  "promise_part F = co_then (co_awaitTry F (fulfilled F (Inl (Runtime_error [])))) (\<lambda>res.
     info (Line (''hasException: '' @ bool_text (is_runtime_error res))))"

text \<open>
  The coroutine that owns \<open>int_ptr\<close> is started and not waited for; the deleter logs when the lambda
  that holds the pointer goes.
\<close>

definition int_ptr_lines :: "line list" where
  "int_ptr_lines = [Line ''int_ptr: 996'', Line ''Deconstruction int_ptr!!!'']"

definition int_ptr_part :: "unit task" where
  "int_ptr_part = detach int_ptr_lines"

text \<open>
  One coroutine waits for the future of a promise contract, under \<open>co_awaitTry\<close>; the other gives the
  promise its value.
\<close>

definition waiter :: "cell \<Rightarrow> cell \<times> int try_of option" where
  "waiter c = (c, c)"

definition fulfiller :: "cell \<Rightarrow> cell \<times> unit option" where
  "fulfiller c = (Some (Inr 42), Some ())"

definition value_part :: "folly_lib \<Rightarrow> unit task" where
  "value_part F = co_then (collectAll F waiter fulfiller None) (\<lambda>(res, _).
     co_then (case res of
        Inl (Logic_error m) \<Rightarrow> info (Line (''hasException: '' @ exception_what F (Logic_error m)))
      | _ \<Rightarrow> co_return ()) (\<lambda>u.
     case res of
       Inr v \<Rightarrow> info (Line (''value: '' @ std_to_string v))
     | Inl e \<Rightarrow> co_return ()))"

definition main_parts :: "folly_lib \<Rightarrow> unit task list" where
  "main_parts F =
     [info (Line ''------------------start test folly---------------------------''),
      pool_part F, sleep_part F, mutex_part F, exception_part F, scope_part F, collect_part F,
      timeout_part F, promise_part F, int_ptr_part, value_part F, sleep_for 1000]"

text \<open>An exception that leaves a part leaves \<open>main\<close>.\<close>

fun run_parts :: "unit task list \<Rightarrow> unit task" where
  "run_parts [] = co_return ()"
| "run_parts (t # ts) = co_then t (\<lambda>u. run_parts ts)"

definition folly_main :: "folly_lib \<Rightarrow> fstate \<Rightarrow> proc_outcome \<times> fstate" where
  "folly_main F s =
     (case run_parts (main_parts F) s of
        (Inl e, s') \<Rightarrow> (Terminate, s')
      | (Inr u, s') \<Rightarrow> (Exit 0, s'))"

section \<open>What the parts print\<close>

text \<open>The lines without a thread's id, in order; how many lines there are.\<close>

fun plain :: "line list \<Rightarrow> bytes list" where
  "plain [] = []"
| "plain (Line t # ls) = t # plain ls"
| "plain (Id_line t # ls) = plain ls"

definition part_log :: "unit task \<Rightarrow> bytes list \<Rightarrow> nat \<Rightarrow> bool" where
  "part_log t ls n \<longleftrightarrow> (\<forall>s. \<exists>d xs.
     t s = (Inr (), later d (s\<lparr>flog := flog s @ xs\<rparr>)) \<and> plain xs = ls \<and> length xs = n)"

lemma plain_append [simp]: "plain (xs @ ys) = plain xs @ plain ys"
  by (induction xs rule: plain.induct) simp_all

lemma plain_replicate: "plain (replicate n (Id_line t)) = []"
  by (induction n) simp_all

lemma plain_ids: "mset xs = mset ys \<Longrightarrow> plain ys = [] \<Longrightarrow> plain xs = [] \<and> length xs = length ys"
proof -
  assume ms: "mset xs = mset ys" and "plain ys = []"
  have "plain zs = [] \<longleftrightarrow> (\<forall>l\<in>set zs. \<exists>t. l = Id_line t)" for zs
    by (induction zs rule: plain.induct) auto
  with \<open>plain ys = []\<close> show ?thesis using mset_eq_setD [OF ms] mset_eq_length [OF ms] by simp
qed

lemma later_simps [simp]:
  "later d (later e s) = later (e + d) s" "flog (later d s) = flog s" "fdetached (later d s) = fdetached s"
  "fclock (later d s) = fclock s + d" "(later d s)\<lparr>flog := x\<rparr> = later d (s\<lparr>flog := x\<rparr>)"
  "(later d s)\<lparr>fdetached := ds\<rparr> = later d (s\<lparr>fdetached := ds\<rparr>)"
  by (simp_all add: later_def)

lemma later_0 [simp]: "later 0 s = s"
  by (simp add: later_def)

lemmas co_defs = co_then_def info_def co_return_def co_throw_def sleep_for_def

lemma part_log_I:
  assumes "\<And>s. \<exists>d xs. t s = (Inr (), later d (s\<lparr>flog := flog s @ xs\<rparr>)) \<and> plain xs = ls \<and> length xs = n"
  shows "part_log t ls n"
  unfolding part_log_def using assms by simp

lemma part_log_then: "part_log t ls n \<Longrightarrow> part_log u ls' n' \<Longrightarrow> part_log (co_then t (\<lambda>x. u)) (ls @ ls') (n + n')"
proof (rule part_log_I)
  fix s
  assume t: "part_log t ls n" and u: "part_log u ls' n'"
  from t obtain d xs where 1: "t s = (Inr (), later d (s\<lparr>flog := flog s @ xs\<rparr>))" "plain xs = ls" "length xs = n"
    unfolding part_log_def by blast
  let ?s = "later d (s\<lparr>flog := flog s @ xs\<rparr>)"
  from u obtain e ys where 2: "u ?s = (Inr (), later e (?s\<lparr>flog := flog ?s @ ys\<rparr>))" "plain ys = ls'" "length ys = n'"
    unfolding part_log_def by blast
  show "\<exists>d xs. co_then t (\<lambda>x. u) s = (Inr (), later d (s\<lparr>flog := flog s @ xs\<rparr>)) \<and> plain xs = ls @ ls' \<and> length xs = n + n'"
    using 1 2 by (intro exI [of _ "d + e"] exI [of _ "xs @ ys"]) (simp add: co_then_def)
qed

lemma part_log_info: "part_log (info (Line t)) [t] 1" "part_log (info (Id_line t)) [] 1"
  by (rule part_log_I; force simp: info_def intro: exI [of _ 0])+

lemma part_log_simple: "part_log (co_return ()) [] 0" "part_log (sleep_for n) [] 0"
  by (rule part_log_I; force simp: co_return_def sleep_for_def intro: exI [of _ 0])+

lemma folly_laws:
  assumes "folly_ok F"
  shows "\<exists>d. co_sleep F n s = (Inr (), later (n + d) s)"
    and "\<exists>d. start_get F t s = t (later d s)"
    and "\<exists>d. start_get_int F ti s = ti (later d s)"
    and "list_all2 (\<lambda>t l. prints t l (Inr ())) ts ls \<Longrightarrow>
          \<exists>d xs. start_all F ts s = (Inr (), later d (s\<lparr>flog := flog s @ xs\<rparr>)) \<and> mset xs = mset (concat ls)"
    and "prints a la ra \<Longrightarrow> prints b lb rb \<Longrightarrow> prints c lc rc \<Longrightarrow>
          \<exists>d xs. collectAllTry F a b c s = (Inr (ra, rb, rc), later d (s\<lparr>flog := flog s @ xs\<rparr>))
             \<and> mset xs = mset (la @ lb @ lc)"
    and "co_awaitTry F ti s = (Inr (fst (ti s)), snd (ti s))"
    and "fclock s + n < fclock (snd (ti s)) \<Longrightarrow> co_timeout F ti n s = (Inl Future_timeout, snd (ti s))"
    and "co_timeout F ti n s = ti s \<or> co_timeout F ti n s = (Inl Future_timeout, snd (ti s))"
    and "prints (scoped_lock F) [] (Inr ())" and "prints (scoped_lock_shared F) [] (Inr ())"
    and "prints (fulfilled F v) [] v"
    and "(\<And>first. run_both first u v' c' = Some xy) \<Longrightarrow> \<exists>d. collectAll F u v' c' s = (Inr xy, later d s)"
proof -
  show "\<exists>d. co_sleep F n s = (Inr (), later (n + d) s)"
    by (rule assms [unfolded folly_ok_def, THEN conjunct1, rule_format])
  show "\<exists>d. start_get F t s = t (later d s)"
    by (rule assms [unfolded folly_ok_def, THEN conjunct2, THEN conjunct1, rule_format])
  show "\<exists>d. start_get_int F ti s = ti (later d s)"
    by (rule assms [unfolded folly_ok_def, THEN conjunct2, THEN conjunct2, THEN conjunct1, rule_format])
  show "\<exists>d xs. start_all F ts s = (Inr (), later d (s\<lparr>flog := flog s @ xs\<rparr>)) \<and> mset xs = mset (concat ls)"
    if "list_all2 (\<lambda>t l. prints t l (Inr ())) ts ls"
    using assms [unfolded folly_ok_def, THEN conjunct2, THEN conjunct2, THEN conjunct2, THEN conjunct1, rule_format] that by blast
  show "\<exists>d xs. collectAllTry F a b c s = (Inr (ra, rb, rc), later d (s\<lparr>flog := flog s @ xs\<rparr>)) \<and> mset xs = mset (la @ lb @ lc)"
    if "prints a la ra" "prints b lb rb" "prints c lc rc"
    using assms [unfolded folly_ok_def, THEN conjunct2, THEN conjunct2, THEN conjunct2, THEN conjunct2, THEN conjunct1, rule_format] that by blast
  show "co_awaitTry F ti s = (Inr (fst (ti s)), snd (ti s))"
    by (rule assms [unfolded folly_ok_def, THEN conjunct2, THEN conjunct2, THEN conjunct2, THEN conjunct2, THEN conjunct2, THEN conjunct1, rule_format])
  show "co_timeout F ti n s = (Inl Future_timeout, snd (ti s))" if "fclock s + n < fclock (snd (ti s))"
    using assms [unfolded folly_ok_def, THEN conjunct2, THEN conjunct2, THEN conjunct2, THEN conjunct2, THEN conjunct2, THEN conjunct2, THEN conjunct2, THEN conjunct2, THEN conjunct1, rule_format] that by blast
  show "co_timeout F ti n s = ti s \<or> co_timeout F ti n s = (Inl Future_timeout, snd (ti s))"
    by (rule assms [unfolded folly_ok_def, THEN conjunct2, THEN conjunct2, THEN conjunct2, THEN conjunct2, THEN conjunct2, THEN conjunct2, THEN conjunct2, THEN conjunct1, rule_format])
  show "prints (scoped_lock F) [] (Inr ())"
    by (rule assms [unfolded folly_ok_def, THEN conjunct2, THEN conjunct2, THEN conjunct2, THEN conjunct2, THEN conjunct2, THEN conjunct2, THEN conjunct2, THEN conjunct2, THEN conjunct2, THEN conjunct1, rule_format])
  show "prints (scoped_lock_shared F) [] (Inr ())"
    by (rule assms [unfolded folly_ok_def, THEN conjunct2, THEN conjunct2, THEN conjunct2, THEN conjunct2, THEN conjunct2, THEN conjunct2, THEN conjunct2, THEN conjunct2, THEN conjunct2, THEN conjunct2, THEN conjunct1, rule_format])
  show "prints (fulfilled F v) [] v"
    by (rule assms [unfolded folly_ok_def, THEN conjunct2, THEN conjunct2, THEN conjunct2, THEN conjunct2, THEN conjunct2, THEN conjunct2, THEN conjunct2, THEN conjunct2, THEN conjunct2, THEN conjunct2, THEN conjunct2, THEN conjunct1, rule_format])
  show "\<exists>d. collectAll F u v' c' s = (Inr xy, later d s)" if "\<And>first. run_both first u v' c' = Some xy"
    using assms [unfolded folly_ok_def, THEN conjunct2, THEN conjunct2, THEN conjunct2, THEN conjunct2, THEN conjunct2, THEN conjunct2, THEN conjunct2, THEN conjunct2, THEN conjunct2, THEN conjunct2, THEN conjunct2, THEN conjunct2, rule_format] that by blast
qed

lemma prints_then:
  assumes "prints t ls (Inr x)" and "prints (f x) ls' r"
  shows "prints (co_then t f) (ls @ ls') r"
  unfolding prints_def
proof
  fix s
  obtain d where 1: "t s = (Inr x, later d (s\<lparr>flog := flog s @ ls\<rparr>))" using assms(1) by (auto simp: prints_def)
  obtain e where "f x (later d (s\<lparr>flog := flog s @ ls\<rparr>)) =
      (r, later e ((later d (s\<lparr>flog := flog s @ ls\<rparr>))\<lparr>flog := flog (later d (s\<lparr>flog := flog s @ ls\<rparr>)) @ ls'\<rparr>))"
    using assms(2) unfolding prints_def by blast
  with 1 show "\<exists>d. co_then t f s = (r, later d (s\<lparr>flog := flog s @ ls @ ls'\<rparr>))"
    by (intro exI [of _ "d + e"]) (simp add: co_then_def)
qed

lemma prints_basic:
  "prints (info l) [l] (Inr ())" "prints (sleep_for n) [] (Inr ())" "prints (co_return x) [] (Inr x)"
  "prints (co_throw e) [] (Inl e)" "folly_ok F \<Longrightarrow> prints (co_sleep F n) [] (Inr ())"
  unfolding prints_def by (auto simp: co_defs intro: exI [of _ 0] dest: folly_laws(1))

lemma part_log_start_all:
  assumes "folly_ok F" and "list_all2 (\<lambda>t l. prints t l (Inr ())) ts ls" and "plain (concat ls) = []"
  shows "part_log (start_all F ts) [] (length (concat ls))"
proof (rule part_log_I)
  fix s
  obtain d xs where "start_all F ts s = (Inr (), later d (s\<lparr>flog := flog s @ xs\<rparr>))" "mset xs = mset (concat ls)"
    using folly_laws(4) [OF assms(1,2)] by blast
  with plain_ids [OF this(2) assms(3)] show "\<exists>d xs. start_all F ts s = (Inr (), later d (s\<lparr>flog := flog s @ xs\<rparr>))
      \<and> plain xs = [] \<and> length xs = length (concat ls)" by blast
qed

lemma part_log_start_get:
  assumes "folly_ok F" and "part_log t ls n"
  shows "part_log (start_get F t) ls n"
  unfolding part_log_def
proof
  fix s
  obtain d where 1: "start_get F t s = t (later d s)" using folly_laws(2) [OF assms(1)] by blast
  obtain e xs where "t (later d s) = (Inr (), later e ((later d s)\<lparr>flog := flog (later d s) @ xs\<rparr>))"
    "plain xs = ls" "length xs = n"
    using assms(2) unfolding part_log_def by blast
  with 1 show "\<exists>d xs. start_get F t s = (Inr (), later d (s\<lparr>flog := flog s @ xs\<rparr>))
      \<and> plain xs = ls \<and> length xs = n"
    by (intro exI [of _ "d + e"] exI [of _ xs]) simp
qed

lemma pool_part_log: "folly_ok F \<Longrightarrow> part_log (pool_part F) [] 4"
proof -
  assume F: "folly_ok F"
  have "prints (co_then (info (Id_line [])) (\<lambda>u. sleep_for 200)) [Id_line []] (Inr ())"
    using prints_then [OF prints_basic(1), of "\<lambda>u. sleep_for 200" "[]" "Inr ()"] prints_basic(2) by simp
  then show ?thesis
    using part_log_start_all [OF F, of "replicate 4 (co_then (info (Id_line [])) (\<lambda>u. sleep_for 200))" "replicate 4 [Id_line []]"]
    by (simp add: pool_part_def list_all2_conv_all_nth length_concat plain_replicate)
qed

lemma part_log_sleep: "folly_ok F \<Longrightarrow> part_log (co_sleep F n) [] 0"
proof (rule part_log_I)
  fix s
  assume "folly_ok F"
  then obtain d where "co_sleep F n s = (Inr (), later (n + d) s)" using folly_laws(1) by blast
  then show "\<exists>d xs. co_sleep F n s = (Inr (), later d (s\<lparr>flog := flog s @ xs\<rparr>)) \<and> plain xs = [] \<and> length xs = 0"
    by (intro exI [of _ "n + d"] exI [of _ "[]"]) simp
qed

lemma sleep_part_log:
  "folly_ok F \<Longrightarrow> part_log (sleep_part F) [''start folly::coro::sleep'', ''end folly::coro::sleep''] 2"
  using part_log_start_get [OF _ part_log_then [OF part_log_info(1) part_log_then [OF part_log_sleep part_log_info(1)]]]
  by (simp add: sleep_part_def numeral_eq_Suc)

lemma mutex_part_log: "folly_ok F \<Longrightarrow> part_log (mutex_part F) [''start test SharedMutex''] 1"
proof -
  assume F: "folly_ok F"
  then have "prints (scoped_lock F) [] (Inr ())" "prints (scoped_lock_shared F) [] (Inr ())" using folly_laws(9,10) by blast+
  then show ?thesis
    using part_log_then [OF part_log_info(1) part_log_start_all [OF F, of "[scoped_lock F, scoped_lock_shared F]" "[[], []]"]]
    by (simp add: mutex_part_def)
qed

lemma scope_part_log: "folly_ok F \<Longrightarrow> part_log (scope_part F) [''start test AsyncScope''] 1"
  using part_log_then [OF part_log_info(1) part_log_start_all [of F "[co_return (), co_return ()]" "[[], []]"]]
  by (simp add: scope_part_def prints_basic)

lemma exception_part_log: "folly_ok F \<Longrightarrow> part_log (exception_part F) [''async exection''] 1"
proof (rule part_log_I)
  fix s
  assume "folly_ok F"
  then obtain d where "start_get_int F (co_throw (Runtime_error ''async exection'')) s = co_throw (Runtime_error ''async exection'') (later d s)"
    using folly_laws(3) by blast
  then show "\<exists>d xs. exception_part F s = (Inr (), later d (s\<lparr>flog := flog s @ xs\<rparr>)) \<and> plain xs = [''async exection''] \<and> length xs = 1"
    by (intro exI [of _ d] exI [of _ "[Line ''async exection'']"]) (simp add: exception_part_def catch_runtime_error_def co_defs)
qed

lemma collect_part_log: "folly_ok F \<Longrightarrow> part_log (collect_part F) [''a: true, b: true, c: true''] 5"
proof (rule part_log_I)
  fix s
  assume F: "folly_ok F"
  let ?a = "co_then (co_sleep F 1000) (\<lambda>u. co_then (info (Id_line ''task1 thread id: '')) (\<lambda>u. co_return (42::int)))"
  let ?b = "co_then (co_sleep F 2000) (\<lambda>u. co_then (info (Id_line ''task2 thread id: '')) (\<lambda>u. co_return ''3.14''))"
  let ?c = "co_then (info (Id_line ''task3 thread id: '')) (\<lambda>u.
         co_then (info (Id_line ''task3.1 thread id: '')) (\<lambda>u. co_throw (Runtime_error ''error'')))"
  let ?ids = "[Id_line ''task1 thread id: '', Id_line ''task2 thread id: '', Id_line ''task3 thread id: '', Id_line ''task3.1 thread id: '']"
  have "prints ?a [Id_line ''task1 thread id: ''] (Inr 42)" "prints ?b [Id_line ''task2 thread id: ''] (Inr ''3.14'')"
    "prints ?c [Id_line ''task3 thread id: '', Id_line ''task3.1 thread id: ''] (Inl (Runtime_error ''error''))"
    using prints_then [OF prints_basic(5) [OF F] prints_then [OF prints_basic(1) prints_basic(3)]]
      prints_then [OF prints_basic(1) prints_then [OF prints_basic(1) prints_basic(4)]] by simp_all
  then have "\<exists>d xs. collectAllTry F ?a ?b ?c s = (Inr (Inr 42, Inr ''3.14'', Inl (Runtime_error ''error'')), later d (s\<lparr>flog := flog s @ xs\<rparr>))
      \<and> mset xs = mset ([Id_line ''task1 thread id: ''] @ [Id_line ''task2 thread id: ''] @ [Id_line ''task3 thread id: '', Id_line ''task3.1 thread id: ''])"
    by (rule folly_laws(5) [OF F])
  then obtain d xs where all: "collectAllTry F ?a ?b ?c s = (Inr (Inr 42, Inr ''3.14'', Inl (Runtime_error ''error'')), later d (s\<lparr>flog := flog s @ xs\<rparr>))"
    and ms: "mset xs = mset ?ids" by auto
  have "plain xs = [] \<and> length xs = 4" using plain_ids [OF ms] by simp
  with all show "\<exists>d xs. collect_part F s = (Inr (), later d (s\<lparr>flog := flog s @ xs\<rparr>))
      \<and> plain xs = [''a: true, b: true, c: true''] \<and> length xs = 5"
    by (intro exI [of _ d] exI [of _ "xs @ [Line ''a: true, b: true, c: true'']"])
      (simp add: collect_part_def co_then_def [of "collectAllTry F _ _ _"] info_def hasValue_def bool_text_def)
qed

text \<open>The awaiter does not hear of the cancellation: its task runs to its end, and its result is lost.\<close>

lemma timeout_task_result:
  "timeout_task s = (Inr 42, later 5000 (s\<lparr>flog := flog s @ [Line ''start timeout Awaiter'',
     Line ''-----------resume-------------------'', Line ''timeout return 42'']\<rparr>))"
  by (simp add: timeout_task_def Awaiter_def co_defs)

lemma timeout_part_log: "folly_ok F \<Longrightarrow> part_log (timeout_part F)
  [''start timeout'', ''start timeout Awaiter'', ''-----------resume-------------------'', ''timeout return 42'',
   ''has FutureTimeout Exception: true''] 7"
  unfolding timeout_part_def
proof (rule part_log_start_get, assumption, rule part_log_I)
  fix s
  assume F: "folly_ok F"
  have t: "co_timeout F timeout_task 1000 s = (Inl Future_timeout, snd (timeout_task s))" for s
    by (rule folly_laws(7) [OF F]) (simp add: timeout_task_result)
  note a = folly_laws(6) [OF F]
  show "\<exists>d xs. co_then (info (Id_line ''test_timeout thread id: '')) (\<lambda>u.
      co_then (info (Line ''start timeout'')) (\<lambda>u.
      co_then (co_awaitTry F (co_timeout F timeout_task 1000)) (\<lambda>result.
      co_then (info (Line (''has FutureTimeout Exception: '' @ bool_text (result = Inl Future_timeout)))) (\<lambda>u.
        info (Id_line ''timeout thread id: ''))))) s = (Inr (), later d (s\<lparr>flog := flog s @ xs\<rparr>))
    \<and> plain xs = [''start timeout'', ''start timeout Awaiter'', ''-----------resume-------------------'', ''timeout return 42'',
   ''has FutureTimeout Exception: true''] \<and> length xs = 7"
    by (intro exI [of _ 5000] exI [of _ "[Id_line ''test_timeout thread id: '', Line ''start timeout'', Line ''start timeout Awaiter'',
        Line ''-----------resume-------------------'', Line ''timeout return 42'', Line ''has FutureTimeout Exception: true'', Id_line ''timeout thread id: '']"])
      (simp add: co_then_def info_def a t timeout_task_result bool_text_def)
qed

lemma fulfilled_result:
  "folly_ok F \<Longrightarrow> \<exists>d. co_awaitTry F (fulfilled F v) s = (Inr v, later d s)"
proof -
  assume F: "folly_ok F"
  obtain d where "fulfilled F v s = (v, later d s)" using folly_laws(11) [OF F, of v] unfolding prints_def by auto
  then show ?thesis by (auto simp: folly_laws(6) [OF F])
qed

lemma promise_part_log: "folly_ok F \<Longrightarrow> part_log (promise_part F) [''hasException: true''] 1"
proof (rule part_log_I)
  fix s
  assume "folly_ok F"
  from fulfilled_result [OF this] obtain d where "co_awaitTry F (fulfilled F (Inl (Runtime_error []))) s = (Inr (Inl (Runtime_error [])), later d s)" by blast
  then show "\<exists>d xs. promise_part F s = (Inr (), later d (s\<lparr>flog := flog s @ xs\<rparr>)) \<and> plain xs = [''hasException: true''] \<and> length xs = 1"
    by (intro exI [of _ d] exI [of _ "[Line ''hasException: true'']"]) (simp add: promise_part_def co_defs is_runtime_error_def bool_text_def)
qed

lemma forty_two: "std_to_string 42 = ''42''"
  by code_simp

text \<open>Whoever starts, the waiter gets the value.\<close>

lemma value_collected:
  assumes "folly_ok F"
  shows "\<exists>d. collectAll F waiter fulfiller None s = (Inr (Inr 42, ()), later d s)"
proof -
  have "run_both first waiter fulfiller None = Some (Inr 42, ())" for first
    by (simp add: run_both_def waiter_def fulfiller_def)
  then show ?thesis by (rule folly_laws(12) [OF assms])
qed

lemma value_part_log: "folly_ok F \<Longrightarrow> part_log (value_part F) [''value: 42''] 1"
proof (rule part_log_I)
  fix s
  assume "folly_ok F"
  then obtain d where "collectAll F waiter fulfiller None s = (Inr (Inr 42, ()), later d s)" using value_collected by blast
  then show "\<exists>d xs. value_part F s = (Inr (), later d (s\<lparr>flog := flog s @ xs\<rparr>)) \<and> plain xs = [''value: 42''] \<and> length xs = 1"
    by (intro exI [of _ d] exI [of _ "[Line ''value: 42'']"]) (simp add: value_part_def co_defs forty_two)
qed

subsection \<open>The logs there can be\<close>

lemma Line_plain: "Line t \<in> set xs \<longleftrightarrow> t \<in> set (plain xs)"
  by (induction xs rule: plain.induct) auto

lemma own_log: "xs \<in> logs_with ds xs"
proof (induction ds xs rule: logs_with.induct)
  case (2 n ls ds xs)
  have "[] \<in> set (subseqs ls)" by (induction ls) (simp_all add: Let_def)
  then show ?case unfolding logs_with.simps using 2
    by (intro UN_I [of xs] UN_I [of "[]"] image_eqI [of _ _ "drop n xs"]) simp_all
qed simp

lemma logs_with_prefix:
  "zs \<in> logs_with ds xs \<Longrightarrow> \<forall>(m, ls)\<in>set ds. n \<le> m \<Longrightarrow> n \<le> length xs \<Longrightarrow> take n zs = take n xs \<and> length xs \<le> length zs"
proof (induction ds xs arbitrary: zs rule: logs_with.induct)
  case (2 m ls ds xs)
  then obtain ws ys vs where ws: "ws \<in> logs_with ds xs" and vs: "vs \<in> shuffles (drop m ws) ys" "zs = take m ws @ vs" by auto
  have "take n ws = take n xs \<and> length xs \<le> length ws" using 2 ws by auto
  moreover have "length vs = length (drop m ws) + length ys" using vs(1) by (rule length_shuffles)
  ultimately show ?case using vs(2) 2(3,4) by (auto simp: take_append min_def)
qed simp

section \<open>Properties\<close>

lemmas folly_part_logs = pool_part_log sleep_part_log mutex_part_log exception_part_log scope_part_log
  collect_part_log timeout_part_log promise_part_log value_part_log

lemma run_parts_log:
  "list_all2 (\<lambda>t (ls, n). part_log t ls n) ts rs \<Longrightarrow> part_log (run_parts ts) (concat (map fst rs)) (sum_list (map snd rs))"
proof (induction ts rs rule: list_all2_induct)
  case (Cons t ts r rs)
  then show ?case by (cases r) (simp add: part_log_then)
qed (simp add: part_log_simple)

text \<open>The parts up to the coroutine that is left alone.\<close>

definition folly_texts :: "bytes list" where
  "folly_texts = [''------------------start test folly---------------------------'',
     ''start folly::coro::sleep'', ''end folly::coro::sleep'', ''start test SharedMutex'', ''async exection'',
     ''start test AsyncScope'', ''a: true, b: true, c: true'', ''start timeout'', ''start timeout Awaiter'',
     ''-----------resume-------------------'', ''timeout return 42'', ''has FutureTimeout Exception: true'',
     ''hasException: true'']"

lemma parts_before_log:
  assumes "folly_ok F"
  shows "part_log (run_parts (take 9 (main_parts F))) folly_texts 23"
proof -
  let ?rs = "[([''------------------start test folly---------------------------''], 1), ([], 4),
      ([''start folly::coro::sleep'', ''end folly::coro::sleep''], 2), ([''start test SharedMutex''], 1),
      ([''async exection''], 1), ([''start test AsyncScope''], 1), ([''a: true, b: true, c: true''], 5),
      ([''start timeout'', ''start timeout Awaiter'', ''-----------resume-------------------'', ''timeout return 42'',
        ''has FutureTimeout Exception: true''], 7), ([''hasException: true''], 1)] :: (bytes list \<times> nat) list"
  have "list_all2 (\<lambda>t (ls, n). part_log t ls n) (take 9 (main_parts F)) ?rs"
    using folly_part_logs [OF assms] part_log_info(1) by (simp add: main_parts_def del: One_nat_def)
  from run_parts_log [OF this] show ?thesis by (simp add: folly_texts_def)
qed

lemma parts_after_log: "folly_ok F \<Longrightarrow> part_log (run_parts (drop 10 (main_parts F))) [''value: 42''] 1"
  using run_parts_log [of "drop 10 (main_parts F)" "[([''value: 42''], 1), ([], 0)]"] value_part_log part_log_simple(2)
  by (simp add: main_parts_def del: One_nat_def)

lemma run_parts_split: "run_parts (ts @ us) = co_then (run_parts ts) (\<lambda>u. run_parts us)"
  by (induction ts) (simp_all add: co_then_def co_return_def fun_eq_iff split: prod.split sum.split)

lemma folly_texts_own: "list_all (\<lambda>t. Line t \<notin> set int_ptr_lines) folly_texts"
  by (simp add: folly_texts_def int_ptr_lines_def)

lemma folly_main_runs:
  assumes "folly_ok F" and "flog s = []" and "fdetached s = []"
  shows "\<exists>s' xs. folly_main F s = (Exit 0, s') \<and> plain xs = folly_texts \<and> length xs = 23
     \<and> flog s' = xs @ [Line ''value: 42''] \<and> fdetached s' = [(23, int_ptr_lines)]"
proof -
  obtain d xs where 1: "run_parts (take 9 (main_parts F)) s = (Inr (), later d (s\<lparr>flog := xs\<rparr>))"
    "plain xs = folly_texts" "length xs = 23"
    using parts_before_log [OF assms(1)] assms(2) unfolding part_log_def by (metis append_Nil)
  let ?s = "later d (s\<lparr>flog := xs, fdetached := [(23, int_ptr_lines)]\<rparr>)"
  have 2: "int_ptr_part (later d (s\<lparr>flog := xs\<rparr>)) = (Inr (), ?s)"
    using 1(3) assms(3) by (simp add: int_ptr_part_def detach_def)
  obtain e ys where 3: "run_parts (drop 10 (main_parts F)) ?s = (Inr (), later e (?s\<lparr>flog := flog ?s @ ys\<rparr>))"
    "plain ys = [''value: 42'']" "length ys = 1"
    using parts_after_log [OF assms(1)] unfolding part_log_def by blast
  obtain y where "ys = [y]" using 3(3) by (cases ys) auto
  then have ys: "ys = [Line ''value: 42'']" using 3(2) by (cases y) simp_all
  have "main_parts F = take 9 (main_parts F) @ int_ptr_part # drop 10 (main_parts F)" by (simp add: main_parts_def)
  then have "run_parts (main_parts F) s = co_then (run_parts (take 9 (main_parts F))) (\<lambda>u. run_parts (int_ptr_part # drop 10 (main_parts F))) s"
    using run_parts_split by metis
  then have "run_parts (main_parts F) s = (Inr (), later e (?s\<lparr>flog := flog ?s @ ys\<rparr>))"
    using 1(1) 2 3(1) by (simp add: co_then_def)
  then show ?thesis using 1 ys by (simp add: folly_main_def)
qed

text \<open>
  C37. The folly program returns 0, whatever the scheduling: no exception leaves \<open>main\<close>. Every log there
  can be has, besides ten lines with thread ids and the two lines of the coroutine nobody waits for,
  the text below, in this order; those two come after \<open>hasException: true\<close>, in their order, each at
  most once. In particular the exception of a task reaches the coroutine that waits for it;
  \<open>collectAllTry\<close> keeps the two values beside the exception; the timeout is reported although its
  task, which does not hear of the cancellation, has run to its end; and the coroutine that waits for
  the promise gets its value whether it or the one that gives it is run first.
\<close>

theorem folly_main_log:
  assumes "folly_ok F" and "flog s = []" and "fdetached s = []" and "zs \<in> whole_logs (snd (folly_main F s))"
  shows "fst (folly_main F s) = Exit 0
     \<and> plain (filter (\<lambda>l. l \<notin> set int_ptr_lines) zs) =
        [''------------------start test folly---------------------------'',
         ''start folly::coro::sleep'', ''end folly::coro::sleep'', ''start test SharedMutex'', ''async exection'',
         ''start test AsyncScope'', ''a: true, b: true, c: true'', ''start timeout'', ''start timeout Awaiter'',
         ''-----------resume-------------------'', ''timeout return 42'', ''has FutureTimeout Exception: true'',
         ''hasException: true'', ''value: 42'']
     \<and> length (filter (\<lambda>l. l \<notin> set int_ptr_lines) zs) = 24
     \<and> filter (\<lambda>l. l \<in> set int_ptr_lines) zs \<in> set (subseqs [Line ''int_ptr: 996'', Line ''Deconstruction int_ptr!!!''])
     \<and> (\<forall>l\<in>set (takeWhile (\<lambda>l. l \<noteq> Line ''hasException: true'') zs). l \<notin> set int_ptr_lines)"
proof -
  obtain s' xs where run: "folly_main F s = (Exit 0, s')" and xs: "plain xs = folly_texts" "length xs = 23"
    and s': "flog s' = xs @ [Line ''value: 42'']" "fdetached s' = [(23, int_ptr_lines)]"
    using folly_main_runs [OF assms(1-3)] by blast
  then obtain ys vs where ys: "ys \<in> set (subseqs int_ptr_lines)" and vs: "vs \<in> shuffles [Line ''value: 42''] ys" "zs = xs @ vs"
    using assms(4) by (auto simp: whole_logs_def)
  have sub: "set ys \<subseteq> set int_ptr_lines" using ys by (auto simp: int_ptr_lines_def Let_def)
  have own: "l \<notin> set int_ptr_lines" if "l \<in> set xs" for l
  proof (cases l)
    case (Line t)
    then have "t \<in> set folly_texts" using that xs(1) Line_plain [of t xs] by simp
    then show ?thesis using folly_texts_own Line by (simp add: list_all_iff)
  qed (simp add: int_ptr_lines_def)
  have "filter P vs \<in> shuffles (filter P [Line ''value: 42'']) (filter P ys)" for P
    using vs(1) filter_shuffles [of P "[Line ''value: 42'']" ys] by blast
  from this [of "\<lambda>l. l \<notin> set int_ptr_lines"] this [of "\<lambda>l. l \<in> set int_ptr_lines"]
  have parts: "filter (\<lambda>l. l \<notin> set int_ptr_lines) zs = xs @ [Line ''value: 42'']" "filter (\<lambda>l. l \<in> set int_ptr_lines) zs = ys"
    using own sub vs(2) by (auto simp: filter_empty_conv filter_id_conv int_ptr_lines_def subset_iff)
  have "Line ''hasException: true'' \<in> set xs" using xs(1) by (simp add: Line_plain folly_texts_def)
  then have "takeWhile (\<lambda>l. l \<noteq> Line ''hasException: true'') zs = takeWhile (\<lambda>l. l \<noteq> Line ''hasException: true'') xs"
    unfolding vs(2) by (intro takeWhile_append1) auto
  then have "\<forall>l\<in>set (takeWhile (\<lambda>l. l \<noteq> Line ''hasException: true'') zs). l \<notin> set int_ptr_lines"
    using own by (auto dest: set_takeWhileD)
  moreover have "ys \<in> set (subseqs [Line ''int_ptr: 996'', Line ''Deconstruction int_ptr!!!''])"
    using ys by (simp only: int_ptr_lines_def)
  ultimately show ?thesis unfolding parts using run xs by (simp add: folly_texts_def)
qed

text \<open>A folly that runs everything at once, on the spot, for the witness.\<close>

definition eager_folly :: folly_lib where
  "eager_folly = \<lparr>co_sleep = (\<lambda>n s. (Inr (), later n s)), start_get = (\<lambda>t. t), start_get_int = (\<lambda>t. t),
     start_all = run_parts,
     collectAllTry = (\<lambda>a b c s. let (ra, s1) = a s; (rb, s2) = b s1; (rc, s3) = c s2 in (Inr (ra, rb, rc), s3)),
     co_awaitTry = (\<lambda>t s. (Inr (fst (t s)), snd (t s))),
     co_timeout = (\<lambda>t n s. if fclock s + n < fclock (snd (t s)) then (Inl Future_timeout, snd (t s)) else t s),
     scoped_lock = co_return (), scoped_lock_shared = co_return (), fulfilled = (\<lambda>v s. (v, s)),
     collectAll = (\<lambda>a b c s. case run_both True a b c of Some xy \<Rightarrow> (Inr xy, s) | None \<Rightarrow> (Inl Future_timeout, s)),
     exception_what = (\<lambda>e. [])\<rparr>"

lemma run_parts_prints:
  "list_all2 (\<lambda>t l. prints t l (Inr ())) ts ls \<Longrightarrow> prints (run_parts ts) (concat ls) (Inr ())"
  by (induction ts ls rule: list_all2_induct) (auto intro: prints_then prints_basic)

lemma eager_collect:
  assumes "prints a la ra" and "prints b lb rb" and "prints c lc rc"
  shows "\<exists>d. collectAllTry eager_folly a b c s = (Inr (ra, rb, rc), later d (s\<lparr>flog := flog s @ la @ lb @ lc\<rparr>))"
proof -
  obtain d1 where a: "a s = (ra, later d1 (s\<lparr>flog := flog s @ la\<rparr>))" using assms(1) by (auto simp: prints_def)
  obtain d2 where b: "b (later d1 (s\<lparr>flog := flog s @ la\<rparr>)) = (rb, later (d1 + d2) (s\<lparr>flog := (flog s @ la) @ lb\<rparr>))"
    using assms(2) [unfolded prints_def, rule_format, of "later d1 (s\<lparr>flog := flog s @ la\<rparr>)"] by auto
  obtain d3 where "c (later (d1 + d2) (s\<lparr>flog := (flog s @ la) @ lb\<rparr>)) = (rc, later (d1 + d2 + d3) (s\<lparr>flog := ((flog s @ la) @ lb) @ lc\<rparr>))"
    using assms(3) [unfolded prints_def, rule_format, of "later (d1 + d2) (s\<lparr>flog := (flog s @ la) @ lb\<rparr>)"] by auto
  with a b show ?thesis by (intro exI [of _ "d1 + d2 + d3"]) (simp add: eager_folly_def)
qed

lemma eager_folly_ok: "folly_ok eager_folly"
  unfolding folly_ok_def
proof (intro conjI allI impI)
  fix n s show "\<exists>d. co_sleep eager_folly n s = (Inr (), later (n + d) s)" by (auto simp: eager_folly_def intro: exI [of _ 0])
next
  fix t s show "\<exists>d. start_get eager_folly t s = t (later d s)" by (auto simp: eager_folly_def intro: exI [of _ 0])
next
  fix t s show "\<exists>d. start_get_int eager_folly t s = t (later d s)" by (auto simp: eager_folly_def intro: exI [of _ 0])
next
  fix ts ls s assume "list_all2 (\<lambda>t l. prints t l (Inr ())) ts ls"
  from run_parts_prints [OF this] show "\<exists>d xs. start_all eager_folly ts s = (Inr (), later d (s\<lparr>flog := flog s @ xs\<rparr>)) \<and> mset xs = mset (concat ls)"
    unfolding prints_def by (fastforce simp: eager_folly_def)
next
  fix a :: "int task" and b :: "bytes task" and c :: "unit task" and la lb lc ra rb rc s
  assume "prints a la ra \<and> prints b lb rb \<and> prints c lc rc"
  then show "\<exists>d xs. collectAllTry eager_folly a b c s = (Inr (ra, rb, rc), later d (s\<lparr>flog := flog s @ xs\<rparr>)) \<and> mset xs = mset (la @ lb @ lc)"
    using eager_collect by blast
next
  fix t :: "int task" and n s assume "fclock (snd (t s)) < fclock s + n"
  then show "co_timeout eager_folly t n s = t s" by (simp add: eager_folly_def)
next
  fix t :: "int task" and n s
  show "co_timeout eager_folly t n s = t s \<or> co_timeout eager_folly t n s = (Inl Future_timeout, snd (t s))"
    by (simp add: eager_folly_def)
next
  fix t :: "int task" and n s assume "fclock s + n < fclock (snd (t s))"
  then show "co_timeout eager_folly t n s = (Inl Future_timeout, snd (t s))" by (simp add: eager_folly_def)
next
  fix a :: "cell \<Rightarrow> cell \<times> int try_of option" and b :: "cell \<Rightarrow> cell \<times> unit option" and c xy s
  assume "\<forall>first. run_both first a b c = Some xy"
  then show "\<exists>d. collectAll eager_folly a b c s = (Inr xy, later d s)"
    by (auto simp: eager_folly_def intro: exI [of _ 0])
next
  fix v show "prints (fulfilled eager_folly v) [] v" by (auto simp: eager_folly_def prints_def intro: exI [of _ 0])
qed (use prints_basic(3) in \<open>simp_all add: eager_folly_def\<close>)

theorem folly_main_log_witness:
  "\<exists>zs. zs \<in> whole_logs (snd (folly_main eager_folly \<lparr>flog = [], fclock = 0, fdetached = []\<rparr>))
     \<and> length (filter (\<lambda>l. l \<notin> set int_ptr_lines) zs) = 24"
proof -
  let ?s = "\<lparr>flog = [], fclock = 0, fdetached = []\<rparr>"
  have log: "flog (snd (folly_main eager_folly ?s)) \<in> whole_logs (snd (folly_main eager_folly ?s))"
    unfolding whole_logs_def by (rule own_log)
  from folly_main_log [OF eager_folly_ok _ _ this] log show ?thesis by auto
qed

end
