(* ===== verification/Boost_Print.thy ===== *)
theory Boost_Print
  imports Prelude
begin

text \<open>
  \<open>src/test_boost.cpp\<close>: a random uuid and a decimal constant are printed through a string stream.
  The uuid generator, the decimal type and the two output operators are parts of Boost and
  arguments here; an output operator appends to the stream it is given.
\<close>

section \<open>The program\<close>

record ('u, 'd) boost_lib =
  random_uuid :: "string + 'u"
  decimal_of :: "string \<Rightarrow> 'd"
  put_uuid :: "'u \<Rightarrow> bytes \<Rightarrow> bytes"
  put_decimal :: "'d \<Rightarrow> bytes \<Rightarrow> bytes"

text \<open>\<open>print\<close>: a fresh stream, one insertion, its contents.\<close>

definition print :: "('a \<Rightarrow> bytes \<Rightarrow> bytes) \<Rightarrow> 'a \<Rightarrow> bytes" where
  "print put_value p = (let ss = put_value p [] in ss)"

text \<open>
  \<open>main\<close>: the lines it logs, and how it ends. There is no handler, so a generator that throws (it
  does when the system has no entropy) terminates the process before anything is logged.
\<close>

definition boost_main :: "('u, 'd) boost_lib \<Rightarrow> bytes list \<times> proc_outcome" where
  "boost_main B =
     (case random_uuid B of
        Inl e \<Rightarrow> ([], Terminate)
      | Inr uuid \<Rightarrow>
          (let decimal = decimal_of B ''0.45''
           in ([''uuid: '' @ print (put_uuid B) uuid, ''decimal: '' @ print (put_decimal B) decimal], Exit 0)))"

section \<open>What it prints\<close>

text \<open>What Boost documents of the text of a uuid: 32 hexadecimal digits in groups of 8, 4, 4, 4 and 12.\<close>

definition hex_digits :: "bytes" where
  "hex_digits = ''0123456789abcdef''"

definition uuid_text :: "bytes \<Rightarrow> bool" where
  "uuid_text t \<longleftrightarrow> length t = 36
     \<and> list_all (\<lambda>i. if i \<in> {8, 13, 18, 23} then t ! i = CHR 0x2D else t ! i \<in> set hex_digits) [0..<36]"

text \<open>
  The uuid line has always 42 characters, the stream of one line never holds the text of the other,
  and the exit value depends on the generator only.
\<close>

lemma boost_main_outcome:
  assumes "\<And>u ss. \<exists>t. uuid_text t \<and> put_uuid B u ss = ss @ t"
  shows "case random_uuid B of
      Inl e \<Rightarrow> boost_main B = ([], Terminate)
    | Inr u \<Rightarrow> \<exists>t. uuid_text t \<and> length (''uuid: '' @ t) = 42
        \<and> boost_main B = ([''uuid: '' @ t, ''decimal: '' @ put_decimal B (decimal_of B ''0.45'') []], Exit 0)"
proof (cases "random_uuid B")
  case (Inr u)
  obtain t where "uuid_text t" "put_uuid B u [] = t" using assms [of u "[]"] by auto
  with Inr show ?thesis by (auto simp: boost_main_def print_def uuid_text_def)
qed (simp add: boost_main_def)

end
