(* ===== verification/Test_Main.thy ===== *)
theory Test_Main
  imports Folly_Experiments Sql_Table Lambda_Endpoint Drogon_Chat Greeter_Client
begin

text \<open>
  \<open>main\<close> of \<open>src/test.cpp\<close>: the table program, the gRPC server and client on detached threads, the
  Lambda handler, redis, the HTTP client and the folly experiments, one after another. The parts
  are those of the other theories; here is what holds them together, and how the process ends.
\<close>

section \<open>The parts\<close>

text \<open>Plain statements of \<open>main\<close> that print.\<close>

definition print_lines :: "bytes list \<Rightarrow> unit task" where
  "print_lines ls s = (Inr (), s\<lparr>flog := flog s @ map Line ls\<rparr>)"

text \<open>
  Two detached threads, the server and the client: what they print comes at any time, or not at all
  when \<open>main\<close> is over first. Either can also abort the process, at an assertion of \<open>HandleRpcs\<close> or of
  \<open>SayHello\<close> or on a server that did not start: that is \<open>env_abort\<close> below.
\<close>

definition detached_threads :: "bytes \<Rightarrow> unit task" where
  "detached_threads reply =
     co_then (detach [Line ''Server listening on 0.0.0.0:50051'']) (\<lambda>u.
     detach [Line (''Greeter received: '' @ reply)])"

text \<open>
  \<open>run_handler\<close> inside \<open>try ... catch (...)\<close>: \<open>None\<close> serves for ever, \<open>Some True\<close> returned,
  \<open>Some False\<close> threw.
\<close>

definition lambda_part :: "bool \<Rightarrow> unit task" where
  "lambda_part came_back = print_lines (if came_back then [] else [''aws error''])"

text \<open>
  The continuation of \<open>redis.get\<close>: \<open>fut.get()\<close> in it throws for a failed command, which ends up in
  the future that \<open>main\<close> only waits for.
\<close>

definition redis_part :: "unit + bytes option \<Rightarrow> unit task" where
  "redis_part r = print_lines (case r of Inr (Some v) \<Rightarrow> [v] | _ \<Rightarrow> [])"

text \<open>
  The HTTP task; \<open>create_lazy_task\<close> catches runtime errors and those of the JSON library.
\<close>

datatype query_answer = Answered | Runtime_failure bytes | Json_failure bytes | Other_failure exn

definition http_part :: "query_answer \<Rightarrow> unit task" where
  "http_part a =
     (case a of
        Answered \<Rightarrow> print_lines [''end query!!!'']
      | Runtime_failure e \<Rightarrow> print_lines [e]
      | Json_failure e \<Rightarrow> print_lines [e]
      | Other_failure e \<Rightarrow> co_throw e)"

text \<open>The timeout of this program has nothing to wait for.\<close>

definition short_task :: "folly_lib \<Rightarrow> int task" where
  "short_task F = co_then (co_sleep F 0) (\<lambda>u. co_then (info (Line ''timeout return 42'')) (\<lambda>u. co_return 42))"

definition short_timeout_part :: "folly_lib \<Rightarrow> unit task" where
  "short_timeout_part F = start_get F
     (co_then (info (Id_line ''test_timeout thread id: '')) (\<lambda>u.
      co_then (info (Line ''start timeout'')) (\<lambda>u.
      co_then (co_awaitTry F (co_timeout F (short_task F) 1000)) (\<lambda>result.
      co_then (info (Line (''has FutureTimeout Exception: '' @ bool_text (result = Inl Future_timeout)))) (\<lambda>u.
        info (Id_line ''timeout thread id: ''))))))"

section \<open>\<open>main\<close>\<close>

text \<open>
  What the parts meet: the database, the answer to \<open>SayHello\<close>, the uuid drawn, the environment,
  the Lambda runtime, redis, the hardware, the event loops and the HTTP server; and, should one of
  the detached threads abort the process, after how many of the parts that follow their start it
  does. That a thread cannot be created, or memory or entropy is short, is not modelled.
\<close>

record ('d, 'l) test_env =
  env_db :: "'d sql_db"
  env_rows :: 'd
  env_reply :: bytes
  env_uuid :: bytes
  env_host :: "bytes option"
  env_handler :: "bool option"
  env_redis :: "unit + bytes option"
  env_hc :: u32
  env_loop :: "nat \<Rightarrow> 'l"
  env_answer :: "'l http_client \<Rightarrow> query_answer"
  env_abort :: "nat option"

text \<open>Up to the start of the threads; then, up to the Lambda handler, whose client needs the endpoint.\<close>

definition first_parts :: "('d, 'l) test_env \<Rightarrow> unit task list" where
  "first_parts E =
     (let r = sql_main (env_db E) (env_rows E)
      in [print_lines (printed r @ logged r), detached_threads (env_reply E)])"

definition demo_part :: "('d, 'l) test_env \<Rightarrow> unit task" where
  "demo_part E = print_lines [env_uuid E, ''0.45'']"

definition last_parts :: "folly_lib \<Rightarrow> ('d, 'l) test_env \<Rightarrow> bool \<Rightarrow> 'l http_client \<Rightarrow> unit task list" where
  "last_parts F E came_back client =
     [lambda_part came_back, info (Id_line ''main thread id: ''),
      print_lines [''------------------start test redis-plus-plus---------------------------''],
      redis_part (env_redis E),
      print_lines [''------------------start test drogon---------------------------''],
      http_part (env_answer E client),
      print_lines [''------------------start test folly---------------------------''],
      pool_part F, sleep_part F, mutex_part F, exception_part F, scope_part F, collect_part F,
      short_timeout_part F, promise_part F]"

text \<open>
  The parts as far as the detached threads let them: all, or \<open>k\<close> and then the process is gone, which
  can also be between the last part and the return of \<open>main\<close>.
\<close>

definition run_while_up :: "nat option \<Rightarrow> unit task list \<Rightarrow> fstate \<Rightarrow> proc_outcome \<times> fstate" where
  "run_while_up abort ts s =
     (case abort of
        None \<Rightarrow> (case run_parts ts s of (Inl e, s') \<Rightarrow> (Terminate, s') | (Inr u, s') \<Rightarrow> (Exit 0, s'))
      | Some k \<Rightarrow>
          (case run_parts (take k ts) s of
             (Inl e, s') \<Rightarrow> (Terminate, s')
           | (Inr u, s') \<Rightarrow> (if k \<le> length ts then Terminate else Exit 0, s')))"

text \<open>
  \<open>None\<close> is undefined behaviour: an endpoint too long for its buffer, or a client selected from an
  empty vector. A handler that serves for ever does so until a detached thread aborts.
\<close>

definition test_main ::
  "folly_lib \<Rightarrow> ('d, 'l) test_env \<Rightarrow> fstate \<Rightarrow> (proc_outcome \<times> fstate) option" where
  "test_main F E s =
     (case run_parts (first_parts E) s of
        (Inl e, s1) \<Rightarrow> Some (Terminate, s1)
      | (Inr u, s1) \<Rightarrow>
          (if env_abort E = Some 0 then Some (Terminate, s1)
           else (case demo_part E s1 of
              (Inl e, s2) \<Rightarrow> Some (Terminate, s2)
            | (Inr u, s2) \<Rightarrow>
                (case createDynamoDBClient (env_host E) ''us-east-1'' ''local'' ''local'' of
                   None \<Rightarrow> None
                 | Some dynamo \<Rightarrow>
                     (case env_handler E of
                        None \<Rightarrow> Some (if env_abort E = None then Hang else Terminate, s2)
                      | Some came_back \<Rightarrow>
                          if env_abort E = Some 1 then Some (Terminate, s2)
                          else (case get_http_client (env_hc E) (new_ring (env_loop E) ''http://127.0.0.1:9200'' (env_hc E)) of
                             None \<Rightarrow> None
                           | Some (client, r) \<Rightarrow>
                               Some (run_while_up (map_option (\<lambda>n. n - 2) (env_abort E)) (last_parts F E came_back client) s2)))))))"

section \<open>How it ends\<close>

text \<open>The log has only been added to, and so have the detached coroutines, from here on.\<close>

definition grows :: "fstate \<Rightarrow> fstate \<Rightarrow> bool" where
  "grows s s' \<longleftrightarrow> (\<exists>xs ds. flog s' = flog s @ xs \<and> fdetached s' = fdetached s @ ds \<and> (\<forall>(m, ls)\<in>set ds. length (flog s) \<le> m))"

lemma grows_refl: "grows s s"
  by (simp add: grows_def)

lemma grows_trans: "grows s s1 \<Longrightarrow> grows s1 s2 \<Longrightarrow> grows s s2"
proof -
  assume "grows s s1" and "grows s1 s2"
  then obtain xs ds ys es where "flog s1 = flog s @ xs" "fdetached s1 = fdetached s @ ds" "\<forall>(m, ls)\<in>set ds. length (flog s) \<le> m"
    "flog s2 = flog s1 @ ys" "fdetached s2 = fdetached s1 @ es" "\<forall>(m, ls)\<in>set es. length (flog s1) \<le> m"
    unfolding grows_def by auto
  then show "grows s s2" unfolding grows_def by (intro exI [of _ "xs @ ys"] exI [of _ "ds @ es"]) auto
qed

text \<open>A part that lets \<open>main\<close> go on; \<open>co_throw\<close> is the only one here that does not.\<close>

definition goes_on :: "unit task \<Rightarrow> bool" where
  "goes_on t \<longleftrightarrow> (\<forall>s. fst (t s) = Inr () \<and> grows s (snd (t s)))"

lemma goes_on_run: "goes_on t \<Longrightarrow> \<exists>s'. t s = (Inr (), s') \<and> grows s s'"
  unfolding goes_on_def by (metis prod.collapse)

lemma goes_on_I: "(\<And>s. \<exists>s'. t s = (Inr (), s') \<and> grows s s') \<Longrightarrow> goes_on t"
  unfolding goes_on_def by (metis fst_conv snd_conv)

lemma part_log_goes_on: "part_log t ls n \<Longrightarrow> goes_on t"
  by (rule goes_on_I) (fastforce simp: part_log_def grows_def)

lemma goes_on_basic: "goes_on (print_lines ls)" "goes_on (info l)" "goes_on (detach ds)" "goes_on (demo_part E)"
  "goes_on (lambda_part b)" "goes_on (redis_part q)"
  by (simp_all add: goes_on_def grows_def print_lines_def info_def detach_def demo_part_def lambda_part_def redis_part_def)

lemma goes_on_then:
  assumes "goes_on t" and "\<And>x. goes_on (f x)"
  shows "goes_on (co_then t f)"
proof (rule goes_on_I)
  fix s
  obtain s1 where 1: "t s = (Inr (), s1)" "grows s s1" using goes_on_run [OF assms(1)] by blast
  obtain s2 where "f () s1 = (Inr (), s2)" "grows s1 s2" using goes_on_run [OF assms(2)] by blast
  with 1 show "\<exists>s'. co_then t f s = (Inr (), s') \<and> grows s s'" by (auto simp: co_then_def intro: grows_trans)
qed

lemma throw_stops: "\<not> goes_on (co_throw e)"
  by (simp add: goes_on_def co_throw_def)

text \<open>Parts one after another: the log grows, and one that throws is the end.\<close>

lemma run_parts_end:
  "(\<And>t. t \<in> set ts \<Longrightarrow> goes_on t \<or> (\<exists>e. t = co_throw e)) \<Longrightarrow>
   grows s (snd (run_parts ts s)) \<and> (fst (run_parts ts s) = Inr () \<longleftrightarrow> (\<forall>t\<in>set ts. goes_on t))"
proof (induction ts arbitrary: s)
  case Nil
  show ?case by (simp add: co_return_def grows_refl)
next
  case (Cons t ts)
  show ?case
  proof (cases "goes_on t")
    case True
    then obtain s1 where "t s = (Inr (), s1)" "grows s s1" using goes_on_run by blast
    with Cons.IH [of s1] Cons.prems True show ?thesis by (auto simp: co_then_def intro: grows_trans)
  next
    case False
    then obtain e where "t = co_throw e" using Cons.prems by auto
    then show ?thesis using throw_stops by (auto simp: co_then_def co_throw_def grows_refl)
  qed
qed

lemma run_while_up_end:
  assumes "\<And>t. t \<in> set ts \<Longrightarrow> goes_on t \<or> (\<exists>e. t = co_throw e)"
  shows "\<exists>s'. run_while_up abort ts s =
      (if (\<exists>k. abort = Some k \<and> k \<le> length ts) \<or> (\<exists>t\<in>set ts. \<not> goes_on t) then Terminate else Exit 0, s') \<and> grows s s'"
proof (cases abort)
  case None
  obtain r s' where "run_parts ts s = (r, s')" by fastforce
  then show ?thesis using run_parts_end [of ts s, OF assms] None by (cases r) (auto simp: run_while_up_def)
next
  case (Some k)
  obtain r s' where r: "run_parts (take k ts) s = (r, s')" by fastforce
  have "\<And>t. t \<in> set (take k ts) \<Longrightarrow> goes_on t \<or> (\<exists>e. t = co_throw e)" using assms in_set_takeD by metis
  from run_parts_end [of "take k ts" s, OF this] r Some show ?thesis
    by (cases r; cases "k \<le> length ts") (auto simp: run_while_up_def dest: in_set_takeD)
qed

lemma start_get_goes_on:
  assumes "folly_ok F" and "goes_on t"
  shows "goes_on (start_get F t)"
proof (rule goes_on_I)
  fix s
  obtain d where "start_get F t s = t (later d s)" using folly_laws(2) [OF assms(1)] by blast
  moreover obtain s' where "t (later d s) = (Inr (), s')" "grows (later d s) s'" using goes_on_run [OF assms(2)] by blast
  ultimately show "\<exists>s'. start_get F t s = (Inr (), s') \<and> grows s s'" by (auto simp: grows_def)
qed

text \<open>Whether the timer or the task is first, the result is a value or an exception in hand.\<close>

lemma short_try:
  assumes "folly_ok F"
  shows "\<exists>r s'. co_awaitTry F (co_timeout F (short_task F) 1000) s = (Inr r, s') \<and> grows s s'"
proof -
  have "prints (short_task F) [Line ''timeout return 42''] (Inr 42)"
    unfolding short_task_def
    using prints_then [OF prints_basic(5) [OF assms] prints_then [OF prints_basic(1) prints_basic(3)]] by simp
  then obtain d where "short_task F s = (Inr 42, later d (s\<lparr>flog := flog s @ [Line ''timeout return 42'']\<rparr>))"
    by (auto simp: prints_def)
  then show ?thesis
    using folly_laws(8) [OF assms, of "short_task F" 1000 s] by (auto simp: folly_laws(6) [OF assms] grows_def)
qed

lemma short_timeout_goes_on:
  assumes "folly_ok F"
  shows "goes_on (short_timeout_part F)"
  unfolding short_timeout_part_def
proof (rule start_get_goes_on [OF assms], intro goes_on_then goes_on_basic)
  let ?tail = "\<lambda>result. co_then (info (Line (''has FutureTimeout Exception: '' @ bool_text (result = Inl Future_timeout))))
    (\<lambda>u. info (Id_line ''timeout thread id: ''))"
  have tail: "goes_on (?tail result)" for result by (intro goes_on_then goes_on_basic)
  show "goes_on (co_then (co_awaitTry F (co_timeout F (short_task F) 1000)) ?tail)"
  proof (rule goes_on_I)
    fix s
    obtain r s1 where 1: "co_awaitTry F (co_timeout F (short_task F) 1000) s = (Inr r, s1)" "grows s s1"
      using short_try [OF assms] by blast
    obtain s2 where "?tail r s1 = (Inr (), s2)" "grows s1 s2" using goes_on_run [OF tail] by blast
    with 1 show "\<exists>s'. co_then (co_awaitTry F (co_timeout F (short_task F) 1000)) ?tail s = (Inr (), s') \<and> grows s s'"
      by (intro exI [of _ s2]) (auto simp: co_then_def [of "co_awaitTry F _"] intro: grows_trans)
  qed
qed

lemma first_client:
  assumes "hc \<noteq> 0"
  shows "\<exists>r. get_http_client hc (new_ring loop host hc) = Some (\<lparr>host_string = host, client_loop = loop 0\<rparr>, r)"
proof -
  have "unat hc > 0" using assms by (simp add: unat_gt_0)
  then have "http_clients (new_ring loop host hc) ! 0 = \<lparr>host_string = host, client_loop = loop 0\<rparr>"
    by (simp add: new_ring_clients)
  moreover have "ring_count (new_ring loop host hc) = 0" by (simp add: new_ring_def)
  ultimately show ?thesis using get_http_client_result [OF new_ring_inv [OF assms, of loop host]] by auto
qed

text \<open>The lines of the table program come first, whatever is detached later.\<close>

definition table_lines :: "('d, 'l) test_env \<Rightarrow> line list" where
  "table_lines E = map Line (printed (sql_main (env_db E) (env_rows E)) @ logged (sql_main (env_db E) (env_rows E)))"

lemma first_parts_result:
  "\<exists>s1. run_parts (first_parts E) s = (Inr (), s1) \<and> flog s1 = flog s @ table_lines E
     \<and> (fdetached s = [] \<longrightarrow> (\<forall>(m, ls)\<in>set (fdetached s1). length (flog s @ table_lines E) \<le> m))"
  by (simp add: first_parts_def Let_def print_lines_def detached_threads_def detach_def co_then_def co_return_def table_lines_def)

lemma grown_logs:
  assumes "grows s1 s'" and "\<forall>(m, ls)\<in>set (fdetached s1). length (flog s1) \<le> m" and "zs \<in> whole_logs s'"
  shows "\<exists>rest. zs = flog s1 @ rest"
proof -
  obtain xs ds where "flog s' = flog s1 @ xs" "fdetached s' = fdetached s1 @ ds" "\<forall>(m, ls)\<in>set ds. length (flog s1) \<le> m"
    using assms(1) by (auto simp: grows_def)
  then have "take (length (flog s1)) zs = flog s1"
    using logs_with_prefix [of zs "fdetached s'" "flog s'" "length (flog s1)"] assms(2,3) by (auto simp: whole_logs_def)
  then show ?thesis by (metis append_take_drop_id)
qed

lemma http_part_cases:
  "(if (\<exists>e. a = Other_failure e) then \<not> goes_on (http_part a) \<and> (\<exists>e. http_part a = co_throw e) else goes_on (http_part a))"
  by (cases a) (auto simp: http_part_def goes_on_basic throw_stops)

lemma last_parts_steady:
  assumes "folly_ok F"
  shows "t \<in> set (last_parts F E b client) \<Longrightarrow> t = http_part (env_answer E client) \<or> goes_on t"
  using folly_part_logs [OF assms, THEN part_log_goes_on] short_timeout_goes_on [OF assms]
  by (auto simp: last_parts_def goes_on_basic)

lemma last_parts_end:
  assumes "folly_ok F"
  shows "\<exists>s'. run_while_up abort (last_parts F E b client) s =
      (if (\<exists>k. abort = Some k \<and> k \<le> 15) \<or> (\<exists>e. env_answer E client = Other_failure e) then Terminate else Exit 0, s') \<and> grows s s'"
proof -
  let ?ts = "last_parts F E b client"
  note http = http_part_cases [of "env_answer E client"]
  have "goes_on t \<or> (\<exists>e. t = co_throw e)" if "t \<in> set ?ts" for t
    using last_parts_steady [OF assms that] http by (auto split: if_splits)
  from run_while_up_end [OF this, of ?ts abort s]
  have "\<exists>s'. run_while_up abort ?ts s =
      (if (\<exists>k. abort = Some k \<and> k \<le> length ?ts) \<or> (\<exists>t\<in>set ?ts. \<not> goes_on t) then Terminate else Exit 0, s') \<and> grows s s'" by blast
  moreover have "length ?ts = 15" by (simp add: last_parts_def)
  moreover have "http_part (env_answer E client) \<in> set ?ts" by (simp add: last_parts_def)
  then have "(\<exists>t\<in>set ?ts. \<not> goes_on t) \<longleftrightarrow> (\<exists>e. env_answer E client = Other_failure e)"
    using last_parts_steady [OF assms] http by (metis (no_types, lifting))
  ultimately show ?thesis by simp
qed

section \<open>Properties\<close>



end
