(* ===== verification/Spec2Isabelle.thy ===== *)
theory Spec2Isabelle
  imports
    Io_Context_Pool Http_Clients Asio_Util
    Tcp_Server Tcp_Client Tcp_Echo Tcp_System Tcp_Network
    Hello_Request Hello_Reply Hello_Lifetime
    Greeter_Server Greeter_Spec Greeter_Run Greeter_Threads Greeter_Service Greeter_Callback Greeter_Client Greeter_Network Greeter_Progress Greeter_Quiet
    Redis_Awaiter Mysql_Session Sql_Table Sql_Schema
    Yaml_To_String Lambda_Endpoint Drogon_Chat Drogon_Loop Folly_Experiments Boost_Print Test_Main
begin

text \<open>
  A verification of the example programs of this repository: coroutine clients and servers in C++20 over
  Boost.Asio, gRPC, drogon, redis, MySQL and AWS.

  \<^bold>\<open>The program's parts.\<close> A pool of asio contexts
  (\<open>include/io_context_pool.h\<close>) and a header of awaiters
  (\<open>include/asio_util.hpp\<close>) carry the TCP echo server and its client
  (\<open>src/test_tcp_server.cpp\<close>, \<open>src/test_tcp_client.cpp\<close>) and the MySQL session
  (\<open>src/test_boost_mysql.cpp\<close>). An asynchronous gRPC server and a client
  (\<open>include/greeter_async_server.h\<close>, \<open>include/greeter_async_client.h\<close>) talk
  through the classes generated from \<open>helloworld.proto\<close> (\<open>helloworld.pb.h\<close>,
  \<open>helloworld.pb.cc\<close>, \<open>helloworld.grpc.pb.h\<close>,
  \<open>helloworld.grpc.pb.cc\<close>). The other programs are independent: the client selector and
  chat of \<open>src/test_drogon.cpp\<close>, the future awaiter of \<open>src/test_redis++.cpp\<close>,
  the configuration printer of \<open>src/test_yaml_cpp_struct.cpp\<close>, the Lambda handler of
  \<open>src/test_aws_lambda.cpp\<close>, the coroutine experiments of
  \<open>src/test_folly.cpp\<close>, and \<open>src/test.cpp\<close>, which repeats several of them and
  adds the sqlpp table program over the table type of \<open>include/TestSqlppTable.h\<close>.

  \<^bold>\<open>The theories.\<close>
  \<^item> \<open>Prelude\<close>: machine types, error codes, process outcomes, the rule collections,
    facts on words and lists. \<open>Std_String\<close>: decimal text.
  \<^item> \<open>Round_Robin\<close>: the contract of handing out items in turn, as a locale; its
    consequences (the n-th item, balance, refinement of a rotating queue) are proved there once and
    interpreted by the next two. \<open>Simulation\<close>: refinement between step relations, and
    runs that a weight bounds and that end at rest, as locales.
  \<^item> \<open>Io_Context_Pool\<close>: \<open>IoContextPool\<close>, \<open>start\<close>,
    \<open>stop\<close>, \<open>getIoContext\<close> at the width of \<open>size_t\<close>, over a heap
    of contexts.
  \<^item> \<open>Http_Clients\<close>: \<open>get_http_client\<close>, first sequentially, then cut
    into its steps and run by any number of threads with the mutex.
  \<^item> \<open>Asio_Util\<close>: \<open>co_await\<close> and one record with its methods per awaiter
    class; the contract of an awaiter is the locale \<open>awaiter\<close>, interpreted on each class.
  \<^item> \<open>Tcp_Server\<close>, \<open>Tcp_Client\<close>: coroutines as machines whose states are
    their \<open>co_await\<close> points; the accept loop; both \<open>main\<close> functions down to
    how the process ends. \<open>Tcp_Echo\<close> composes client and session with the bytes on the way
    between them; \<open>Tcp_System\<close> composes the accept loop, the executors, the threads of the
    contexts and any number of sessions; \<open>Tcp_Network\<close> puts a client at the other end of
    every connection, over a network in which writes may fail half way.
  \<^item> \<open>Proto_Message\<close>: the protobuf runtime as a parameter with its documented laws,
    and the locales \<open>message_class\<close> and \<open>message_object\<close> that hold what the
    two generated classes share; \<open>Hello_Request\<close> and \<open>Hello_Reply\<close> translate
    the classes and interpret the locales, and \<open>Hello_Lifetime\<close> the methods that create,
    move and destroy objects; \<open>Wire_Format\<close> is a concrete runtime that satisfies the laws.
  \<^item> \<open>Greeter_Server\<close>: \<open>CallData\<close> objects on a heap,
    \<open>Proceed\<close>, \<open>HandleRpcs\<close>, with the gRPC runtime as a step relation.
    \<open>Greeter_Spec\<close>: the abstract service it refines. \<open>Greeter_Run\<close>:
    \<open>Run\<close> and the calls of the destructor. \<open>Greeter_Threads\<close>:
    the loop in any number of threads, whose steps interleave between the accesses of
    \<open>Proceed\<close> to its object. \<open>Greeter_Service\<close> and
    \<open>Greeter_Callback\<close>: the generated service and stub, with their handlers and callback
    interfaces. \<open>Greeter_Client\<close>: \<open>SayHello\<close>, and the client against the
    server with the messages as bytes. \<open>Greeter_Network\<close>: any number of clients and of
    server threads, over a runtime that may lose calls and that fails those whose messages the
    parsers do not accept. \<open>Greeter_Progress\<close>: what they get done under any scheduling, and
    what becomes of the threads while the destructor runs.
    \<open>Greeter_Quiet\<close>: how the calls that are under way end.
  \<^item> \<open>Redis_Awaiter\<close>, \<open>Mysql_Session\<close>, \<open>Yaml_To_String\<close>,
    \<open>Lambda_Endpoint\<close>, \<open>Folly_Experiments\<close>, \<open>Boost_Print\<close>: one
    program each. \<open>Sql_Table\<close> and \<open>Sql_Schema\<close>: the table program, and the
    types of its table. \<open>Drogon_Chat\<close> and \<open>Drogon_Loop\<close>: the handlers and the
    event loop of one program. \<open>Test_Main\<close>: \<open>main\<close> of
    \<open>src/test.cpp\<close>, which strings several of them together.

  \<^bold>\<open>What the theorems show.\<close> Contexts and HTTP clients are handed out in turn and
  evenly, the latter under every interleaving of threads where the hardware reports a thread at all, and
  both refine one rotating queue; a started pool can always be stopped, and not stopping it hangs. A
  session echoes exactly what it read, within its buffer, and closes its socket once; client and session
  together lose, invent and reorder no byte and never wait for each other, though the client may finish
  before it has read all of its answer; the accept loop equals its reference; any number of sessions on
  the threads of the pool do not disturb each other, none gets stuck, and they are spread evenly; with
  their clients and a failing network each connection still runs as the pair does alone, every client
  gets back the beginning of its own bytes, and between accepts everything comes to rest. Messages
  survive the wire, their size is exact within \<open>size_t\<close> and, cached, within
  \<open>int\<close>, parsing terminates, rejects bad text and merges concatenated messages; copying and
  moving are right under aliasing. The gRPC server never touches a deleted object, always has exactly one
  object waiting, in many threads one for each, refines in both cases a service that answers every
  accepted name at most once, and every client gets the answer to its own name, while a name that is not
  text never gets to an object; left alone its threads come to rest with every reply handed over, a call
  that is not over can be answered as long as no operation has failed, and every call ends; its
  destructor always ends in an assertion of the loop, in whatever thread. The table program is well typed
  for its table. For the other programs: what is printed, logged and returned, and how the process ends,
  on the error paths too; what nobody waits for, a coroutine of the folly program and the detached
  threads of \<open>src/test.cpp\<close>, may log at any time and, there, abort the process.

  \<^bold>\<open>Fuel and bounds.\<close> Only the message parsers carry fuel, one unit per round of
  their loop: a round consumes at least a byte, so the length of the input plus one is enough for every
  input (a property of \<open>Hello_Request\<close>). Loops over words are recursive functions with a
  termination proof. The steps of client and session, of the whole network, of the threads
  of the gRPC server and of its shutdown are bounded by a weight that each step lowers, 413900 for a
  fresh connection, twenty for each thread and object of the gRPC server and eighteen for each call
  under way. Loops that serve for ever are step relations or functions of the list of completions that
  have arrived.

  \<^bold>\<open>Parameters.\<close> Libraries outside the repository are arguments of the definitions:
  when \<open>io_context::run\<close> returns (\<open>run_contract\<close>), the protobuf runtime
  (\<open>lib_ok\<close>), the gRPC library (\<open>service_lib_ok\<close>, \<open>completes\<close>,
  \<open>delivers\<close>), what boost rethrows, the database (\<open>db_ok\<close>), the JSON library
  (\<open>json_ok\<close>), folly (\<open>folly_ok\<close>), the uuids of Boost
  (\<open>uuid_text\<close>), the YAML library, the AWS SDK, the builder of the gRPC server.

  \<^bold>\<open>Not modelled.\<close> \<open>include/xmake_example.h\<close>, which only includes
  headers; the descriptor and reflection tables of the generated messages, which are data for the
  runtime; the thread a line is printed from; how the gRPC library takes several template layers put on
  one service; failures to get a thread, memory or entropy; a connection that drogon makes again by
  itself. Time does not pass in the models of the servers: a timer
  is a completion.
\<close>

end
